(* ===== verification/Run_States.thy ===== *)
theory Run_States
  imports Main
begin

text \<open>
  The states and events of a run (\<^verbatim>\<open>domain/runs.py\<close>) and the table of the legal moves. They come
  before the exceptions because \<open>IllegalTransitionError\<close> carries a state and an event.
\<close>

datatype run_state =
    IDEA | PM_ANALYSIS | QUESTIONNAIRE | PLAN_REVIEW | PLAN_REJECTED | PM_REVISION
  | PLAN_APPROVED | BACKEND_GENERATION | ZIP_READY | FAILED

datatype run_event =
    DESCRIBE | ASK | PROPOSE | REJECT | REVISE | APPROVE | GENERATE | DELIVER | FAIL | RESET

fun TRANSITIONS :: "run_state \<Rightarrow> (run_event \<times> run_state) list" where
  "TRANSITIONS IDEA = [(DESCRIBE, PM_ANALYSIS)]"
| "TRANSITIONS PM_ANALYSIS = [(ASK, QUESTIONNAIRE), (PROPOSE, PLAN_REVIEW)]"
| "TRANSITIONS QUESTIONNAIRE =
     [(DESCRIBE, PM_ANALYSIS), (ASK, QUESTIONNAIRE), (PROPOSE, PLAN_REVIEW)]"
| "TRANSITIONS PLAN_REVIEW = [(REJECT, PLAN_REJECTED), (APPROVE, PLAN_APPROVED)]"
| "TRANSITIONS PLAN_REJECTED = [(REVISE, PM_REVISION)]"
| "TRANSITIONS PM_REVISION = [(PROPOSE, PLAN_REVIEW)]"
| "TRANSITIONS PLAN_APPROVED = [(GENERATE, BACKEND_GENERATION)]"
| "TRANSITIONS BACKEND_GENERATION = [(DELIVER, ZIP_READY)]"
| "TRANSITIONS ZIP_READY = [(RESET, IDEA)]"
| "TRANSITIONS FAILED = [(RESET, IDEA)]"

text \<open>\<^verbatim>\<open>frozenset(TRANSITIONS) - {ZIP_READY, FAILED}\<close>: every state has a row in the table.\<close>

definition FAILABLE :: "run_state \<Rightarrow> bool" where
  "FAILABLE s \<longleftrightarrow> s \<noteq> ZIP_READY \<and> s \<noteq> FAILED"

end
