(* ===== verification/Gateway_Prelude.thy ===== *)
theory Gateway_Prelude
  imports Main
begin

text \<open>
  Shared ground of the development: the Python-level notions every component uses.

  \<^item> Text. A Python \<^verbatim>\<open>str\<close> is modelled by its UTF-8 bytes (\<^typ>\<open>string\<close>); \<open>py_len\<close> counts
    code points, \<open>strip\<close> removes Python's whitespace (the multi-byte characters included),
    \<open>lower\<close>/\<open>upper\<close> act on ASCII letters, which is what header names, asset codes and
    authentication schemes are made of.
  \<^item> Dictionaries. A Python \<^verbatim>\<open>dict\<close> keeps insertion order, and the run store and the run log rely
    on it, so a dictionary is an association list: \<open>dict_set\<close> replaces in place or appends,
    \<open>dict_pop\<close> removes.
  \<^item> Effects. An operation that may raise and that changes state has type \<open>('s, 'e, 'a) gw\<close>: it
    takes the state and returns either the exception or the value, and the state in both cases,
    because what was written before an exception stays written.
  \<^item> The collections \<open>dict_simps\<close>, \<open>gw_simps\<close> and \<open>keeps_intros\<close> carry the component proofs.
\<close>

named_theorems dict_simps "laws of insertion-ordered dictionaries"
named_theorems gw_simps "unfolding of the state-and-exception operations"
named_theorems keeps_intros "preservation of a state predicate by the operations"
named_theorems yields_intros "preservation of a state predicate, with what the results satisfy"

section \<open>Text\<close>

definition byte :: "char \<Rightarrow> nat" where
  "byte c = of_char c"

definition is_continuation :: "char \<Rightarrow> bool" where
  "is_continuation c \<longleftrightarrow> 128 \<le> byte c \<and> byte c < 192"

definition py_len :: "string \<Rightarrow> nat" where
  "py_len s = length (filter (\<lambda>c. \<not> is_continuation c) s)"

definition utf8_middle_dot :: string where
  "utf8_middle_dot = map char_of [194::nat, 183]"

definition lower_char :: "char \<Rightarrow> char" where
  "lower_char c = (if 65 \<le> byte c \<and> byte c \<le> 90 then char_of (byte c + 32) else c)"

definition upper_char :: "char \<Rightarrow> char" where
  "upper_char c = (if 97 \<le> byte c \<and> byte c \<le> 122 then char_of (byte c - 32) else c)"

definition lower :: "string \<Rightarrow> string" where
  "lower s = map lower_char s"

definition upper :: "string \<Rightarrow> string" where
  "upper s = map upper_char s"

text \<open>The characters \<^verbatim>\<open>str.isspace\<close> accepts, as UTF-8: six ASCII controls and the space, the four
  information separators, NEL and NBSP, and the wide spaces.\<close>

definition whitespace :: "string list" where
  "whitespace = map (map char_of)
     ([[9::nat], [10], [11], [12], [13], [28], [29], [30], [31], [32],
       [194, 133], [194, 160], [225, 154, 128], [226, 128, 168], [226, 128, 169],
       [226, 128, 175], [226, 129, 159], [227, 128, 128]]
      @ map (\<lambda>k. [226, 128, k]) [128..<139])"

fun drop_prefix :: "string list \<Rightarrow> string \<Rightarrow> string option" where
  "drop_prefix [] s = None"
| "drop_prefix (w # ws) s =
     (if w \<noteq> [] \<and> take (length w) s = w then Some (drop (length w) s) else drop_prefix ws s)"

lemma drop_prefix_shorter: "drop_prefix ws s = Some r \<Longrightarrow> length r < length s"
proof (induction ws)
  case Nil
  then show ?case by simp
next
  case (Cons w ws)
  show ?case
  proof (cases "w \<noteq> [] \<and> take (length w) s = w")
    case True
    then have "length w \<le> length s" by (metis length_take min.cobounded1)
    moreover from True have "0 < length w" by simp
    moreover from True Cons.prems have "length r = length s - length w" by auto
    ultimately show ?thesis by linarith
  next
    case False
    with Cons show ?thesis by (auto split: if_splits)
  qed
qed

function lstrip_by :: "string list \<Rightarrow> string \<Rightarrow> string" where
  "lstrip_by ws s = (case drop_prefix ws s of None \<Rightarrow> s | Some r \<Rightarrow> lstrip_by ws r)"
  by pat_completeness auto
termination
  by (relation "measure (\<lambda>(ws, s). length s)") (auto dest: drop_prefix_shorter)

declare lstrip_by.simps [simp del]

definition lstrip :: "string \<Rightarrow> string" where
  "lstrip s = lstrip_by whitespace s"

definition rstrip :: "string \<Rightarrow> string" where
  "rstrip s = rev (lstrip_by (map rev whitespace) (rev s))"

definition strip :: "string \<Rightarrow> string" where
  "strip s = rstrip (lstrip s)"

fun split_on :: "char \<Rightarrow> string \<Rightarrow> string list" where
  "split_on c [] = [[]]"
| "split_on c (x # xs) =
     (if x = c then [] # split_on c xs
      else (case split_on c xs of [] \<Rightarrow> [[x]] | y # ys \<Rightarrow> (x # y) # ys))"

fun join :: "string \<Rightarrow> string list \<Rightarrow> string" where
  "join sep [] = []"
| "join sep [x] = x"
| "join sep (x # y # ys) = x @ sep @ join sep (y # ys)"

text \<open>\<^verbatim>\<open>s.partition(c)\<close>: what precedes the first \<open>c\<close>, whether there is one, what follows it.\<close>

definition partition_at :: "char \<Rightarrow> string \<Rightarrow> string \<times> bool \<times> string" where
  "partition_at c s =
     (let rest = dropWhile (\<lambda>x. x \<noteq> c) s
      in (takeWhile (\<lambda>x. x \<noteq> c) s, rest \<noteq> [], drop 1 rest))"

definition starts_with :: "string \<Rightarrow> string \<Rightarrow> bool" where
  "starts_with p s \<longleftrightarrow> take (length p) s = p"

definition newline :: char where "newline = char_of (10::nat)"

text \<open>\<^verbatim>\<open>xs[-n:]\<close>, for a positive \<open>n\<close>.\<close>

definition keep_last :: "nat \<Rightarrow> 'a list \<Rightarrow> 'a list" where
  "keep_last n xs = drop (length xs - n) xs"

lemma split_on_nonempty: "split_on c s \<noteq> []"
  by (cases s) (auto split: list.splits)

lemma split_on_append:
  "split_on c (xs @ ys) = butlast (split_on c xs) @ split_on c (last (split_on c xs) @ ys)"
proof (induction xs)
  case Nil
  then show ?case by simp
next
  case (Cons x xs)
  obtain z zs where z: "split_on c xs = z # zs" using split_on_nonempty [of c xs] by (cases "split_on c xs") auto
  show ?case
  proof (cases "zs = []")
    case True
    with Cons z show ?thesis by (simp split: list.split)
  next
    case False
    with Cons z show ?thesis by (auto split: list.split)
  qed
qed

lemma join_split_on: "join [c] (split_on c s) = s"
proof (induction s)
  case Nil
  then show ?case by simp
next
  case (Cons x xs)
  obtain y ys where "split_on c xs = y # ys"
    using split_on_nonempty by (meson neq_Nil_conv)
  with Cons.IH show ?case by (cases ys) auto
qed

lemma drop_prefix_None:
  "(\<And>w. w \<in> set ws \<Longrightarrow> w \<noteq> [] \<Longrightarrow> hd w \<noteq> hd s) \<Longrightarrow> drop_prefix ws s = None"
proof (induction ws)
  case Nil
  then show ?case by simp
next
  case (Cons w ws)
  have "\<not> (w \<noteq> [] \<and> take (length w) s = w)"
  proof
    assume w: "w \<noteq> [] \<and> take (length w) s = w"
    then have "hd w = hd s" by (metis hd_take length_greater_0_conv)
    with w Cons.prems show False by simp
  qed
  moreover have "drop_prefix ws s = None" by (rule Cons.IH) (use Cons.prems in auto)
  ultimately show ?case by simp
qed

lemma whitespace_ends:
  assumes "w \<in> set whitespace"
  shows "w \<noteq> []" "byte (hd w) \<le> 32 \<or> 128 \<le> byte (hd w)" "byte (last w) \<le> 32 \<or> 128 \<le> byte (last w)"
  using assms unfolding whitespace_def by (auto simp: byte_def)

text \<open>A text that starts and ends with a visible ASCII character is its own \<open>strip\<close>.\<close>

lemma strip_visible:
  assumes "s \<noteq> []" "33 \<le> byte (hd s)" "byte (hd s) < 128" "33 \<le> byte (last s)" "byte (last s) < 128"
  shows "strip s = s"
proof -
  have "drop_prefix whitespace s = None"
    by (rule drop_prefix_None) (use whitespace_ends assms in fastforce)
  then have l: "lstrip s = s" by (simp add: lstrip_def lstrip_by.simps)
  have "drop_prefix (map rev whitespace) (rev s) = None"
    by (rule drop_prefix_None) (use whitespace_ends assms in \<open>fastforce simp: hd_rev\<close>)
  then have "rstrip s = s" by (simp add: rstrip_def lstrip_by.simps)
  with l show ?thesis by (simp add: strip_def)
qed

lemma byte_bound: "byte c < 256"
  by (simp add: byte_def)

lemma byte_char_of [simp]: "n < 256 \<Longrightarrow> byte (char_of n) = n"
  by (simp add: byte_def)

lemma char_of_byte [simp]: "char_of (byte c) = c"
  by (simp add: byte_def)

lemma lower_char_idem [simp]: "lower_char (lower_char c) = lower_char c"
  by (auto simp: lower_char_def)

lemma upper_char_idem [simp]: "upper_char (upper_char c) = upper_char c"
  by (auto simp: upper_char_def)

lemma lower_idem [simp]: "lower (lower s) = lower s"
  by (simp add: lower_def)

lemma upper_idem [simp]: "upper (upper s) = upper s"
  by (simp add: upper_def)

subsection \<open>Printing integers\<close>

definition digit_char :: "nat \<Rightarrow> char" where
  "digit_char d = char_of (48 + d)"

definition is_digit :: "char \<Rightarrow> bool" where
  "is_digit c \<longleftrightarrow> 48 \<le> byte c \<and> byte c \<le> 57"

definition digit_value :: "char \<Rightarrow> nat" where
  "digit_value c = byte c - 48"

fun show_nat :: "nat \<Rightarrow> string" where
  "show_nat n = (if n < 10 then [digit_char n] else show_nat (n div 10) @ [digit_char (n mod 10)])"

declare show_nat.simps [simp del]

definition show_int :: "int \<Rightarrow> string" where
  "show_int i = (if i < 0 then ''-'' @ show_nat (nat (- i)) else show_nat (nat i))"

fun nat_of_digits :: "nat \<Rightarrow> string \<Rightarrow> nat" where
  "nat_of_digits acc [] = acc"
| "nat_of_digits acc (c # cs) = nat_of_digits (10 * acc + digit_value c) cs"

text \<open>\<^verbatim>\<open>f"{n:0w}"\<close>: a fixed number of digits.\<close>

fun pad_digits :: "nat \<Rightarrow> nat \<Rightarrow> string" where
  "pad_digits 0 n = []"
| "pad_digits (Suc w) n = pad_digits w (n div 10) @ [digit_char (n mod 10)]"

text \<open>\<^verbatim>\<open>f"{n:,}"\<close>: groups of three.\<close>

fun group3 :: "string \<Rightarrow> string" where
  "group3 (a # b # c # d # s) = a # b # c # CHR '','' # group3 (d # s)"
| "group3 s = s"

definition show_commas :: "int \<Rightarrow> string" where
  "show_commas i =
     (if i < 0 then ''-'' else []) @ rev (group3 (rev (show_nat (nat \<bar>i\<bar>))))"

lemma digit_value_digit_char [simp]: "d < 10 \<Longrightarrow> digit_value (digit_char d) = d"
  by (simp add: digit_value_def digit_char_def)

lemma is_digit_digit_char [simp]: "d < 10 \<Longrightarrow> is_digit (digit_char d)"
  by (simp add: is_digit_def digit_char_def)

lemma nat_of_digits_append:
  "nat_of_digits acc (s @ t) = nat_of_digits (nat_of_digits acc s) t"
  by (induction s arbitrary: acc) auto

lemma pad_digits_numeral:
  "pad_digits (numeral k) n = pad_digits (pred_numeral k) (n div 10) @ [digit_char (n mod 10)]"
  by (simp only: numeral_eq_Suc pad_digits.simps)

lemma length_pad_digits [simp]: "length (pad_digits w n) = w"
  by (induction w arbitrary: n) auto

lemma pad_digits_are_digits: "list_all is_digit (pad_digits w n)"
  by (induction w arbitrary: n) auto

lemma nat_of_pad_digits: "nat_of_digits 0 (pad_digits w n) = n mod 10 ^ w"
proof (induction w arbitrary: n)
  case 0
  then show ?case by simp
next
  case (Suc w)
  have "nat_of_digits 0 (pad_digits (Suc w) n) = 10 * (n div 10 mod 10 ^ w) + n mod 10"
    by (simp add: nat_of_digits_append Suc.IH)
  also have "\<dots> = n mod 10 ^ Suc w"
    by (simp add: mod_mult2_eq)
  finally show ?case .
qed

lemma nat_of_show_nat: "nat_of_digits 0 (show_nat n) = n"
proof (induction n rule: show_nat.induct)
  case (1 n)
  then show ?case
    by (cases "n < 10") (simp_all add: show_nat.simps [of n] nat_of_digits_append)
qed

lemma show_nat_are_digits: "list_all is_digit (show_nat n)"
proof (induction n rule: show_nat.induct)
  case (1 n)
  then show ?case
    by (cases "n < 10") (simp_all add: show_nat.simps [of n])
qed

lemma show_nat_nonempty: "show_nat n \<noteq> []"
  by (subst show_nat.simps) simp

lemma show_nat_inj: "show_nat m = show_nat n \<Longrightarrow> m = n"
  by (metis nat_of_show_nat)

section \<open>Insertion-ordered dictionaries\<close>

type_synonym ('k, 'v) dict = "('k \<times> 'v) list"

fun dict_set :: "'k \<Rightarrow> 'v \<Rightarrow> ('k, 'v) dict \<Rightarrow> ('k, 'v) dict" where
  "dict_set k v [] = [(k, v)]"
| "dict_set k v ((k', v') # d) =
     (if k = k' then (k, v) # d else (k', v') # dict_set k v d)"

definition dict_pop :: "'k \<Rightarrow> ('k, 'v) dict \<Rightarrow> ('k, 'v) dict" where
  "dict_pop k d = filter (\<lambda>p. fst p \<noteq> k) d"

definition dict_keys :: "('k, 'v) dict \<Rightarrow> 'k list" where
  "dict_keys d = map fst d"

definition dict_ok :: "('k, 'v) dict \<Rightarrow> bool" where
  "dict_ok d \<longleftrightarrow> distinct (dict_keys d)"

lemma map_of_dict_set [dict_simps]: "map_of (dict_set k v d) = (map_of d)(k \<mapsto> v)"
  by (induction k v d rule: dict_set.induct) auto

lemma map_of_dict_pop [dict_simps]: "map_of (dict_pop k d) = (map_of d)(k := None)"
  by (induction d) (auto simp: dict_pop_def fun_eq_iff)

lemma set_keys_dict_set [dict_simps]:
  "set (dict_keys (dict_set k v d)) = insert k (set (dict_keys d))"
  by (induction k v d rule: dict_set.induct) (auto simp: dict_keys_def)

lemma set_keys_dict_pop [dict_simps]:
  "set (dict_keys (dict_pop k d)) = set (dict_keys d) - {k}"
  by (auto simp: dict_keys_def dict_pop_def)

lemma dict_set_fresh [dict_simps]:
  "k \<notin> set (dict_keys d) \<Longrightarrow> dict_set k v d = d @ [(k, v)]"
  by (induction k v d rule: dict_set.induct) (auto simp: dict_keys_def)

lemma keys_dict_set_present [dict_simps]:
  "k \<in> set (dict_keys d) \<Longrightarrow> dict_keys (dict_set k v d) = dict_keys d"
  by (induction k v d rule: dict_set.induct) (auto simp: dict_keys_def)

lemma keys_dict_pop [dict_simps]: "dict_keys (dict_pop k d) = filter (\<lambda>x. x \<noteq> k) (dict_keys d)"
  by (induction d) (auto simp: dict_keys_def dict_pop_def)

lemma dict_ok_empty [simp]: "dict_ok []"
  by (simp add: dict_ok_def dict_keys_def)

lemma dict_ok_set [simp, intro]: "dict_ok d \<Longrightarrow> dict_ok (dict_set k v d)"
proof (cases "k \<in> set (dict_keys d)")
  case True
  then show "dict_ok d \<Longrightarrow> dict_ok (dict_set k v d)" by (simp add: dict_ok_def dict_simps)
next
  case False
  then show "dict_ok d \<Longrightarrow> dict_ok (dict_set k v d)"
    by (simp add: dict_ok_def dict_simps) (simp add: dict_keys_def)
qed

lemma dict_ok_pop [simp, intro]: "dict_ok d \<Longrightarrow> dict_ok (dict_pop k d)"
  by (simp add: dict_ok_def dict_simps)

lemma dict_get_in: "map_of d k = Some v \<Longrightarrow> k \<in> set (dict_keys d)"
  by (auto simp: dict_keys_def dest!: map_of_SomeD intro: image_eqI [rotated])

lemma length_dict_pop: "k \<in> set (dict_keys d) \<Longrightarrow> length (dict_pop k d) < length d"
  by (auto simp: dict_keys_def dict_pop_def intro!: length_filter_less)

section \<open>State and exceptions\<close>

type_synonym ('s, 'e, 'a) gw = "'s \<Rightarrow> ('e + 'a) \<times> 's"

definition return_gw :: "'a \<Rightarrow> ('s, 'e, 'a) gw" where
  [gw_simps]: "return_gw x = (\<lambda>s. (Inr x, s))"

definition raise_gw :: "'e \<Rightarrow> ('s, 'e, 'a) gw" where
  [gw_simps]: "raise_gw e = (\<lambda>s. (Inl e, s))"

definition bind_gw :: "('s, 'e, 'a) gw \<Rightarrow> ('a \<Rightarrow> ('s, 'e, 'b) gw) \<Rightarrow> ('s, 'e, 'b) gw" where
  [gw_simps]: "bind_gw m f = (\<lambda>s. case m s of (Inl e, s') \<Rightarrow> (Inl e, s') | (Inr x, s') \<Rightarrow> f x s')"

text \<open>\<^verbatim>\<open>try: m except: h\<close>, the handler choosing what it catches by re-raising the rest.\<close>

definition catch_gw :: "('s, 'e, 'a) gw \<Rightarrow> ('e \<Rightarrow> ('s, 'e, 'a) gw) \<Rightarrow> ('s, 'e, 'a) gw" where
  [gw_simps]: "catch_gw m h = (\<lambda>s. case m s of (Inl e, s') \<Rightarrow> h e s' | (Inr x, s') \<Rightarrow> (Inr x, s'))"

text \<open>\<^verbatim>\<open>try: m finally: f\<close>\<close>

definition finally_gw :: "('s, 'e, 'a) gw \<Rightarrow> ('s, 'e, unit) gw \<Rightarrow> ('s, 'e, 'a) gw" where
  "finally_gw m f = (\<lambda>s. case m s of (r, s1) \<Rightarrow> (case f s1 of (Inl e, s2) \<Rightarrow> (Inl e, s2) | (Inr _, s2) \<Rightarrow> (r, s2)))"

text \<open>An operation on a part of the state.\<close>

definition zoom :: "('t \<Rightarrow> 's) \<Rightarrow> ('s \<Rightarrow> 't \<Rightarrow> 't) \<Rightarrow> ('s, 'e, 'a) gw \<Rightarrow> ('t, 'e, 'a) gw" where
  "zoom get_part set_part m = (\<lambda>t. case m (get_part t) of (r, s) \<Rightarrow> (r, set_part s t))"

definition gets_gw :: "('s \<Rightarrow> 'a) \<Rightarrow> ('s, 'e, 'a) gw" where
  [gw_simps]: "gets_gw f = (\<lambda>s. (Inr (f s), s))"

definition modify_gw :: "('s \<Rightarrow> 's) \<Rightarrow> ('s, 'e, unit) gw" where
  [gw_simps]: "modify_gw f = (\<lambda>s. (Inr (), f s))"

definition lift_gw :: "'e + 'a \<Rightarrow> ('s, 'e, 'a) gw" where
  [gw_simps]: "lift_gw r = (\<lambda>s. (r, s))"

definition then_gw :: "('s, 'e, 'a) gw \<Rightarrow> ('s, 'e, 'b) gw \<Rightarrow> ('s, 'e, 'b) gw" where
  [gw_simps]: "then_gw m k = bind_gw m (\<lambda>_. k)"

text \<open>\<open>keeps P m\<close>: the operation leaves \<open>P\<close> true however it ends.\<close>

definition keeps :: "('s \<Rightarrow> bool) \<Rightarrow> ('s, 'e, 'a) gw \<Rightarrow> bool" where
  "keeps P m \<longleftrightarrow> (\<forall>s. P s \<longrightarrow> P (snd (m s)))"

lemma keepsI: "(\<And>s. P s \<Longrightarrow> P (snd (m s))) \<Longrightarrow> keeps P m"
  by (simp add: keeps_def)

lemma keepsD: "keeps P m \<Longrightarrow> P s \<Longrightarrow> P (snd (m s))"
  by (simp add: keeps_def)

lemma keeps_return [keeps_intros]: "keeps P (return_gw x)"
  by (simp add: keeps_def return_gw_def)

lemma keeps_raise [keeps_intros]: "keeps P (raise_gw e)"
  by (simp add: keeps_def raise_gw_def)

lemma keeps_gets [keeps_intros]: "keeps P (gets_gw f)"
  by (simp add: keeps_def gets_gw_def)

lemma keeps_lift [keeps_intros]: "keeps P (lift_gw r)"
  by (simp add: keeps_def lift_gw_def)

lemma keeps_modify: "(\<And>s. P s \<Longrightarrow> P (f s)) \<Longrightarrow> keeps P (modify_gw f)"
  by (simp add: keeps_def modify_gw_def)

lemma keeps_bind [keeps_intros]:
  "keeps P m \<Longrightarrow> (\<And>x. keeps P (f x)) \<Longrightarrow> keeps P (bind_gw m f)"
  unfolding keeps_def bind_gw_def by (force split: prod.splits sum.splits)

lemma keeps_then [keeps_intros]: "keeps P m \<Longrightarrow> keeps P k \<Longrightarrow> keeps P (then_gw m k)"
  unfolding then_gw_def by (rule keeps_bind)

lemma keeps_catch [keeps_intros]:
  "keeps P m \<Longrightarrow> (\<And>e. keeps P (h e)) \<Longrightarrow> keeps P (catch_gw m h)"
  unfolding keeps_def catch_gw_def by (force split: prod.splits sum.splits)

lemma keeps_if [keeps_intros]:
  "(c \<Longrightarrow> keeps P a) \<Longrightarrow> (\<not> c \<Longrightarrow> keeps P b) \<Longrightarrow> keeps P (if c then a else b)"
  by simp

lemma keeps_option [keeps_intros]:
  "(z = None \<Longrightarrow> keeps P a) \<Longrightarrow> (\<And>x. z = Some x \<Longrightarrow> keeps P (b x)) \<Longrightarrow> keeps P (case z of None \<Rightarrow> a | Some x \<Rightarrow> b x)"
  by (cases z) auto

lemma keeps_sum [keeps_intros]:
  "(\<And>x. z = Inl x \<Longrightarrow> keeps P (a x)) \<Longrightarrow> (\<And>x. z = Inr x \<Longrightarrow> keeps P (b x)) \<Longrightarrow>
   keeps P (case z of Inl x \<Rightarrow> a x | Inr x \<Rightarrow> b x)"
  by (cases z) auto

lemma bind_gw_Inr:
  "m s = (Inr x, s') \<Longrightarrow> bind_gw m f s = f x s'"
  by (simp add: bind_gw_def)

lemma bind_gw_Inl:
  "m s = (Inl e, s') \<Longrightarrow> bind_gw m f s = (Inl e, s')"
  by (simp add: bind_gw_def)

lemma bind_return: "bind_gw (return_gw x) f = f x"
  by (simp add: bind_gw_def return_gw_def)

lemma bind_lift: "bind_gw (lift_gw (Inr x)) f = f x" "bind_gw (lift_gw (Inl e)) f = raise_gw e"
  by (simp_all add: bind_gw_def lift_gw_def raise_gw_def fun_eq_iff)

text \<open>\<open>yields P m Q\<close>: the operation keeps \<open>P\<close> however it ends, and what it returns satisfies \<open>Q\<close>.\<close>

definition yields :: "('s \<Rightarrow> bool) \<Rightarrow> ('s, 'e, 'a) gw \<Rightarrow> ('a \<Rightarrow> bool) \<Rightarrow> bool" where
  "yields P m Q \<longleftrightarrow> (\<forall>s. P s \<longrightarrow> P (snd (m s)) \<and> (\<forall>x. fst (m s) = Inr x \<longrightarrow> Q x))"

lemma yields_keeps: "yields P m Q \<Longrightarrow> keeps P m"
  by (simp add: yields_def keeps_def)

lemma keeps_yields: "keeps P m \<Longrightarrow> yields P m (\<lambda>_. True)"
  by (simp add: yields_def keeps_def)

lemma yields_weaken: "yields P m Q \<Longrightarrow> (\<And>x. Q x \<Longrightarrow> R x) \<Longrightarrow> yields P m R"
  by (simp add: yields_def)

lemma yields_return [yields_intros]: "Q x \<Longrightarrow> yields P (return_gw x) Q"
  by (simp add: yields_def return_gw_def)

lemma yields_raise [yields_intros]: "yields P (raise_gw e) Q"
  by (simp add: yields_def raise_gw_def)

lemma yields_lift [yields_intros]: "(\<And>x. r = Inr x \<Longrightarrow> Q x) \<Longrightarrow> yields P (lift_gw r) Q"
  by (simp add: yields_def lift_gw_def)

lemma yields_bind:
  assumes "yields P m Q" "\<And>x. Q x \<Longrightarrow> yields P (f x) R"
  shows "yields P (bind_gw m f) R"
  unfolding yields_def
proof (intro allI impI)
  fix s assume "P s"
  obtain r s' where ms: "m s = (r, s')" by fastforce
  with assms(1) \<open>P s\<close> have "P s'" "\<And>x. r = Inr x \<Longrightarrow> Q x" by (auto simp: yields_def)
  with assms(2) ms show "P (snd (bind_gw m f s)) \<and> (\<forall>x. fst (bind_gw m f s) = Inr x \<longrightarrow> R x)"
    by (cases r) (auto simp: bind_gw_def yields_def)
qed

lemma yields_then: "keeps P m \<Longrightarrow> yields P k Q \<Longrightarrow> yields P (then_gw m k) Q"
  unfolding then_gw_def by (rule yields_bind [OF keeps_yields])

lemma yields_if [yields_intros]:
  "(c \<Longrightarrow> yields P a Q) \<Longrightarrow> (\<not> c \<Longrightarrow> yields P b Q) \<Longrightarrow> yields P (if c then a else b) Q"
  by simp

lemma yields_option [yields_intros]:
  "(z = None \<Longrightarrow> yields P a Q) \<Longrightarrow> (\<And>x. z = Some x \<Longrightarrow> yields P (b x) Q) \<Longrightarrow>
   yields P (case z of None \<Rightarrow> a | Some x \<Rightarrow> b x) Q"
  by (cases z) auto

lemma yields_sum [yields_intros]:
  "(\<And>x. z = Inl x \<Longrightarrow> yields P (a x) Q) \<Longrightarrow> (\<And>x. z = Inr x \<Longrightarrow> yields P (b x) Q) \<Longrightarrow>
   yields P (case z of Inl x \<Rightarrow> a x | Inr x \<Rightarrow> b x) Q"
  by (cases z) auto

end
