(* ===== verification/Json_Values.thy ===== *)
theory Json_Values
  imports Gateway_Prelude
begin

text \<open>
  The values \<^verbatim>\<open>json.loads\<close> produces, and what the gateway's code does with values it does not
  control: truthiness (\<^verbatim>\<open>x or ""\<close>), \<^verbatim>\<open>str(x)\<close>, \<^verbatim>\<open>int(x)\<close>, \<^verbatim>\<open>isinstance(x, Mapping)\<close> and
  \<^verbatim>\<open>d.get(key)\<close>.

  A float is represented by the three things the code can observe of it: its \<^verbatim>\<open>repr\<close>, the integer
  \<^verbatim>\<open>int(x)\<close> truncates it to, and whether it is zero. Theorems quantify over all such triples, so they
  hold for the triples real floats give. \<^verbatim>\<open>json.loads\<close> also reads \<^verbatim>\<open>Infinity\<close>, \<^verbatim>\<open>NaN\<close> and
  overflowing literals such as \<^verbatim>\<open>1e999\<close>, so the non-finite values are values here too.
\<close>

datatype pyfloat = Finite string int bool | PosInf | NegInf | NotANumber

datatype json =
    JNull
  | JBool bool
  | JInt int
  | JFloat pyfloat
  | JStr string
  | JList "json list"
  | JObj "(string \<times> json) list"

text \<open>\<^verbatim>\<open>d.get(key)\<close> on a mapping; a missing key reads as \<^verbatim>\<open>None\<close>.\<close>

fun obj_get :: "string \<Rightarrow> json \<Rightarrow> json" where
  "obj_get k (JObj kvs) = (case map_of kvs k of None \<Rightarrow> JNull | Some v \<Rightarrow> v)"
| "obj_get k _ = JNull"

fun is_mapping :: "json \<Rightarrow> bool" where
  "is_mapping (JObj _) = True"
| "is_mapping _ = False"

fun truthy :: "json \<Rightarrow> bool" where
  "truthy JNull = False"
| "truthy (JBool b) = b"
| "truthy (JInt i) = (i \<noteq> 0)"
| "truthy (JFloat (Finite _ _ zero)) = (\<not> zero)"
| "truthy (JFloat _) = True"
| "truthy (JStr s) = (s \<noteq> [])"
| "truthy (JList xs) = (xs \<noteq> [])"
| "truthy (JObj kvs) = (kvs \<noteq> [])"

fun float_repr :: "pyfloat \<Rightarrow> string" where
  "float_repr (Finite r _ _) = r"
| "float_repr PosInf = ''inf''"
| "float_repr NegInf = ''-inf''"
| "float_repr NotANumber = ''nan''"

text \<open>\<^verbatim>\<open>repr\<close> of a string: single quotes unless it holds a single quote and no double quote; the
  quote, the backslash and the control characters are escaped. Printable text is left alone.\<close>

definition hex_digit :: "nat \<Rightarrow> char" where
  "hex_digit d = (if d < 10 then char_of (48 + d) else char_of (87 + d))"

definition repr_char :: "char \<Rightarrow> char \<Rightarrow> string" where
  "repr_char q c =
     (if c = q \<or> byte c = 92 then [char_of (92::nat), c]
      else if byte c = 9 then [char_of (92::nat), CHR ''t'']
      else if byte c = 10 then [char_of (92::nat), CHR ''n'']
      else if byte c = 13 then [char_of (92::nat), CHR ''r'']
      else if byte c < 32 \<or> byte c = 127
        then [char_of (92::nat), CHR ''x'', hex_digit (byte c div 16), hex_digit (byte c mod 16)]
      else [c])"

definition repr_str :: "string \<Rightarrow> string" where
  "repr_str s =
     (let single = char_of (39::nat); double = char_of (34::nat);
          q = (if single \<in> set s \<and> double \<notin> set s then double else single)
      in q # concat (map (repr_char q) s) @ [q])"

fun py_repr :: "json \<Rightarrow> string" where
  "py_repr JNull = ''None''"
| "py_repr (JBool b) = (if b then ''True'' else ''False'')"
| "py_repr (JInt i) = show_int i"
| "py_repr (JFloat f) = float_repr f"
| "py_repr (JStr s) = repr_str s"
| "py_repr (JList xs) = ''['' @ join '', '' (map py_repr xs) @ '']''"
| "py_repr (JObj kvs) =
     ''{'' @ join '', '' (map (\<lambda>kv. repr_str (fst kv) @ '': '' @ py_repr (snd kv)) kvs) @ ''}''"

text \<open>\<^verbatim>\<open>str(x)\<close>: as \<^verbatim>\<open>repr\<close>, except that a string is itself.\<close>

fun py_str :: "json \<Rightarrow> string" where
  "py_str (JStr s) = s"
| "py_str v = py_repr v"

text \<open>\<^verbatim>\<open>str(x or "")\<close>.\<close>

definition str_or_empty :: "json \<Rightarrow> string" where
  "str_or_empty v = (if truthy v then py_str v else [])"

text \<open>The exceptions \<^verbatim>\<open>int(x)\<close> can raise.\<close>

datatype int_error = IntTypeError | IntValueError | IntOverflowError

text \<open>\<^verbatim>\<open>int(text)\<close>: surrounding whitespace, an optional sign, decimal digits with single underscores
  between them, and at most 4300 digits.\<close>

fun digit_groups :: "bool \<Rightarrow> string \<Rightarrow> string option" where
  "digit_groups prev [] = (if prev then Some [] else None)"
| "digit_groups prev (c # cs) =
     (if is_digit c then map_option ((#) c) (digit_groups True cs)
      else if c = CHR ''_'' \<and> prev then digit_groups False cs
      else None)"

definition int_of_text :: "string \<Rightarrow> int option" where
  "int_of_text s =
     (let t = strip s;
          neg = (t \<noteq> [] \<and> hd t = CHR ''-'');
          body = (if t \<noteq> [] \<and> (hd t = CHR ''-'' \<or> hd t = CHR ''+'') then tl t else t)
      in case digit_groups False body of
           None \<Rightarrow> None
         | Some ds \<Rightarrow>
             if 4300 < length ds then None
             else Some ((if neg then -1 else 1) * int (nat_of_digits 0 ds)))"

fun py_int :: "json \<Rightarrow> int_error + int" where
  "py_int (JBool b) = Inr (if b then 1 else 0)"
| "py_int (JInt i) = Inr i"
| "py_int (JFloat (Finite _ i _)) = Inr i"
| "py_int (JFloat PosInf) = Inl IntOverflowError"
| "py_int (JFloat NegInf) = Inl IntOverflowError"
| "py_int (JFloat NotANumber) = Inl IntValueError"
| "py_int (JStr s) = (case int_of_text s of None \<Rightarrow> Inl IntValueError | Some i \<Rightarrow> Inr i)"
| "py_int _ = Inl IntTypeError"

text \<open>\<^verbatim>\<open>_list\<close> and \<^verbatim>\<open>_items\<close> of the orchestrator: a list, or nothing; its mappings only.\<close>

fun list_of :: "json \<Rightarrow> json list" where
  "list_of (JList xs) = xs"
| "list_of _ = []"

definition items_of :: "json \<Rightarrow> json list" where
  "items_of v = filter is_mapping (list_of v)"

lemma obj_get_not_mapping: "\<not> is_mapping v \<Longrightarrow> obj_get k v = JNull"
  by (cases v) auto

lemma items_are_mappings: "q \<in> set (items_of v) \<Longrightarrow> is_mapping q"
  by (simp add: items_of_def)

lemma py_int_overflow_iff: "py_int v = Inl IntOverflowError \<longleftrightarrow> v \<in> {JFloat PosInf, JFloat NegInf}"
  by (cases v rule: py_int.cases) (auto split: option.splits)

end
