(* ===== verification/Exceptions.thy ===== *)
theory Exceptions
  imports Run_States Json_Values
begin

text \<open>
  The exceptions the gateway raises (\<^verbatim>\<open>domain/exceptions.py\<close> and the classes other modules derive
  from \<^verbatim>\<open>GatewayError\<close>), with the fields the code puts on them, and the exceptions of Python's
  library that cross the modelled code. The predicates are the \<^verbatim>\<open>except\<close> clauses: an exception
  satisfies \<open>is_billing_error\<close> exactly when \<^verbatim>\<open>except BillingError\<close> would catch it. \<^verbatim>\<open>PaymentRequiredError\<close>
  carries its 402 document as the JSON it is rendered to.
\<close>

datatype exn =
    ServiceNotFoundError string
  | InstanceNotFoundError string string
  | DuplicateServiceError string
  | UpstreamError string string bool
  | UpstreamTimeoutError string bool
  | UpstreamConnectionError string bool
  | OrchestrationError string string
  | CircuitOpenError string
  | RunNotFoundError string
  | ConsoleDisabledError
  | NoProjectError string
  | ProjectGoneError
  | IllegalTransitionError run_state run_event
  | BillingError string
  | InsufficientFundsError int int
  | UnknownProductError string
  | InvoiceNotFoundError string
  | SubscriptionContractError string
  | X402Error string
  | PaymentRequiredError json
  | IdentityError string
  | UnverifiableError string
  | PaymentNetworkError string
  | IntegrityError
  | ValueError string
  | TypeError
  | OverflowError
  | DecimalSignal string
  | RuntimeError string
  | CancelledError
  | GeneratorExit
  | OtherException string

text \<open>\<^verbatim>\<open>except UpstreamError\<close>: \<^verbatim>\<open>OrchestrationError\<close> derives from it as well.\<close>

fun is_upstream_error :: "exn \<Rightarrow> bool" where
  "is_upstream_error (UpstreamError _ _ _) = True"
| "is_upstream_error (UpstreamTimeoutError _ _) = True"
| "is_upstream_error (UpstreamConnectionError _ _) = True"
| "is_upstream_error (OrchestrationError _ _) = True"
| "is_upstream_error _ = False"

fun is_billing_error :: "exn \<Rightarrow> bool" where
  "is_billing_error (BillingError _) = True"
| "is_billing_error (InsufficientFundsError _ _) = True"
| "is_billing_error (UnknownProductError _) = True"
| "is_billing_error (InvoiceNotFoundError _) = True"
| "is_billing_error (SubscriptionContractError _) = True"
| "is_billing_error _ = False"

fun is_identity_error :: "exn \<Rightarrow> bool" where
  "is_identity_error (IdentityError _) = True"
| "is_identity_error (UnverifiableError _) = True"
| "is_identity_error _ = False"

text \<open>\<^verbatim>\<open>except GatewayError\<close>. \<^verbatim>\<open>PaymentNetworkError\<close> derives from bare \<^verbatim>\<open>Exception\<close>.\<close>

fun is_gateway_error :: "exn \<Rightarrow> bool" where
  "is_gateway_error (ServiceNotFoundError _) = True"
| "is_gateway_error (InstanceNotFoundError _ _) = True"
| "is_gateway_error (DuplicateServiceError _) = True"
| "is_gateway_error (CircuitOpenError _) = True"
| "is_gateway_error (RunNotFoundError _) = True"
| "is_gateway_error ConsoleDisabledError = True"
| "is_gateway_error (NoProjectError _) = True"
| "is_gateway_error ProjectGoneError = True"
| "is_gateway_error (IllegalTransitionError _ _) = True"
| "is_gateway_error (X402Error _) = True"
| "is_gateway_error (PaymentRequiredError _) = True"
| "is_gateway_error e = (is_upstream_error e \<or> is_billing_error e \<or> is_identity_error e)"

text \<open>\<^verbatim>\<open>except Exception\<close>: everything but the two that derive from \<^verbatim>\<open>BaseException\<close> directly.\<close>

fun is_exception :: "exn \<Rightarrow> bool" where
  "is_exception CancelledError = False"
| "is_exception GeneratorExit = False"
| "is_exception _ = True"

text \<open>The \<^verbatim>\<open>request_sent\<close> field of an \<^verbatim>\<open>UpstreamError\<close>; an \<^verbatim>\<open>OrchestrationError\<close> keeps the default.\<close>

fun request_sent :: "exn \<Rightarrow> bool" where
  "request_sent (UpstreamError _ _ b) = b"
| "request_sent (UpstreamTimeoutError _ b) = b"
| "request_sent (UpstreamConnectionError _ b) = b"
| "request_sent _ = True"

lemma upstream_error_is_gateway_error: "is_upstream_error e \<Longrightarrow> is_gateway_error e"
  by (cases e) auto

lemma billing_error_is_gateway_error: "is_billing_error e \<Longrightarrow> is_gateway_error e"
  by (cases e) auto

lemma gateway_error_is_exception: "is_gateway_error e \<Longrightarrow> is_exception e"
  by (cases e) auto

section \<open>Messages\<close>

definition quoted :: "string \<Rightarrow> string" where
  "quoted s = [char_of (39::nat)] @ s @ [char_of (39::nat)]"

fun run_state_value :: "run_state \<Rightarrow> string" where
  "run_state_value IDEA = ''IDEA''"
| "run_state_value PM_ANALYSIS = ''PM_ANALYSIS''"
| "run_state_value QUESTIONNAIRE = ''QUESTIONNAIRE''"
| "run_state_value PLAN_REVIEW = ''PLAN_REVIEW''"
| "run_state_value PLAN_REJECTED = ''PLAN_REJECTED''"
| "run_state_value PM_REVISION = ''PM_REVISION''"
| "run_state_value PLAN_APPROVED = ''PLAN_APPROVED''"
| "run_state_value BACKEND_GENERATION = ''BACKEND_GENERATION''"
| "run_state_value ZIP_READY = ''ZIP_READY''"
| "run_state_value FAILED = ''FAILED''"

fun run_event_value :: "run_event \<Rightarrow> string" where
  "run_event_value DESCRIBE = ''DESCRIBE''"
| "run_event_value ASK = ''ASK''"
| "run_event_value PROPOSE = ''PROPOSE''"
| "run_event_value REJECT = ''REJECT''"
| "run_event_value REVISE = ''REVISE''"
| "run_event_value APPROVE = ''APPROVE''"
| "run_event_value GENERATE = ''GENERATE''"
| "run_event_value DELIVER = ''DELIVER''"
| "run_event_value FAIL = ''FAIL''"
| "run_event_value RESET = ''RESET''"

text \<open>\<^verbatim>\<open>str(exc)\<close>. For the exceptions of the library it is the text they carry here, or nothing.\<close>

fun str_exn :: "exn \<Rightarrow> string" where
  "str_exn (ServiceNotFoundError n) = ''Service '' @ quoted n @ '' is not registered''"
| "str_exn (InstanceNotFoundError n i) = ''Service '' @ quoted n @ '' has no instance '' @ quoted i"
| "str_exn (DuplicateServiceError n) = ''Service '' @ quoted n @ '' is registered more than once''"
| "str_exn (UpstreamError n m _) = m"
| "str_exn (UpstreamTimeoutError n _) = ''Service '' @ quoted n @ '' did not respond in time''"
| "str_exn (UpstreamConnectionError n _) = ''Service '' @ quoted n @ '' is unreachable''"
| "str_exn (OrchestrationError n m) = m"
| "str_exn (CircuitOpenError n) = ''Service '' @ quoted n @ '' is temporarily unavailable''"
| "str_exn (RunNotFoundError _) = ''That run does not exist, or it expired''"
| "str_exn ConsoleDisabledError = ''The console is switched off on this gateway (GATEWAY_ORCHESTRATION__CONSOLE)''"
| "str_exn (NoProjectError _) = ''This run has no generated project yet''"
| "str_exn ProjectGoneError = ''The agent no longer has this project (it keeps them for an hour)''"
| "str_exn (IllegalTransitionError st ev) = run_event_value ev @ '' is not allowed from '' @ run_state_value st"
| "str_exn (BillingError m) = m"
| "str_exn (InsufficientFundsError needed available) =
     ''This account has '' @ show_commas available @ '' tokens and needs '' @ show_commas needed @ '' for that run''"
| "str_exn (UnknownProductError sku) = ''There is no plan or token pack called '' @ repr_str sku"
| "str_exn (InvoiceNotFoundError _) = ''That invoice does not exist, or it expired''"
| "str_exn (SubscriptionContractError m) = m"
| "str_exn (X402Error m) = m"
| "str_exn (PaymentRequiredError doc) = py_str (obj_get ''error'' doc)"
| "str_exn (IdentityError m) = m"
| "str_exn (UnverifiableError m) = m"
| "str_exn (PaymentNetworkError m) = m"
| "str_exn (ValueError m) = m"
| "str_exn (DecimalSignal m) = m"
| "str_exn (RuntimeError m) = m"
| "str_exn (OtherException m) = m"
| "str_exn _ = []"

end
