(* ===== verification/Decimals.thy ===== *)
theory Decimals
  imports Exceptions Gateway_Prelude
begin

text \<open>
  \<^verbatim>\<open>decimal.Decimal\<close> under the default context, as far as the gateway uses it: construction from
  text, multiplication, \<^verbatim>\<open>quantize\<close> and comparison.

  A finite decimal is a coefficient and an exponent (\<open>Fin c e\<close> is \<open>c * 10 ^ e\<close>; a negative zero is
  not distinguished from zero). The default context keeps 28 significant digits, rounds half to even,
  allows adjusted exponents up to 999999, and raises \<^verbatim>\<open>InvalidOperation\<close> and \<^verbatim>\<open>Overflow\<close> as exceptions:
  \<open>DecimalSignal\<close> here. Construction from text is exact and has the wider limits of the library.
\<close>

datatype decimal = Fin int int | DInf bool | DNaN

datatype rounding = ROUND_HALF_EVEN | ROUND_HALF_UP | ROUND_UP

definition ndigits :: "nat \<Rightarrow> nat" where
  "ndigits n = length (show_nat n)"

definition drop_digits :: "rounding \<Rightarrow> nat \<Rightarrow> nat \<Rightarrow> nat" where
  "drop_digits mode k n =
     (let q = n div 10 ^ k; r = n mod 10 ^ k
      in q + (if (case mode of
                    ROUND_HALF_UP \<Rightarrow> 10 ^ k \<le> 2 * r
                  | ROUND_HALF_EVEN \<Rightarrow> 10 ^ k < 2 * r \<or> (10 ^ k = 2 * r \<and> odd q)
                  | ROUND_UP \<Rightarrow> 0 < r)
              then 1 else 0))"

definition PREC :: nat where "PREC = 28"
definition EMAX :: int where "EMAX = 999999"
definition ETINY :: int where "ETINY = - 1000026"

text \<open>Rounding an exact result into the context.\<close>

definition dec_finish :: "int \<Rightarrow> int \<Rightarrow> exn + decimal" where
  "dec_finish c e =
     (if c = 0 then Inr (Fin 0 e)
      else
        let k = nat (max (int (ndigits (nat \<bar>c\<bar>)) - int PREC) (ETINY - e));
            m = drop_digits ROUND_HALF_EVEN k (nat \<bar>c\<bar>);
            m' = (if m = 10 ^ PREC then 10 ^ (PREC - 1) else m);
            e' = e + int k + (if m = 10 ^ PREC then 1 else 0)
        in if EMAX < e' + int (ndigits m') - 1 then Inl (DecimalSignal ''Overflow'')
           else Inr (Fin (sgn c * int m') e'))"

fun dec_mul :: "decimal \<Rightarrow> decimal \<Rightarrow> exn + decimal" where
  "dec_mul (Fin a e) (Fin b f) = dec_finish (a * b) (e + f)"
| "dec_mul DNaN _ = Inr DNaN"
| "dec_mul _ DNaN = Inr DNaN"
| "dec_mul (DInf s) (DInf t) = Inr (DInf (s \<noteq> t))"
| "dec_mul (DInf s) (Fin b f) =
     (if b = 0 then Inl (DecimalSignal ''InvalidOperation'') else Inr (DInf (s \<noteq> (b < 0))))"
| "dec_mul (Fin a e) (DInf t) =
     (if a = 0 then Inl (DecimalSignal ''InvalidOperation'') else Inr (DInf ((a < 0) \<noteq> t)))"

text \<open>\<^verbatim>\<open>x.quantize(Decimal(10) ** q, rounding=mode)\<close> for a finite \<open>x\<close>.\<close>

definition dec_quantize :: "rounding \<Rightarrow> int \<Rightarrow> int \<Rightarrow> int \<Rightarrow> exn + int" where
  "dec_quantize mode q c e =
     (let m = (if q \<le> e then nat \<bar>c\<bar> * 10 ^ nat (e - q) else drop_digits mode (nat (q - e)) (nat \<bar>c\<bar>))
      in if c \<noteq> 0 \<and> PREC < ndigits m then Inl (DecimalSignal ''InvalidOperation'')
         else Inr (sgn c * int m))"

text \<open>\<^verbatim>\<open>a >= b\<close>: exact, and an exception when either is not a number.\<close>

definition fin_le :: "int \<Rightarrow> int \<Rightarrow> int \<Rightarrow> int \<Rightarrow> bool" where
  "fin_le a e b f = (a * 10 ^ nat (e - min e f) \<le> b * 10 ^ nat (f - min e f))"

fun dec_ge :: "decimal \<Rightarrow> decimal \<Rightarrow> exn + bool" where
  "dec_ge DNaN _ = Inl (DecimalSignal ''InvalidOperation'')"
| "dec_ge _ DNaN = Inl (DecimalSignal ''InvalidOperation'')"
| "dec_ge (Fin a e) (Fin b f) = Inr (fin_le b f a e)"
| "dec_ge (DInf s) (DInf t) = Inr (\<not> s \<or> t)"
| "dec_ge (DInf s) (Fin _ _) = Inr (\<not> s)"
| "dec_ge (Fin _ _) (DInf t) = Inr t"

fun is_finite :: "decimal \<Rightarrow> bool" where
  "is_finite (Fin _ _) = True"
| "is_finite _ = False"

section \<open>Construction from text\<close>

definition dec_representable :: "nat \<Rightarrow> int \<Rightarrow> bool" where
  "dec_representable m e \<longleftrightarrow>
     - 1999999999999999997 \<le> e \<and> e + int (ndigits m) - 1 \<le> 999999999999999999"

fun split_sign :: "string \<Rightarrow> bool \<times> string" where
  "split_sign (c # s) =
     (if c = CHR ''-'' then (True, s) else if c = CHR ''+'' then (False, s) else (False, c # s))"
| "split_sign [] = (False, [])"

definition read_exponent :: "string \<Rightarrow> int option" where
  "read_exponent s =
     (if s = [] then Some 0
      else if lower_char (hd s) = CHR ''e''
        then (case split_sign (tl s) of (neg, ds) \<Rightarrow>
                if ds \<noteq> [] \<and> list_all is_digit ds
                then Some ((if neg then -1 else 1) * int (nat_of_digits 0 ds)) else None)
      else None)"

definition dec_of_number :: "bool \<Rightarrow> string \<Rightarrow> decimal option" where
  "dec_of_number neg s =
     (let ip = takeWhile is_digit s; r = dropWhile is_digit s;
          fp = (if r \<noteq> [] \<and> hd r = CHR ''.'' then takeWhile is_digit (tl r) else []);
          rest = (if r \<noteq> [] \<and> hd r = CHR ''.'' then dropWhile is_digit (tl r) else r)
      in if ip = [] \<and> fp = [] then None
         else case read_exponent rest of
                None \<Rightarrow> None
              | Some x \<Rightarrow>
                  (let m = nat_of_digits 0 (ip @ fp); e = x - int (length fp)
                   in if dec_representable m e then Some (Fin ((if neg then -1 else 1) * int m) e)
                      else None))"

text \<open>\<^verbatim>\<open>Decimal(text)\<close>; \<open>None\<close> is \<^verbatim>\<open>InvalidOperation\<close>.\<close>

definition decimal_of :: "string \<Rightarrow> decimal option" where
  "decimal_of text =
     (let t = filter (\<lambda>c. c \<noteq> CHR ''_'') (strip text); (neg, u) = split_sign t; l = lower u
      in if l = ''inf'' \<or> l = ''infinity'' then Some (DInf neg)
         else if starts_with ''nan'' l \<and> list_all is_digit (drop 3 l)
              \<or> starts_with ''snan'' l \<and> list_all is_digit (drop 4 l) then Some DNaN
         else dec_of_number neg u)"

section \<open>Facts\<close>

lemma ndigits_bounds: "n < 10 ^ ndigits n \<and> (n = 0 \<or> 10 ^ (ndigits n - 1) \<le> n)"
proof (induction n rule: show_nat.induct)
  case (1 n)
  show ?case
  proof (cases "n < 10")
    case True
    then show ?thesis by (auto simp: ndigits_def show_nat.simps [of n])
  next
    case False
    let ?q = "n div 10"
    from 1 [OF False] have IH: "?q < 10 ^ ndigits ?q" "?q = 0 \<or> 10 ^ (ndigits ?q - 1) \<le> ?q"
      by auto
    have nd: "ndigits n = Suc (ndigits ?q)"
      using False by (simp add: ndigits_def show_nat.simps [of n])
    have pos: "0 < ndigits ?q" by (simp add: ndigits_def show_nat_nonempty)
    have "n < 10 ^ ndigits n" using IH(1) by (simp add: nd)
    moreover have "10 ^ (ndigits n - 1) \<le> n"
    proof -
      have "10 ^ (ndigits n - 1) = 10 * 10 ^ (ndigits ?q - 1)"
        using pos by (simp add: nd flip: power_Suc)
      also have "\<dots> \<le> 10 * ?q" using IH(2) False by auto
      also have "\<dots> \<le> n" by simp
      finally show ?thesis .
    qed
    ultimately show ?thesis by simp
  qed
qed

lemma ndigits_le_iff: "0 < k \<Longrightarrow> ndigits n \<le> k \<longleftrightarrow> n < 10 ^ k"
proof
  assume "ndigits n \<le> k"
  then have "(10::nat) ^ ndigits n \<le> 10 ^ k" by (simp add: power_increasing)
  then show "n < 10 ^ k" using ndigits_bounds [of n] by linarith
next
  assume k: "0 < k" and "n < 10 ^ k"
  show "ndigits n \<le> k"
  proof (cases "n = 0")
    case True
    with k show ?thesis by (simp add: ndigits_def show_nat.simps [of 0])
  next
    case False
    with ndigits_bounds [of n] \<open>n < 10 ^ k\<close> have "(10::nat) ^ (ndigits n - 1) < 10 ^ k" by linarith
    then have "ndigits n - 1 < k" by (simp add: power_less_imp_less_exp)
    then show ?thesis by linarith
  qed
qed

lemma drop_digits_0 [simp]: "drop_digits mode 0 n = n"
  by (cases mode) (simp_all add: drop_digits_def)

lemma drop_digits_exact [simp]: "drop_digits mode k (n * 10 ^ k) = n"
  by (cases mode) (simp_all add: drop_digits_def)

lemma nat_of_digits_shift: "nat_of_digits acc s = acc * 10 ^ length s + nat_of_digits 0 s"
proof (induction s arbitrary: acc)
  case Nil
  then show ?case by simp
next
  case (Cons c s)
  show ?case using Cons.IH [of "10 * acc + digit_value c"] Cons.IH [of "digit_value c"]
    by (simp add: algebra_simps)
qed

lemma nat_of_digits_zeros: "nat_of_digits acc (replicate j (CHR ''0'')) = acc * 10 ^ j"
  by (induction j arbitrary: acc) (simp_all add: digit_value_def byte_def)

lemma lower_char_digit [simp]: "is_digit c \<Longrightarrow> lower_char c = c"
  by (simp add: lower_char_def is_digit_def)

text \<open>Reading a plain decimal numeral: digits, and a fraction when there is one.\<close>

lemma dec_of_number_plain:
  assumes "ip \<noteq> []" "list_all is_digit ip" "list_all is_digit fp"
    and "dec_representable (nat_of_digits 0 (ip @ fp)) (- int (length fp))"
  shows "dec_of_number neg (ip @ (if fp = [] then [] else ''.'' @ fp)) =
     Some (Fin ((if neg then -1 else 1) * int (nat_of_digits 0 (ip @ fp))) (- int (length fp)))"
proof (cases "fp = []")
  case True
  have parts: "takeWhile is_digit ip = ip" "dropWhile is_digit ip = []"
    using assms by (auto simp: list_all_iff)
  from True assms show ?thesis by (simp add: dec_of_number_def read_exponent_def parts Let_def)
next
  case False
  have dot: "\<not> is_digit (CHR ''.'')" by (simp add: is_digit_def byte_def)
  have split: "takeWhile is_digit (ip @ CHR ''.'' # fp) = ip"
      "dropWhile is_digit (ip @ CHR ''.'' # fp) = CHR ''.'' # fp"
    using assms dot by (auto simp: list_all_iff takeWhile_append dropWhile_append)
  have parts: "takeWhile is_digit fp = fp" "dropWhile is_digit fp = []"
    using assms(3) by (auto simp: list_all_iff)
  from False assms show ?thesis
    by (simp add: dec_of_number_def read_exponent_def Let_def split parts)
qed

lemma decimal_of_plain:
  assumes "ip \<noteq> []" "list_all is_digit ip" "list_all is_digit fp"
    and "dec_representable (nat_of_digits 0 (ip @ fp)) (- int (length fp))"
  shows "decimal_of ((if neg then ''-'' else []) @ ip @ (if fp = [] then [] else ''.'' @ fp)) =
     Some (Fin ((if neg then -1 else 1) * int (nat_of_digits 0 (ip @ fp))) (- int (length fp)))"
proof -
  define u where "u = ip @ (if fp = [] then [] else ''.'' @ fp)"
  define t where "t = (if neg then ''-'' else []) @ u"
  obtain d ds where ip: "ip = d # ds" using assms(1) by (cases ip) auto
  have d: "is_digit d" using assms(2) ip by simp
  have hd_u: "u \<noteq> []" "hd u = d" by (simp_all add: u_def ip)
  have last_u: "is_digit (last u)"
    using assms(1-3) by (auto simp: u_def list_all_iff)
  have "33 \<le> byte (hd t) \<and> byte (hd t) < 128"
    using d hd_u by (auto simp: t_def is_digit_def byte_def)
  moreover have "33 \<le> byte (last t) \<and> byte (last t) < 128"
    using last_u hd_u by (auto simp: t_def is_digit_def)
  moreover have "t \<noteq> []" using hd_u by (simp add: t_def)
  ultimately have "strip t = t" by (intro strip_visible) auto
  moreover have "\<forall>c \<in> set t. c \<noteq> CHR ''_''"
    using assms(2,3) by (auto simp: t_def u_def list_all_iff is_digit_def byte_def split: if_splits)
  then have "filter (\<lambda>c. c \<noteq> CHR ''_'') t = t" by (simp add: filter_id_conv)
  moreover have "split_sign t = (neg, u)"
    using d hd_u by (cases u) (auto simp: t_def is_digit_def byte_def)
  moreover have l: "lower u = d # lower (tl u)"
    using d hd_u by (cases u) (auto simp: lower_def)
  then have "lower u \<noteq> ''inf''" "lower u \<noteq> ''infinity''" "\<not> starts_with ''nan'' (lower u)"
      "\<not> starts_with ''snan'' (lower u)"
    using d by (auto simp: starts_with_def is_digit_def byte_def)
  ultimately have "decimal_of t = dec_of_number neg u" by (simp add: decimal_of_def Let_def)
  then show ?thesis using dec_of_number_plain [OF assms] by (simp add: t_def u_def)
qed

text \<open>Rounding half up moves a value by at most half a unit of the last place kept.\<close>

lemma drop_digits_half_up:
  "2 * n < (2 * drop_digits ROUND_HALF_UP k n + 1) * 10 ^ k"
  "2 * drop_digits ROUND_HALF_UP k n * 10 ^ k \<le> 2 * n + 10 ^ k"
proof -
  define p q r where "p = (10::nat) ^ k" and "q = n div p" and "r = n mod p"
  have n: "n = q * p + r" unfolding q_def r_def by simp
  have r: "r < p" unfolding r_def p_def by simp
  have eq: "drop_digits ROUND_HALF_UP k n = q + (if p \<le> 2 * r then 1 else 0)"
    by (simp add: drop_digits_def p_def q_def r_def Let_def)
  show "2 * n < (2 * drop_digits ROUND_HALF_UP k n + 1) * 10 ^ k"
    unfolding eq p_def [symmetric] using n r by (simp add: algebra_simps)
  show "2 * drop_digits ROUND_HALF_UP k n * 10 ^ k \<le> 2 * n + 10 ^ k"
    unfolding eq p_def [symmetric] using n by (simp add: algebra_simps)
qed

lemma drop_digits_half_up_le: "drop_digits ROUND_HALF_UP k n \<le> n"
proof (cases k)
  case 0
  then show ?thesis by simp
next
  case (Suc j)
  let ?m = "drop_digits ROUND_HALF_UP k n"
  show ?thesis
  proof (cases ?m)
    case (Suc i)
    have p: "10 \<le> (10::nat) ^ k" using \<open>k = Suc j\<close> by simp
    have "2 * (?m * 10 ^ k) \<le> 2 * n + 10 ^ k"
      using drop_digits_half_up(2) [of k n] by (simp add: mult.assoc)
    moreover have "10 ^ k \<le> ?m * 10 ^ k" using Suc by simp
    ultimately have "?m * 10 ^ k \<le> 2 * n" by linarith
    moreover have "?m * 10 \<le> ?m * 10 ^ k" using p by (rule mult_left_mono) simp
    ultimately show ?thesis by linarith
  qed simp
qed

lemma dec_finish_exact:
  assumes "nat \<bar>c\<bar> < 10 ^ PREC" "ETINY \<le> e" "e + int (ndigits (nat \<bar>c\<bar>)) - 1 \<le> EMAX"
  shows "dec_finish c e = Inr (Fin c e)"
proof (cases "c = 0")
  case True
  then show ?thesis by (simp add: dec_finish_def)
next
  case False
  have "int (ndigits (nat \<bar>c\<bar>)) - int PREC \<le> 0"
    using assms(1) ndigits_le_iff [of PREC "nat \<bar>c\<bar>"] by (simp add: PREC_def)
  then have "nat (max (int (ndigits (nat \<bar>c\<bar>)) - int PREC) (ETINY - e)) = 0"
    using assms(2) by simp
  with False assms show ?thesis by (simp add: dec_finish_def Let_def sgn_mult_abs)
qed

end
