(* ===== verification/Datetimes.thy ===== *)
theory Datetimes
  imports Gateway_Prelude
begin

text \<open>
  \<^verbatim>\<open>datetime\<close> values in UTC, \<^verbatim>\<open>timedelta\<close>, and the ISO text the ledger stores them as.

  A datetime is the number of microseconds since 0001-01-01T00:00:00 UTC, which makes adding a
  timedelta and comparing plain integer arithmetic. The calendar is only needed where the code
  prints a time: \<open>isoformat\<close> is the text of a UTC datetime, \<open>fromisoformat\<close> reads the spelling
  \<open>isoformat\<close> writes (with the offset, or naive, which \<^verbatim>\<open>_time\<close> of the store also accepts). The
  main facts are that reading back gives the same time, and so that the text determines the time:
  the references that make grants idempotent are built from it.
\<close>

type_synonym datetime = int
type_synonym timedelta = int

definition td_days :: "int \<Rightarrow> timedelta" where
  "td_days n = n * 86400000000"

definition td_minutes :: "int \<Rightarrow> timedelta" where
  "td_minutes n = n * 60000000"

section \<open>The calendar\<close>

definition is_leap :: "int \<Rightarrow> bool" where
  "is_leap y \<longleftrightarrow> y mod 4 = 0 \<and> (y mod 100 \<noteq> 0 \<or> y mod 400 = 0)"

definition month_lengths :: "bool \<Rightarrow> int list" where
  "month_lengths leap =
     [31, if leap then 29 else 28, 31, 30, 31, 30, 31, 31, 30, 31, 30, 31]"

fun month_day :: "int \<Rightarrow> int list \<Rightarrow> int \<Rightarrow> int \<times> int" where
  "month_day m [] n = (m, n)"
| "month_day m (l # ls) n = (if n < l then (m, n) else month_day (m + 1) ls (n - l))"

definition ymd2ord :: "int \<times> int \<times> int \<Rightarrow> int" where
  "ymd2ord = (\<lambda>(y, m, d).
     let y' = y - 1
     in 365 * y' + y' div 4 - y' div 100 + y' div 400
        + sum_list (take (nat (m - 1)) (month_lengths (is_leap y))) + (d - 1))"

definition ord2ymd :: "int \<Rightarrow> int \<times> int \<times> int" where
  "ord2ymd n =
     (let n400 = n div 146097; r400 = n mod 146097;
          n100 = r400 div 36524; r100 = r400 mod 36524;
          n4 = r100 div 1461; r4 = r100 mod 1461;
          n1 = r4 div 365; r1 = r4 mod 365;
          year = 400 * n400 + 100 * n100 + 4 * n4 + n1 + 1
      in if n1 = 4 \<or> n100 = 4 then (year - 1, 12, 31)
         else let leap = (n1 = 3 \<and> (n4 \<noteq> 24 \<or> n100 = 3));
                  md = month_day 1 (month_lengths leap) r1
              in (year, fst md, snd md + 1))"

lemma month_day_sum:
  "month_day m ls n = (m', d) \<Longrightarrow>
   m \<le> m' \<and> m' \<le> m + int (length ls) \<and> n = sum_list (take (nat (m' - m)) ls) + d"
proof (induction m ls n rule: month_day.induct)
  case (1 m n)
  then show ?case by simp
next
  case (2 m l ls n)
  show ?case
  proof (cases "n < l")
    case True
    with 2 show ?thesis by simp
  next
    case False
    with 2 have IH: "m + 1 \<le> m' \<and> m' \<le> m + 1 + int (length ls) \<and>
        n - l = sum_list (take (nat (m' - (m + 1))) ls) + d"
      by simp
    then have "nat (m' - m) = Suc (nat (m' - (m + 1)))" by linarith
    with IH show ?thesis by simp
  qed
qed

lemma month_day_bounds:
  "0 \<le> n \<Longrightarrow> n < sum_list ls \<Longrightarrow> list_all (\<lambda>l. 0 < l \<and> l \<le> 31) ls \<Longrightarrow>
   month_day m ls n = (m', d) \<Longrightarrow> m' < m + int (length ls) \<and> 0 \<le> d \<and> d < 31"
proof (induction m ls n rule: month_day.induct)
  case (1 m n)
  then show ?case by simp
next
  case (2 m l ls n)
  then show ?case by (cases "n < l") auto
qed

lemma sum_month_lengths: "sum_list (month_lengths leap) = (if leap then 366 else 365)"
  by (simp add: month_lengths_def)

lemma month_lengths_bounds: "list_all (\<lambda>l. 0 < l \<and> l \<le> 31) (month_lengths leap)"
  by (simp add: month_lengths_def)

lemma length_month_lengths [simp]: "length (month_lengths leap) = 12"
  by (simp add: month_lengths_def)

lemma take_december: "sum_list (take 11 (month_lengths leap)) = (if leap then 335 else 334)"
  by (simp add: month_lengths_def)

text \<open>The cycle digits of a day number, and the year they spell.\<close>

lemma cycle_year:
  fixes a b c d :: int
  assumes "0 \<le> b" "b \<le> 3" "0 \<le> c" "c \<le> 24" "0 \<le> d" "d \<le> 3"
  defines "y' \<equiv> 400 * a + 100 * b + 4 * c + d"
  shows "y' div 4 = 100 * a + 25 * b + c" "y' div 100 = 4 * a + b" "y' div 400 = a"
    and "is_leap (y' + 1) \<longleftrightarrow> d = 3 \<and> (c \<noteq> 24 \<or> b = 3)"
proof -
  show "y' div 4 = 100 * a + 25 * b + c"
    using assms by (intro int_div_pos_eq [of _ _ _ d]) auto
  show "y' div 100 = 4 * a + b"
    using assms by (intro int_div_pos_eq [of _ _ _ "4 * c + d"]) auto
  show "y' div 400 = a"
    using assms by (intro int_div_pos_eq [of _ _ _ "100 * b + 4 * c + d"]) auto
  have m4: "(y' + 1) mod 4 = 0 \<longleftrightarrow> d = 3"
  proof (cases "d = 3")
    case True
    then have "(y' + 1) mod 4 = 0"
      by (intro int_mod_pos_eq [of _ _ "100 * a + 25 * b + c + 1"]) (auto simp: y'_def)
    with True show ?thesis by simp
  next
    case False
    with assms(5,6) have "(y' + 1) mod 4 = d + 1"
      by (intro int_mod_pos_eq [of _ _ "100 * a + 25 * b + c"]) (auto simp: y'_def)
    with False assms(5) show ?thesis by simp
  qed
  have m100: "(y' + 1) mod 100 = 0 \<longleftrightarrow> c = 24" if "d = 3"
  proof (cases "c = 24")
    case True
    with that have "(y' + 1) mod 100 = 0"
      by (intro int_mod_pos_eq [of _ _ "4 * a + b + 1"]) (auto simp: y'_def)
    with True show ?thesis by simp
  next
    case False
    with assms(3,4) that have "(y' + 1) mod 100 = 4 * c + 4"
      by (intro int_mod_pos_eq [of _ _ "4 * a + b"]) (auto simp: y'_def)
    with False assms(3) show ?thesis by simp
  qed
  have m400: "(y' + 1) mod 400 = 0 \<longleftrightarrow> b = 3" if "d = 3" "c = 24"
  proof (cases "b = 3")
    case True
    with that have "(y' + 1) mod 400 = 0"
      by (intro int_mod_pos_eq [of _ _ "a + 1"]) (auto simp: y'_def)
    with True show ?thesis by simp
  next
    case False
    with assms(1,2) that have "(y' + 1) mod 400 = 100 * b + 100"
      by (intro int_mod_pos_eq [of _ _ "a"]) (auto simp: y'_def)
    with False assms(1) show ?thesis by simp
  qed
  show "is_leap (y' + 1) \<longleftrightarrow> d = 3 \<and> (c \<noteq> 24 \<or> b = 3)"
    unfolding is_leap_def using m4 m100 m400 by (cases "d = 3"; cases "c = 24") simp_all
qed

lemma ymd2ord_cycle:
  fixes a b c d m k :: int
  assumes "0 \<le> b" "b \<le> 3" "0 \<le> c" "c \<le> 24" "0 \<le> d" "d \<le> 3"
  shows "ymd2ord (400 * a + 100 * b + 4 * c + d + 1, m, k) =
     146097 * a + 36524 * b + 1461 * c + 365 * d
     + sum_list (take (nat (m - 1)) (month_lengths (d = 3 \<and> (c \<noteq> 24 \<or> b = 3)))) + (k - 1)"
  unfolding ymd2ord_def Let_def prod.case
  using cycle_year [OF assms, of a] by (simp add: algebra_simps)

text \<open>Every day number has cycle digits in range, and \<open>ord2ymd\<close> is read off them.\<close>

lemma ord2ymd_digits:
  obtains a b c d r where
    "n = 146097 * a + 36524 * b + 1461 * c + 365 * d + r" "a = n div 146097"
    "0 \<le> b" "b \<le> 4" "0 \<le> c" "c \<le> 24" "0 \<le> d" "d \<le> 4" "0 \<le> r" "r < 365"
    "b = 4 \<Longrightarrow> c = 0 \<and> d = 0 \<and> r = 0" "d = 4 \<Longrightarrow> r = 0 \<and> c \<noteq> 24"
    "ord2ymd n =
      (if d = 4 \<or> b = 4 then (400 * a + 100 * b + 4 * c + d + 1 - 1, 12, 31)
       else (let md = month_day 1 (month_lengths (d = 3 \<and> (c \<noteq> 24 \<or> b = 3))) r
             in (400 * a + 100 * b + 4 * c + d + 1, fst md, snd md + 1)))"
proof -
  define a r400 where "a = n div 146097" and "r400 = n mod 146097"
  define b r100 where "b = r400 div 36524" and "r100 = r400 mod 36524"
  define c r4 where "c = r100 div 1461" and "r4 = r100 mod 1461"
  define d r where "d = r4 div 365" and "r = r4 mod 365"
  note defs = a_def r400_def b_def r100_def c_def r4_def d_def r_def
  have n: "n = 146097 * a + r400" and r400: "r400 = 36524 * b + r100"
    and r100: "r100 = 1461 * c + r4" and r4: "r4 = 365 * d + r"
    unfolding defs by simp_all
  have bounds: "0 \<le> r400" "r400 < 146097" "0 \<le> r100" "r100 < 36524" "0 \<le> r4" "r4 < 1461"
      "0 \<le> r" "r < 365"
    unfolding defs by simp_all
  have nonneg: "0 \<le> b" "0 \<le> c" "0 \<le> d"
    using bounds unfolding b_def c_def d_def by (simp_all add: pos_imp_zdiv_nonneg_iff)
  have le: "b \<le> 4" "c \<le> 24" "d \<le> 4" using n r400 r100 r4 bounds by linarith+
  have b4: "c = 0 \<and> d = 0 \<and> r = 0" if "b = 4"
  proof -
    from that r400 bounds have "r100 = 0" by linarith
    with r100 bounds nonneg have "c = 0" "r4 = 0" by linarith+
    with r4 bounds nonneg show ?thesis by linarith
  qed
  have d4: "r = 0 \<and> c \<noteq> 24" if "d = 4" using that r100 r4 bounds by linarith
  have eq: "ord2ymd n =
      (if d = 4 \<or> b = 4 then (400 * a + 100 * b + 4 * c + d + 1 - 1, 12, 31)
       else (let md = month_day 1 (month_lengths (d = 3 \<and> (c \<noteq> 24 \<or> b = 3))) r
             in (400 * a + 100 * b + 4 * c + d + 1, fst md, snd md + 1)))"
    unfolding ord2ymd_def Let_def defs by (rule refl)
  have "n = 146097 * a + 36524 * b + 1461 * c + 365 * d + r" using n r400 r100 r4 by linarith
  from that [OF this a_def nonneg(1) le(1) nonneg(2) le(2) nonneg(3) le(3) bounds(7,8) b4 d4 eq]
  show thesis .
qed

lemma ymd2ord_ord2ymd: "ymd2ord (ord2ymd n) = n"
proof (rule ord2ymd_digits [of n])
  fix a b c d r :: int
  assume n: "n = 146097 * a + 36524 * b + 1461 * c + 365 * d + r"
    and bounds: "0 \<le> b" "b \<le> 4" "0 \<le> c" "c \<le> 24" "0 \<le> d" "d \<le> 4"
    and b4: "b = 4 \<Longrightarrow> c = 0 \<and> d = 0 \<and> r = 0" and d4: "d = 4 \<Longrightarrow> r = 0 \<and> c \<noteq> 24"
    and eq: "ord2ymd n =
      (if d = 4 \<or> b = 4 then (400 * a + 100 * b + 4 * c + d + 1 - 1, 12, 31)
       else (let md = month_day 1 (month_lengths (d = 3 \<and> (c \<noteq> 24 \<or> b = 3))) r
             in (400 * a + 100 * b + 4 * c + d + 1, fst md, snd md + 1)))"
  consider (last_of_four) "d = 4" "b \<noteq> 4" | (last_of_cycle) "b = 4" | (ordinary) "d \<noteq> 4" "b \<noteq> 4"
    by blast
  then show ?thesis
  proof cases
    case last_of_four
    then have "ord2ymd n = (400 * a + 100 * b + 4 * c + 3 + 1, 12, 31)" using eq by simp
    moreover have "b \<le> 3" using last_of_four bounds by linarith
    ultimately show ?thesis
      using ymd2ord_cycle [of b c 3 a 12 31] bounds n d4 last_of_four by (simp add: take_december)
  next
    case last_of_cycle
    then have "ord2ymd n = (400 * a + 100 * 3 + 4 * 24 + 3 + 1, 12, 31)" using eq b4 by simp
    then show ?thesis
      using ymd2ord_cycle [of 3 24 3 a 12 31] n b4 last_of_cycle by (simp add: take_december)
  next
    case ordinary
    obtain m k where mk: "month_day 1 (month_lengths (d = 3 \<and> (c \<noteq> 24 \<or> b = 3))) r = (m, k)"
      by fastforce
    from month_day_sum [OF mk]
    have "r = sum_list (take (nat (m - 1)) (month_lengths (d = 3 \<and> (c \<noteq> 24 \<or> b = 3)))) + k"
      by blast
    moreover have "ord2ymd n = (400 * a + 100 * b + 4 * c + d + 1, m, k + 1)"
      using eq ordinary mk by (simp only: simp_thms if_False Let_def fst_conv snd_conv)
    moreover have "b \<le> 3" "d \<le> 3" using ordinary bounds by linarith+
    ultimately show ?thesis
      using ymd2ord_cycle [of b c d a m "k + 1"] bounds n by simp
  qed
qed

lemma ord2ymd_bounds:
  assumes "0 \<le> n" "n < 3652059" "ord2ymd n = (y, m, d)"
  shows "1 \<le> y \<and> y \<le> 9999 \<and> 1 \<le> m \<and> m \<le> 12 \<and> 1 \<le> d \<and> d \<le> 31"
proof (rule ord2ymd_digits [of n])
  fix a b c e r :: int
  assume n: "n = 146097 * a + 36524 * b + 1461 * c + 365 * e + r" "a = n div 146097"
    and bounds: "0 \<le> b" "b \<le> 4" "0 \<le> c" "c \<le> 24" "0 \<le> e" "e \<le> 4" "0 \<le> r" "r < 365"
    and b4: "b = 4 \<Longrightarrow> c = 0 \<and> e = 0 \<and> r = 0"
    and eq: "ord2ymd n =
      (if e = 4 \<or> b = 4 then (400 * a + 100 * b + 4 * c + e + 1 - 1, 12, 31)
       else (let md = month_day 1 (month_lengths (e = 3 \<and> (c \<noteq> 24 \<or> b = 3))) r
             in (400 * a + 100 * b + 4 * c + e + 1, fst md, snd md + 1)))"
  have a: "0 \<le> a" using n(2) assms(1) by (simp add: pos_imp_zdiv_nonneg_iff)
  have a24: "a \<le> 24" using n(1) bounds assms(2) by linarith
  show ?thesis
  proof (cases "e = 4 \<or> b = 4")
    case True
    with eq assms(3) have "y = 400 * a + 100 * b + 4 * c + e" "m = 12" "d = 31" by auto
    with True a a24 bounds n(1) assms(2) b4 show ?thesis by auto
  next
    case False
    let ?ls = "month_lengths (e = 3 \<and> (c \<noteq> 24 \<or> b = 3))"
    obtain m' k where mk: "month_day 1 ?ls r = (m', k)" by fastforce
    with False eq assms(3) have ymd: "y = 400 * a + 100 * b + 4 * c + e + 1" "m = m'" "d = k + 1"
      by (auto simp: Let_def)
    have "r < sum_list ?ls" using bounds by (simp add: sum_month_lengths)
    from month_day_bounds [OF bounds(7) this month_lengths_bounds mk] month_day_sum [OF mk]
    have "1 \<le> m" "m \<le> 12" "1 \<le> d" "d \<le> 31" using ymd by simp_all
    moreover have "b \<le> 3" "e \<le> 3" using False bounds by linarith+
    ultimately show ?thesis using ymd(1) a bounds n(1) assms(2) by linarith
  qed
qed

section \<open>ISO text\<close>

text \<open>The range of \<^verbatim>\<open>datetime\<close>: the years 1 to 9999.\<close>

definition dt_ok :: "datetime \<Rightarrow> bool" where
  "dt_ok t \<longleftrightarrow> 0 \<le> t \<and> t < 3652059 * 86400000000"

definition isoformat :: "datetime \<Rightarrow> string" where
  "isoformat t =
     (let ymd = ord2ymd (t div 86400000000);
          us = nat (t mod 86400000000);
          frac = us mod 1000000
      in pad_digits 4 (nat (fst ymd)) @ ''-'' @ pad_digits 2 (nat (fst (snd ymd))) @ ''-''
         @ pad_digits 2 (nat (snd (snd ymd))) @ ''T''
         @ pad_digits 2 (us div 3600000000) @ '':''
         @ pad_digits 2 (us div 60000000 mod 60) @ '':''
         @ pad_digits 2 (us div 1000000 mod 60)
         @ (if frac = 0 then [] else ''.'' @ pad_digits 6 frac) @ ''+00:00'')"

definition read_digits :: "nat \<Rightarrow> string \<Rightarrow> (nat \<times> string) option" where
  "read_digits w s =
     (if length (take w s) = w \<and> list_all is_digit (take w s)
      then Some (nat_of_digits 0 (take w s), drop w s) else None)"

fun expect :: "char \<Rightarrow> string \<Rightarrow> string option" where
  "expect c [] = None"
| "expect c (x # xs) = (if x = c then Some xs else None)"

text \<open>\<open>field c w\<close>: the separator \<open>c\<close>, then \<open>w\<close> digits.\<close>

definition field :: "char \<Rightarrow> nat \<Rightarrow> string \<Rightarrow> (nat \<times> string) option" where
  "field c w s = (case expect c s of None \<Rightarrow> None | Some r \<Rightarrow> read_digits w r)"

definition ymd_ok :: "int \<times> int \<times> int \<Rightarrow> bool" where
  "ymd_ok = (\<lambda>(y, m, d). 1 \<le> y \<and> 1 \<le> m \<and> m \<le> 12 \<and> 1 \<le> d
     \<and> d \<le> month_lengths (is_leap y) ! nat (m - 1))"

definition fromisoformat :: "string \<Rightarrow> datetime option" where
  "fromisoformat s =
     Option.bind (read_digits 4 s) (\<lambda>(y, s1).
     Option.bind (field (CHR ''-'') 2 s1) (\<lambda>(mo, s2).
     Option.bind (field (CHR ''-'') 2 s2) (\<lambda>(d, s3).
     Option.bind (field (CHR ''T'') 2 s3) (\<lambda>(h, s4).
     Option.bind (field (CHR '':'') 2 s4) (\<lambda>(mi, s5).
     Option.bind (field (CHR '':'') 2 s5) (\<lambda>(sec, s6).
     Option.bind
       (if s6 \<noteq> [] \<and> hd s6 = CHR ''.'' then field (CHR ''.'') 6 s6 else Some (0, s6)) (\<lambda>(us, s7).
       if (s7 = [] \<or> s7 = ''+00:00'') \<and> ymd_ok (int y, int mo, int d)
          \<and> h < 24 \<and> mi < 60 \<and> sec < 60
       then Some (ymd2ord (int y, int mo, int d) * 86400000000
                  + int (((h * 60 + mi) * 60 + sec) * 1000000 + us))
       else None)))))))"

lemma read_pad_digits [simp]:
  "n < 10 ^ w \<Longrightarrow> read_digits w (pad_digits w n @ s) = Some (n, s)"
  by (simp add: read_digits_def pad_digits_are_digits nat_of_pad_digits)

lemma field_pad_digits [simp]:
  "n < 10 ^ w \<Longrightarrow> field c w (c # pad_digits w n @ s) = Some (n, s)"
  by (simp add: field_def)

lemma month_day_within:
  "0 \<le> n \<Longrightarrow> n < sum_list ls \<Longrightarrow> list_all (\<lambda>l. 0 < l) ls \<Longrightarrow>
   month_day m ls n = (m', d) \<Longrightarrow> d < ls ! nat (m' - m) \<and> m \<le> m'"
proof (induction m ls n rule: month_day.induct)
  case (1 m n)
  then show ?case by simp
next
  case (2 m l ls n)
  show ?case
  proof (cases "n < l")
    case True
    with 2 show ?thesis by simp
  next
    case False
    with 2 have IH: "d < ls ! nat (m' - (m + 1)) \<and> m + 1 \<le> m'" by simp
    then have "nat (m' - m) = Suc (nat (m' - (m + 1)))" by linarith
    with IH show ?thesis by simp
  qed
qed

lemma ord2ymd_ok:
  assumes "0 \<le> n" "n < 3652059"
  shows "ymd_ok (ord2ymd n)"
proof (rule ord2ymd_digits [of n])
  fix a b c e r :: int
  assume bounds: "0 \<le> b" "b \<le> 4" "0 \<le> c" "c \<le> 24" "0 \<le> e" "e \<le> 4" "0 \<le> r" "r < 365"
    and eq: "ord2ymd n =
      (if e = 4 \<or> b = 4 then (400 * a + 100 * b + 4 * c + e + 1 - 1, 12, 31)
       else (let md = month_day 1 (month_lengths (e = 3 \<and> (c \<noteq> 24 \<or> b = 3))) r
             in (400 * a + 100 * b + 4 * c + e + 1, fst md, snd md + 1)))"
  obtain y m d where ymd: "ord2ymd n = (y, m, d)" by (metis prod_cases3)
  note range = ord2ymd_bounds [OF assms ymd]
  show ?thesis
  proof (cases "e = 4 \<or> b = 4")
    case True
    with eq range ymd show ?thesis by (simp add: ymd_ok_def month_lengths_def)
  next
    case False
    let ?leap = "e = 3 \<and> (c \<noteq> 24 \<or> b = 3)"
    obtain m' k where mk: "month_day 1 (month_lengths ?leap) r = (m', k)" by fastforce
    with False eq ymd have parts: "y = 400 * a + 100 * b + 4 * c + e + 1" "m = m'" "d = k + 1"
      by (auto simp: Let_def)
    have "is_leap y = ?leap"
      unfolding parts(1) using False bounds by (intro cycle_year(4)) auto
    moreover have "r < sum_list (month_lengths ?leap)" using bounds by (simp add: sum_month_lengths)
    from month_day_within [OF bounds(7) this _ mk]
    have "k < month_lengths ?leap ! nat (m' - 1)" by (simp add: month_lengths_def)
    ultimately show ?thesis using range ymd parts by (simp add: ymd_ok_def)
  qed
qed

text \<open>Reading back what \<open>isoformat\<close> wrote gives the same time, to the microsecond.\<close>

lemma fromisoformat_isoformat:
  assumes "dt_ok t"
  shows "fromisoformat (isoformat t) = Some t"
proof -
  define n us where "n = t div 86400000000" and "us = nat (t mod 86400000000)"
  have t: "t = n * 86400000000 + int us" unfolding n_def us_def by simp
  have us: "us < 86400000000" unfolding us_def by (simp add: nat_less_iff)
  have n: "0 \<le> n" "n < 3652059"
    using assms unfolding n_def dt_ok_def by (auto simp: pos_imp_zdiv_nonneg_iff)
  obtain y m d where ymd: "ord2ymd n = (y, m, d)" by (metis prod_cases3)
  note range = ord2ymd_bounds [OF n ymd]
  define h mi sec frac where "h = us div 3600000000" and "mi = us div 60000000 mod 60"
    and "sec = us div 1000000 mod 60" and "frac = us mod 1000000"
  have small: "nat y < 10 ^ 4" "nat m < 10 ^ 2" "nat d < 10 ^ 2" "h < 10 ^ 2" "mi < 10 ^ 2"
      "sec < 10 ^ 2" "frac < 10 ^ 6" "h < 24" "mi < 60" "sec < 60"
    using range us unfolding h_def mi_def sec_def frac_def by auto
  have parts: "((h * 60 + mi) * 60 + sec) * 1000000 + frac = us"
  proof -
    define q where "q = us div 1000000"
    have "h = q div 60 div 60" "mi = q div 60 mod 60" "sec = q mod 60"
      unfolding h_def mi_def sec_def q_def by (simp_all add: div_mult2_eq [symmetric])
    then have "(h * 60 + mi) * 60 + sec = q" by (simp only: div_mult_mod_eq)
    then show ?thesis unfolding frac_def q_def by (simp only: div_mult_mod_eq)
  qed
  have ok: "ymd_ok (y, m, d)" and ord: "ymd2ord (y, m, d) = n"
    using ord2ymd_ok [OF n] ymd2ord_ord2ymd [of n] ymd by simp_all
  have iso: "isoformat t = pad_digits 4 (nat y) @ ''-'' @ pad_digits 2 (nat m) @ ''-''
      @ pad_digits 2 (nat d) @ ''T'' @ pad_digits 2 h @ '':'' @ pad_digits 2 mi @ '':''
      @ pad_digits 2 sec @ (if frac = 0 then [] else ''.'' @ pad_digits 6 frac) @ ''+00:00''"
    unfolding isoformat_def Let_def h_def mi_def sec_def frac_def
    by (simp add: ymd n_def [symmetric] us_def [symmetric])
  have "int (((h * 60 + mi) * 60 + sec) * 1000000 + frac) = int us" by (simp only: parts)
  with small ok ord t range show ?thesis
    unfolding iso fromisoformat_def by (cases "frac = 0") (simp_all add: algebra_simps)
qed

lemma isoformat_inj: "dt_ok t \<Longrightarrow> dt_ok u \<Longrightarrow> isoformat t = isoformat u \<Longrightarrow> t = u"
  by (metis fromisoformat_isoformat option.inject)

text \<open>Whatever \<open>fromisoformat\<close> reads is in range.\<close>

lemma ymd2ord_range:
  assumes "ymd_ok (y, m, d)" "y \<le> 9999"
  shows "0 \<le> ymd2ord (y, m, d)" "ymd2ord (y, m, d) < 3652059"
proof -
  let ?L = "month_lengths (is_leap y)"
  let ?k = "nat (m - 1)"
  from assms(1) have y: "1 \<le> y" and m: "1 \<le> m" "m \<le> 12" and d: "1 \<le> d" "d \<le> ?L ! ?k"
    by (auto simp: ymd_ok_def)
  have pos: "\<forall>l \<in> set ?L. 0 \<le> l" using month_lengths_bounds [of "is_leap y"] by (auto simp: list_all_iff)
  have k: "?k < length ?L" using m by simp
  have "sum_list (take (Suc ?k) ?L) + sum_list (drop (Suc ?k) ?L) = sum_list ?L"
    by (metis append_take_drop_id sum_list_append)
  moreover have "0 \<le> sum_list (drop (Suc ?k) ?L)" using pos by (intro sum_list_nonneg) (auto dest: in_set_dropD)
  moreover have "sum_list (take (Suc ?k) ?L) = sum_list (take ?k ?L) + ?L ! ?k"
    using k by (simp add: take_Suc_conv_app_nth)
  ultimately have le: "sum_list (take ?k ?L) + d \<le> (if is_leap y then 366 else 365)"
    using d(2) sum_month_lengths [of "is_leap y"] by linarith
  have ge: "0 \<le> sum_list (take ?k ?L)" using pos by (intro sum_list_nonneg) (auto dest: in_set_takeD)
  define z where "z = y - 1"
  have z: "0 \<le> z" "z \<le> 9998" using y assms(2) by (auto simp: z_def)
  have q: "0 \<le> z div 4" "z div 100 \<le> z" "0 \<le> z div 400" "z div 4 \<le> 2499" "z div 400 \<le> 24" using z by auto
  have "ymd2ord (y, m, d) = 365 * z + z div 4 - z div 100 + z div 400 + sum_list (take ?k ?L) + (d - 1)"
    by (simp add: ymd2ord_def z_def Let_def)
  moreover have "365 * z + z div 4 - z div 100 + z div 400 + (if is_leap y then 366 else 365) \<le> 3652059"
  proof (cases "z = 9998")
    case True
    then have "\<not> is_leap y" by (simp add: z_def is_leap_def)
    with True show ?thesis by simp
  next
    case False
    with z have "z \<le> 9997" by simp
    moreover have "0 \<le> z div 100" using z by simp
    ultimately show ?thesis using q by auto
  qed
  ultimately show "0 \<le> ymd2ord (y, m, d)" "ymd2ord (y, m, d) < 3652059" using le ge d(1) q z by linarith+
qed

lemma nat_of_digits_bound: "list_all is_digit t \<Longrightarrow> nat_of_digits acc t < (acc + 1) * 10 ^ length t"
proof (induction t arbitrary: acc)
  case Nil
  then show ?case by simp
next
  case (Cons c t)
  have "digit_value c \<le> 9" using Cons.prems by (auto simp: digit_value_def is_digit_def)
  then have "(10 * acc + digit_value c + 1) * 10 ^ length t \<le> (10 * (acc + 1)) * 10 ^ length t"
    by (intro mult_right_mono) auto
  moreover have "nat_of_digits acc (c # t) < (10 * acc + digit_value c + 1) * 10 ^ length t"
    using Cons.IH [of "10 * acc + digit_value c"] Cons.prems by simp
  moreover have "(10 * (acc + 1)) * 10 ^ length t = (acc + 1) * 10 ^ length (c # t)" by (simp add: algebra_simps)
  ultimately show ?case by linarith
qed

lemma read_digits_bound: "read_digits w s = Some (n, r) \<Longrightarrow> n < 10 ^ w"
  using nat_of_digits_bound [of "take w s" 0] by (auto simp: read_digits_def split: if_splits)

lemma field_bound: "field c w s = Some (n, r) \<Longrightarrow> n < 10 ^ w"
  by (auto simp: field_def read_digits_bound split: option.splits)

lemma dt_ok_parts:
  assumes t: "ymd2ord (int y, int mo, int d) * 86400000000
          + (3600000000 * int h + 60000000 * int mi + int sec * 1000000 + int us) = t"
    and "ymd_ok (int y, int mo, int d)" "y < 10000" "h < 24" "mi < 60" "sec < 60" "us < 1000000"
  shows "dt_ok t"
proof -
  have "0 \<le> ymd2ord (int y, int mo, int d)" "ymd2ord (int y, int mo, int d) < 3652059"
    using ymd2ord_range [OF assms(2)] assms(3) by auto
  moreover have "3600000000 * int h + 60000000 * int mi + int sec * 1000000 + int us < 86400000000"
    using assms(4-7) by simp
  ultimately show ?thesis unfolding dt_ok_def t [symmetric] by linarith
qed

lemma fromisoformat_range:
  assumes "fromisoformat s = Some t"
  shows "dt_ok t"
proof -
  have fraction: "(if s6 \<noteq> [] \<and> hd s6 = CHR ''.'' then field (CHR ''.'') 6 s6 else Some (0, s6)) = Some (us, s7)
      \<Longrightarrow> us < 10 ^ 6" for s6 us s7
    by (auto split: if_splits dest: field_bound)
  show ?thesis
    using assms unfolding fromisoformat_def
    apply (clarsimp simp only: Option.bind_eq_Some_conv split_paired_all prod.case)
    apply (drule read_digits_bound, drule fraction)
    apply (simp only: if_split_eq1 option.distinct simp_thms option.inject)
    apply (elim conjE)
    apply (simp, erule (6) dt_ok_parts)
    done
qed

end
