(* ===== verification/Billing_Money.thy ===== *)
theory Billing_Money
  imports Decimals Datetimes Json_Values
begin

text \<open>
  Money, what is sold, and what a run consumed: the first half of \<^verbatim>\<open>domain/billing.py\<close>.

  \<open>money\<close> is an integer number of USD micros; \<open>money_parse\<close> is the one place a decimal becomes one.
  \<open>pricing\<close> is the only place tokens and money meet. \<open>usage_from_agent\<close> reads the agent's cost panel,
  a JSON value nobody controls, so it is modelled with every exception the conversions can raise.
\<close>

definition MICROS :: int where "MICROS = 1000000"
definition PER_MILLION :: int where "PER_MILLION = 1000000"

section \<open>Money\<close>

datatype money = Money (micros: int)

text \<open>The dataclass is ordered by its only field.\<close>

instantiation money :: linorder
begin

definition less_eq_money :: "money \<Rightarrow> money \<Rightarrow> bool" where
  "less_eq_money a b \<longleftrightarrow> micros a \<le> micros b"

definition less_money :: "money \<Rightarrow> money \<Rightarrow> bool" where
  "less_money a b \<longleftrightarrow> micros a < micros b"

instance
  by standard (auto simp: less_eq_money_def less_money_def money.expand)

end

definition not_money :: "string \<Rightarrow> exn" where
  "not_money r = BillingError (r @ '' is not an amount of money'')"

text \<open>\<open>money_parse r text\<close>: \<open>r\<close> is the \<^verbatim>\<open>repr\<close> of the value, for the message, and \<open>text\<close> its \<^verbatim>\<open>str\<close>.
  The multiplication and the rounding are outside the \<^verbatim>\<open>try\<close>, so their signals travel on.\<close>

definition money_parse :: "string \<Rightarrow> string \<Rightarrow> exn + money" where
  "money_parse r text =
     (case decimal_of text of
        None \<Rightarrow> Inl (not_money r)
      | Some amount \<Rightarrow>
          if \<not> is_finite amount then Inl (not_money r)
          else
            (case dec_mul amount (Fin MICROS 0) of
               Inl x \<Rightarrow> Inl x
             | Inr (Fin c e) \<Rightarrow>
                 (case dec_quantize ROUND_HALF_UP 0 c e of
                    Inl x \<Rightarrow> Inl x
                  | Inr q \<Rightarrow> Inr (Money q))
             | Inr _ \<Rightarrow> Inl (DecimalSignal ''InvalidOperation'')))"

definition money_usd :: "int \<Rightarrow> money" where
  "money_usd dollars = Money (dollars * MICROS)"

definition money_is_zero :: "money \<Rightarrow> bool" where
  "money_is_zero m \<longleftrightarrow> micros m = 0"

definition money_add :: "money \<Rightarrow> money \<Rightarrow> money" where
  "money_add a b = Money (micros a + micros b)"

definition money_sub :: "money \<Rightarrow> money \<Rightarrow> money" where
  "money_sub a b = Money (micros a - micros b)"

definition money_neg :: "money \<Rightarrow> money" where
  "money_neg a = Money (- micros a)"

definition money_scaled :: "money \<Rightarrow> int \<Rightarrow> int \<Rightarrow> exn + money" where
  "money_scaled m numerator denominator =
     (if denominator = 0 then Inl (BillingError ''a price cannot be scaled by zero'')
      else Inr (Money ((micros m * numerator + denominator div 2) div denominator)))"

text \<open>\<^verbatim>\<open>str(money)\<close>: \<^verbatim>\<open>f"{Decimal(micros) / MICROS:.6f}".rstrip("0").rstrip(".") or "0"\<close>. The quotient
  is exact up to 28 digits and rounded to 28 beyond.\<close>

definition rstrip_char :: "char \<Rightarrow> string \<Rightarrow> string" where
  "rstrip_char c s = rev (dropWhile (\<lambda>x. x = c) (rev s))"

definition format_6f :: "int \<Rightarrow> string" where
  "format_6f scaled =
     (if scaled < 0 then ''-'' else []) @ show_nat (nat \<bar>scaled\<bar> div 1000000) @ ''.''
     @ pad_digits 6 (nat \<bar>scaled\<bar> mod 1000000)"

definition money_str :: "money \<Rightarrow> string" where
  "money_str m =
     (let scaled = (case dec_finish (micros m) (- 6) of Inr (Fin c e) \<Rightarrow> c * 10 ^ nat (e + 6) | _ \<Rightarrow> 0);
          s = rstrip_char (CHR ''.'') (rstrip_char (CHR ''0'') (format_6f scaled))
      in if s = [] then ''0'' else s)"

section \<open>What is sold\<close>

datatype cadence = WEEKLY | MONTHLY | ONE_OFF

definition WEEK :: timedelta where "WEEK = td_days 7"
definition MONTH :: timedelta where "MONTH = td_days 30"

fun cadence_value :: "cadence \<Rightarrow> string" where
  "cadence_value WEEKLY = ''weekly''"
| "cadence_value MONTHLY = ''monthly''"
| "cadence_value ONE_OFF = ''one_off''"

definition PERIODS :: "(string \<times> timedelta) list" where
  "PERIODS = [(cadence_value WEEKLY, WEEK), (cadence_value MONTHLY, MONTH)]"

record plan =
  plan_id :: string
  plan_name :: string
  plan_price :: money
  plan_tokens :: int
  plan_cadence :: cadence
  plan_description :: string
  plan_overage :: bool

record pack =
  pack_id :: string
  pack_name :: string
  pack_price :: money
  pack_tokens :: int
  pack_description :: string

definition plan_period :: "plan \<Rightarrow> timedelta" where
  "plan_period p = (case map_of PERIODS (cadence_value (plan_cadence p)) of None \<Rightarrow> MONTH | Some d \<Rightarrow> d)"

definition plan_is_free :: "plan \<Rightarrow> bool" where
  "plan_is_free p = money_is_zero (plan_price p)"

datatype product = PlanProduct plan | PackProduct pack

fun product_id :: "product \<Rightarrow> string" where
  "product_id (PlanProduct p) = plan_id p"
| "product_id (PackProduct p) = pack_id p"

fun product_name :: "product \<Rightarrow> string" where
  "product_name (PlanProduct p) = plan_name p"
| "product_name (PackProduct p) = pack_name p"

fun product_price :: "product \<Rightarrow> money" where
  "product_price (PlanProduct p) = plan_price p"
| "product_price (PackProduct p) = pack_price p"

fun product_tokens :: "product \<Rightarrow> int" where
  "product_tokens (PlanProduct p) = plan_tokens p"
| "product_tokens (PackProduct p) = pack_tokens p"

fun is_plan_product :: "product \<Rightarrow> bool" where
  "is_plan_product (PlanProduct _) = True"
| "is_plan_product (PackProduct _) = False"

record pricing =
  per_million :: money
  margin_bps :: int
  minimum_charge :: int

record catalog =
  cat_plans :: "plan list"
  cat_packs :: "pack list"
  cat_pricing :: pricing

definition catalog_product :: "catalog \<Rightarrow> string \<Rightarrow> exn + product" where
  "catalog_product cat sku =
     (case find (\<lambda>p. product_id p = sku) (map PlanProduct (cat_plans cat) @ map PackProduct (cat_packs cat)) of
        Some p \<Rightarrow> Inr p
      | None \<Rightarrow> Inl (UnknownProductError sku))"

definition catalog_plan :: "catalog \<Rightarrow> string \<Rightarrow> exn + plan" where
  "catalog_plan cat pid =
     (case catalog_product cat pid of
        Inl e \<Rightarrow> Inl e
      | Inr (PlanProduct p) \<Rightarrow> Inr p
      | Inr (PackProduct _) \<Rightarrow> Inl (UnknownProductError pid))"

section \<open>What was spent\<close>

record usage =
  use_tokens :: int
  use_calls :: int
  use_cost :: money
  use_simulated :: bool

definition usage_default :: usage where
  "usage_default = \<lparr>use_tokens = 0, use_calls = 0, use_cost = Money 0, use_simulated = False\<rparr>"

definition usage_is_empty :: "usage \<Rightarrow> bool" where
  "usage_is_empty u \<longleftrightarrow> use_calls u = 0 \<and> use_tokens u = 0"

text \<open>\<^verbatim>\<open>_int\<close> catches \<^verbatim>\<open>TypeError\<close> and \<^verbatim>\<open>ValueError\<close>, and nothing else.\<close>

definition int_or_zero :: "json \<Rightarrow> exn + int" where
  "int_or_zero v =
     (case py_int v of
        Inr i \<Rightarrow> Inr (max 0 i)
      | Inl IntTypeError \<Rightarrow> Inr 0
      | Inl IntValueError \<Rightarrow> Inr 0
      | Inl IntOverflowError \<Rightarrow> Inl OverflowError)"

text \<open>\<^verbatim>\<open>_money\<close> catches \<^verbatim>\<open>BillingError\<close>, and nothing else.\<close>

definition money_or_zero :: "json \<Rightarrow> exn + money" where
  "money_or_zero v =
     (if v = JNull then Inr (Money 0)
      else case money_parse (py_repr v) (py_str v) of
             Inr m \<Rightarrow> Inr m
           | Inl e \<Rightarrow> if is_billing_error e then Inr (Money 0) else Inl e)"

definition usage_from_agent :: "json \<Rightarrow> exn + usage" where
  "usage_from_agent panel =
     (if \<not> is_mapping panel then Inr usage_default
      else
        let nested = obj_get ''usage'' panel;
            source = (if is_mapping nested then nested else panel)
        in case int_or_zero (obj_get ''tokens'' source) of
             Inl e \<Rightarrow> Inl e
           | Inr tokens \<Rightarrow>
               (case int_or_zero (obj_get ''calls'' source) of
                  Inl e \<Rightarrow> Inl e
                | Inr calls \<Rightarrow>
                    (case money_or_zero (obj_get ''cost_usd'' source) of
                       Inl e \<Rightarrow> Inl e
                     | Inr cost \<Rightarrow>
                         Inr \<lparr>use_tokens = tokens, use_calls = calls, use_cost = cost,
                              use_simulated = truthy (obj_get ''simulated'' source)\<rparr>)))"

definition cost_of :: "pricing \<Rightarrow> int \<Rightarrow> exn + money" where
  "cost_of p tokens = money_scaled (per_million p) (max 0 tokens) PER_MILLION"

definition tokens_for :: "pricing \<Rightarrow> money \<Rightarrow> int" where
  "tokens_for p amount =
     (if micros (per_million p) \<le> 0 then 0
      else max 0 (micros amount * PER_MILLION div micros (per_million p)))"

definition billable :: "pricing \<Rightarrow> usage \<Rightarrow> exn + int" where
  "billable p u =
     (if use_simulated u \<or> usage_is_empty u then Inr 0
      else if money_is_zero (use_cost u) then Inr (max (minimum_charge p) (use_tokens u))
      else case money_scaled (use_cost u) (10000 + margin_bps p) 10000 of
             Inl e \<Rightarrow> Inl e
           | Inr marked_up \<Rightarrow> Inr (max (minimum_charge p) (tokens_for p marked_up)))"

section \<open>The default catalog\<close>

definition FREE_PLAN_ID :: string where "FREE_PLAN_ID = ''free''"

text \<open>\<^verbatim>\<open>Money.parse\<close> of the literals the module writes; \<open>default_literals\<close> below shows the values.\<close>

definition money_literal :: "string \<Rightarrow> money" where
  "money_literal s = (case money_parse (repr_str s) s of Inr m \<Rightarrow> m | Inl _ \<Rightarrow> Money 0)"

definition FREE_WEEKLY_VALUE :: money where
  "FREE_WEEKLY_VALUE = money_literal ''5.00''"

definition default_pricing :: pricing where
  "default_pricing = \<lparr>per_million = money_literal ''6.00'', margin_bps = 3000, minimum_charge = 1000\<rparr>"

definition default_catalog :: "pricing \<Rightarrow> catalog" where
  "default_catalog p =
     \<lparr>cat_plans =
        [\<lparr>plan_id = FREE_PLAN_ID, plan_name = ''Free'', plan_price = Money 0,
          plan_tokens = tokens_for p FREE_WEEKLY_VALUE, plan_cadence = WEEKLY,
          plan_description = ''US$ '' @ money_str FREE_WEEKLY_VALUE
            @ '' en tokens por semana, sin pagar nada. ''
            @ ''Se renueva solo y no se acumula.'',
          plan_overage = True\<rparr>,
         \<lparr>plan_id = ''starter'', plan_name = ''Starter'', plan_price = money_literal ''19.00'',
          plan_tokens = 4000000, plan_cadence = MONTHLY,
          plan_description = ''Para probar la idea: un proyecto mediano por semana.'',
          plan_overage = True\<rparr>,
         \<lparr>plan_id = ''builder'', plan_name = ''Builder'', plan_price = money_literal ''49.00'',
          plan_tokens = 12000000, plan_cadence = MONTHLY,
          plan_description = ''Uso continuo, varios proyectos en paralelo.'',
          plan_overage = True\<rparr>,
         \<lparr>plan_id = ''studio'', plan_name = ''Studio'', plan_price = money_literal ''149.00'',
          plan_tokens = 40000000, plan_cadence = MONTHLY,
          plan_description = ''Equipos que generan todos los dias.'',
          plan_overage = True\<rparr>],
      cat_packs =
        [\<lparr>pack_id = ''tokens-1m'', pack_name = ''1M tokens'', pack_price = money_literal ''8.00'',
          pack_tokens = 1000000, pack_description = []\<rparr>,
         \<lparr>pack_id = ''tokens-5m'', pack_name = ''5M tokens'', pack_price = money_literal ''35.00'',
          pack_tokens = 5000000, pack_description = []\<rparr>,
         \<lparr>pack_id = ''tokens-20m'', pack_name = ''20M tokens'', pack_price = money_literal ''120.00'',
          pack_tokens = 20000000, pack_description = []\<rparr>],
      cat_pricing = p\<rparr>"

section \<open>Rounding\<close>

lemma quantize_half_up:
  assumes "nat \<bar>c\<bar> < 10 ^ PREC" "e \<le> 0"
  obtains q where "dec_quantize ROUND_HALF_UP 0 c e = Inr q" "sgn q = sgn c \<or> q = 0"
    "2 * \<bar>c\<bar> < (2 * \<bar>q\<bar> + 1) * 10 ^ nat (- e)" "2 * \<bar>q\<bar> * 10 ^ nat (- e) \<le> 2 * \<bar>c\<bar> + 10 ^ nat (- e)"
proof -
  define m where "m = drop_digits ROUND_HALF_UP (nat (- e)) (nat \<bar>c\<bar>)"
  have le: "m \<le> nat \<bar>c\<bar>" unfolding m_def by (rule drop_digits_half_up_le)
  have "dec_quantize ROUND_HALF_UP 0 c e = Inr (sgn c * int m)"
  proof (cases "e = 0")
    case True
    with assms(1) show ?thesis
      using ndigits_le_iff [of PREC "nat \<bar>c\<bar>"] by (simp add: dec_quantize_def m_def PREC_def)
  next
    case False
    with assms le have "ndigits m \<le> PREC"
      using ndigits_le_iff [of PREC m] by (simp add: PREC_def)
    with False assms(2) show ?thesis by (simp add: dec_quantize_def m_def Let_def)
  qed
  moreover have "sgn (sgn c * int m) = sgn c \<or> sgn c * int m = 0"
    by (cases "m = 0") (simp_all add: sgn_mult)
  moreover have abs: "\<bar>sgn c * int m\<bar> = int m"
    using le by (cases "c = 0") (simp_all add: abs_mult)
  moreover have "int (2 * nat \<bar>c\<bar>) < int ((2 * m + 1) * 10 ^ nat (- e))"
    unfolding m_def of_nat_less_iff by (rule drop_digits_half_up)
  then have "2 * \<bar>c\<bar> < (2 * \<bar>sgn c * int m\<bar> + 1) * 10 ^ nat (- e)"
    unfolding abs by (simp add: algebra_simps)
  moreover have "int (2 * m * 10 ^ nat (- e)) \<le> int (2 * nat \<bar>c\<bar> + 10 ^ nat (- e))"
    unfolding m_def of_nat_le_iff by (rule drop_digits_half_up)
  then have "2 * \<bar>sgn c * int m\<bar> * 10 ^ nat (- e) \<le> 2 * \<bar>c\<bar> + 10 ^ nat (- e)"
    unfolding abs by simp
  ultimately show thesis by (intro that [of "sgn c * int m"])
qed

text \<open>\<^verbatim>\<open>Money.parse\<close> rounds half up, once, and never fails on an amount with at most 22 significant
  digits: a text that denotes \<open>c * 10 ^ e\<close> dollars becomes the number of micros closest to it, and a
  tie goes away from zero.\<close>

theorem money_parse_rounds_half_up:
  assumes "decimal_of text = Some (Fin c e)" "\<bar>c\<bar> < 10 ^ 22" "- 1000000 \<le> e" "e \<le> 0"
  shows "\<exists>q. money_parse r text = Inr (Money q) \<and> (sgn q = sgn c \<or> q = 0)
     \<and> (2 * \<bar>q\<bar> - 1) * 10 ^ nat (- e) \<le> 2 * \<bar>c\<bar> * MICROS
     \<and> 2 * \<bar>c\<bar> * MICROS < (2 * \<bar>q\<bar> + 1) * 10 ^ nat (- e)"
proof -
  have small: "nat \<bar>c * MICROS\<bar> < 10 ^ PREC"
    using assms(2) by (simp add: MICROS_def PREC_def abs_mult nat_less_iff)
  then have "ndigits (nat \<bar>c * MICROS\<bar>) \<le> PREC"
    using ndigits_le_iff [of PREC "nat \<bar>c * MICROS\<bar>"] by (simp add: PREC_def)
  then have "dec_mul (Fin c e) (Fin MICROS 0) = Inr (Fin (c * MICROS) e)"
    using small assms(3,4) by (simp add: dec_finish_exact ETINY_def EMAX_def PREC_def)
  moreover obtain q where "dec_quantize ROUND_HALF_UP 0 (c * MICROS) e = Inr q"
      "sgn q = sgn (c * MICROS) \<or> q = 0"
      "2 * \<bar>c * MICROS\<bar> < (2 * \<bar>q\<bar> + 1) * 10 ^ nat (- e)"
      "2 * \<bar>q\<bar> * 10 ^ nat (- e) \<le> 2 * \<bar>c * MICROS\<bar> + 10 ^ nat (- e)"
    by (rule quantize_half_up [OF small assms(4)])
  ultimately show ?thesis
    using assms(1) by (auto simp: money_parse_def MICROS_def abs_mult sgn_mult algebra_simps)
qed

theorem money_parse_rounds_half_up_witness:
  "\<exists>q. money_parse ''x'' ''0.0000015'' = Inr (Money q) \<and> (sgn q = sgn (15::int) \<or> q = 0)
     \<and> (2 * \<bar>q\<bar> - 1) * 10 ^ nat (- (- 7)) \<le> 2 * \<bar>15\<bar> * MICROS
     \<and> 2 * \<bar>15\<bar> * MICROS < (2 * \<bar>q\<bar> + 1) * 10 ^ nat (- (- 7))"
proof (rule money_parse_rounds_half_up)
  show "decimal_of ''0.0000015'' = Some (Fin 15 (- 7))" by code_simp
qed simp_all

section \<open>Printing money\<close>

lemma rstrip_zeros_dot:
  assumes "ip \<noteq> []" "list_all is_digit ip" "list_all is_digit fp"
  defines "f \<equiv> rstrip_char (CHR ''0'') fp"
  shows "rstrip_char (CHR ''.'') (rstrip_char (CHR ''0'') (sg @ ip @ ''.'' @ fp)) =
      sg @ ip @ (if f = [] then [] else ''.'' @ f)"
proof -
  define z where "z = dropWhile (\<lambda>x. x = CHR ''0'') (rev fp)"
  have f: "f = rev z" by (simp add: f_def rstrip_char_def z_def)
  have "rev (sg @ ip @ ''.'' @ fp) = rev fp @ CHR ''.'' # rev (sg @ ip)" by simp
  then have zeros: "rstrip_char (CHR ''0'') (sg @ ip @ ''.'' @ fp) = rev (z @ CHR ''.'' # rev (sg @ ip))"
    by (simp add: rstrip_char_def dropWhile_append3 z_def)
  obtain d ds where ip: "rev ip = d # ds" using assms(1) by (cases "rev ip") auto
  then have "d \<in> set ip" by (metis list.set_intros(1) set_rev)
  with assms(2) have d: "d \<noteq> CHR ''.''" by (auto simp: list_all_iff is_digit_def byte_def)
  show ?thesis
  proof (cases z)
    case Nil
    moreover have "ip = rev ds @ [d]" using ip by (metis rev.simps(2) rev_rev_ident)
    ultimately show ?thesis using zeros f d by (simp add: rstrip_char_def)
  next
    case (Cons x xs)
    then have "x \<in> set fp" unfolding z_def by (metis list.set_intros(1) set_dropWhileD set_rev)
    with assms(3) have "x \<noteq> CHR ''.''" by (auto simp: list_all_iff is_digit_def byte_def)
    with zeros f Cons show ?thesis by (simp add: rstrip_char_def)
  qed
qed

lemma rstrip_char_zeros: "s = rstrip_char c s @ replicate (length s - length (rstrip_char c s)) c"
proof -
  have "rev s = takeWhile (\<lambda>x. x = c) (rev s) @ dropWhile (\<lambda>x. x = c) (rev s)" by simp
  then have "s = rstrip_char c s @ rev (takeWhile (\<lambda>x. x = c) (rev s))"
    by (metis rev_append rev_rev_ident rstrip_char_def)
  moreover have "rev (takeWhile (\<lambda>x. x = c) (rev s)) = replicate (length (takeWhile (\<lambda>x. x = c) (rev s))) c"
    by (metis (mono_tags, lifting) replicate_length_same rev_replicate set_takeWhileD)
  ultimately show ?thesis by (metis add_diff_cancel_left' length_append length_replicate)
qed

text \<open>The text of an amount: a sign, the dollars, and the cents without trailing zeros.\<close>

lemma money_str_shape:
  assumes "\<bar>micros m\<bar> < 10 ^ 22"
  obtains ip f where "money_str m = (if micros m < 0 then ''-'' else []) @ ip @ (if f = [] then [] else ''.'' @ f)"
    "ip \<noteq> []" "list_all is_digit ip" "list_all is_digit f" "length f \<le> 6"
    "nat_of_digits 0 (ip @ f) * 10 ^ (6 - length f) = nat \<bar>micros m\<bar>"
proof -
  define n where "n = nat \<bar>micros m\<bar>"
  define ip fp where "ip = show_nat (n div 1000000)" and "fp = pad_digits 6 (n mod 1000000)"
  define f where "f = rstrip_char (CHR ''0'') fp"
  have n: "n < 10 ^ 22" using assms by (simp add: n_def nat_less_iff)
  then have "n < 10 ^ PREC" by (simp add: PREC_def)
  then have "dec_finish (micros m) (- 6) = Inr (Fin (micros m) (- 6))"
    using ndigits_le_iff [of PREC n]
    by (intro dec_finish_exact) (auto simp: n_def PREC_def ETINY_def EMAX_def)
  then have str: "money_str m =
      (let s = rstrip_char (CHR ''.'') (rstrip_char (CHR ''0'') (format_6f (micros m)))
       in if s = [] then ''0'' else s)"
    by (simp add: money_str_def)
  have ip: "ip \<noteq> []" "list_all is_digit ip"
    by (simp_all add: ip_def show_nat_nonempty show_nat_are_digits)
  have fp: "list_all is_digit fp" "length fp = 6" by (simp_all add: fp_def pad_digits_are_digits)
  have zeros: "fp = f @ replicate (6 - length f) (CHR ''0'')"
    using rstrip_char_zeros [of fp "CHR ''0''"] fp(2) by (simp add: f_def)
  then have f: "list_all is_digit f" "length f \<le> 6"
    using fp by (metis list_all_append, metis length_append le_add1)
  have "format_6f (micros m) = (if micros m < 0 then ''-'' else []) @ ip @ ''.'' @ fp"
    by (simp add: format_6f_def ip_def fp_def n_def)
  then have s: "money_str m = (if micros m < 0 then ''-'' else []) @ ip @ (if f = [] then [] else ''.'' @ f)"
    using rstrip_zeros_dot [OF ip fp(1)] ip(1) by (simp add: str f_def Let_def)
  have "n = nat_of_digits 0 (ip @ fp)"
    using nat_of_pad_digits [of 6 "n mod 1000000"]
    by (simp add: nat_of_digits_append ip_def nat_of_show_nat nat_of_digits_shift [of "n div _"] fp_def)
  also have "\<dots> = nat_of_digits 0 (ip @ f) * 10 ^ (6 - length f)"
    by (subst zeros) (simp add: nat_of_digits_append nat_of_digits_zeros)
  finally show thesis using that [OF s ip f] by (simp add: n_def)
qed

text \<open>Printing an amount and parsing the text gives the amount back, for every amount below
  \<open>10 ^ 22\<close> micros: what a screen or an invoice shows is exactly what the ledger holds.\<close>

theorem money_str_roundtrip:
  assumes "\<bar>micros m\<bar> < 10 ^ 22"
  shows "money_parse r (money_str m) = Inr m"
proof -
  obtain ip f where s: "money_str m = (if micros m < 0 then ''-'' else []) @ ip @ (if f = [] then [] else ''.'' @ f)"
    and ip: "ip \<noteq> []" "list_all is_digit ip" and f: "list_all is_digit f" "length f \<le> 6"
    and total: "nat_of_digits 0 (ip @ f) * 10 ^ (6 - length f) = nat \<bar>micros m\<bar>"
    by (rule money_str_shape [OF assms])
  define M k where "M = nat_of_digits 0 (ip @ f)" and "k = length f"
  have total': "M * 10 ^ (6 - k) = nat \<bar>micros m\<bar>" using total by (simp add: M_def k_def)
  have M: "M < 10 ^ 22"
  proof -
    have "M \<le> M * 10 ^ (6 - k)" by simp
    also have "\<dots> < 10 ^ 22" using assms by (simp add: total' nat_less_iff)
    finally show ?thesis .
  qed
  then have "ndigits M \<le> 22" using ndigits_le_iff [of 22 M] by simp
  then have "dec_representable M (- int k)" using f(2) by (simp add: dec_representable_def k_def)
  then have "decimal_of (money_str m) = Some (Fin ((if micros m < 0 then - 1 else 1) * int M) (- int k))"
    unfolding s M_def k_def by (intro decimal_of_plain ip f(1))
  moreover define c where "c = (if micros m < 0 then - 1 else 1) * int M * MICROS"
  have nc: "nat \<bar>c\<bar> = M * 1000000" by (auto simp: c_def MICROS_def abs_mult nat_mult_distrib)
  have "nat \<bar>c\<bar> < 10 ^ PREC" using M by (simp add: nc PREC_def)
  moreover from this have "ndigits (nat \<bar>c\<bar>) \<le> PREC"
    using ndigits_le_iff [of PREC "nat \<bar>c\<bar>"] by (simp add: PREC_def)
  ultimately have mul: "dec_mul (Fin ((if micros m < 0 then - 1 else 1) * int M) (- int k)) (Fin MICROS 0)
      = Inr (Fin c (- int k))"
    using f(2) by (simp add: dec_finish_exact c_def [symmetric] ETINY_def EMAX_def PREC_def k_def)
  have split: "M * 1000000 = nat \<bar>micros m\<bar> * 10 ^ k"
  proof -
    have "(10::nat) ^ (6 - k) * 10 ^ k = 10 ^ 6" using f(2) by (simp add: k_def flip: power_add)
    then have "M * 10 ^ 6 = M * 10 ^ (6 - k) * 10 ^ k" by (simp only: mult.assoc)
    then show ?thesis by (simp add: total')
  qed
  have small: "ndigits (nat \<bar>micros m\<bar>) \<le> PREC"
    using ndigits_le_iff [of PREC "nat \<bar>micros m\<bar>"] assms by (simp add: PREC_def nat_less_iff)
  have sgn: "sgn c * \<bar>micros m\<bar> = micros m"
  proof (cases "micros m = 0")
    case True
    then show ?thesis by simp
  next
    case False
    with total' have "0 < M" by (cases M) auto
    then show ?thesis by (auto simp: c_def MICROS_def sgn_mult)
  qed
  have "dec_quantize ROUND_HALF_UP 0 c (- int k) = Inr (micros m)"
    using small sgn by (cases "k = 0") (auto simp: dec_quantize_def nc split Let_def)
  with mul \<open>decimal_of (money_str m) = _\<close> show ?thesis by (simp add: money_parse_def del: dec_mul.simps)
qed

theorem money_str_roundtrip_witness:
  "\<bar>micros (Money (- 1230000))\<bar> < 10 ^ 22
   \<and> money_parse [] (money_str (Money (- 1230000))) = Inr (Money (- 1230000))"
  using money_str_roundtrip [of "Money (- 1230000)" "[]"] by simp

section \<open>Pricing\<close>

text \<open>Selling tokens for an amount never sells more than was paid for, and never short-changes by a
  whole token: at list price the tokens are worth at most the amount, and one more would be worth more.\<close>

theorem tokens_for_never_oversells:
  assumes "0 < micros (per_million p)" "0 \<le> micros amount"
  shows "tokens_for p amount * micros (per_million p) \<le> micros amount * PER_MILLION
     \<and> micros amount * PER_MILLION < (tokens_for p amount + 1) * micros (per_million p)
     \<and> 0 \<le> tokens_for p amount"
proof -
  let ?a = "micros amount * PER_MILLION" and ?b = "micros (per_million p)"
  have "0 \<le> ?a div ?b"
    using assms by (simp add: pos_imp_zdiv_nonneg_iff PER_MILLION_def)
  then have t: "tokens_for p amount = ?a div ?b" using assms(1) by (simp add: tokens_for_def)
  have "?a div ?b * ?b + ?a mod ?b = ?a" by (rule div_mult_mod_eq)
  moreover have "0 \<le> ?a mod ?b" "?a mod ?b < ?b" using assms(1) by simp_all
  ultimately show ?thesis
    unfolding t distrib_right using \<open>0 \<le> ?a div ?b\<close> by linarith
qed

theorem tokens_for_never_oversells_witness:
  "(833333::int) * 6000000 \<le> 5000000 * PER_MILLION \<and> 5000000 * PER_MILLION < (833333 + 1) * (6000000::int)"
  using tokens_for_never_oversells [of "\<lparr>per_million = Money 6000000, margin_bps = 0, minimum_charge = 0\<rparr>" "Money 5000000"]
  by (simp add: tokens_for_def PER_MILLION_def)

lemma marked_up_bounds:
  assumes "money_scaled m (10000 + margin) 10000 = Inr marked"
  shows "10000 * micros marked \<le> micros m * (10000 + margin) + 5000"
    and "micros m * (10000 + margin) - 5000 < 10000 * micros marked"
proof -
  define x where "x = micros m * (10000 + margin) + 5000"
  have "micros marked = x div 10000" using assms by (auto simp: money_scaled_def x_def)
  moreover have "x div 10000 * 10000 + x mod 10000 = x" by (rule div_mult_mod_eq)
  moreover have "0 \<le> x mod 10000" "x mod 10000 < 10000" by simp_all
  ultimately show "10000 * micros marked \<le> micros m * (10000 + margin) + 5000"
      and "micros m * (10000 + margin) - 5000 < 10000 * micros marked"
    unfolding x_def by linarith+
qed

text \<open>A run that did real work is charged what it cost, marked up and expressed in tokens: the charge
  is at least the minimum, never falls short of the marked-up cost by a whole token, and above the
  minimum never exceeds it (half a micro is the rounding of the mark-up). The provider's token count
  plays no part.\<close>

theorem billable_covers_cost:
  assumes "\<not> use_simulated u" "\<not> usage_is_empty u" "0 < micros (use_cost u)"
    and "0 < micros (per_million p)" "0 \<le> margin_bps p"
  shows "\<exists>t. billable p u = Inr t \<and> minimum_charge p \<le> t
     \<and> (micros (use_cost u) * (10000 + margin_bps p) - 5000) * PER_MILLION
         < 10000 * ((t + 1) * micros (per_million p))
     \<and> (t = minimum_charge p
        \<or> 10000 * (t * micros (per_million p))
            \<le> (micros (use_cost u) * (10000 + margin_bps p) + 5000) * PER_MILLION)"
proof -
  obtain marked where m: "money_scaled (use_cost u) (10000 + margin_bps p) 10000 = Inr marked"
    by (simp add: money_scaled_def)
  note bounds = marked_up_bounds [OF m]
  define x where "x = micros (use_cost u) * (10000 + margin_bps p)"
  have "10000 \<le> x"
    using mult_mono [of 1 "micros (use_cost u)" 10000 "10000 + margin_bps p"] assms(3,5)
    by (simp add: x_def)
  then have "0 \<le> micros marked" using bounds(2) by (simp add: x_def [symmetric])
  from tokens_for_never_oversells [OF assms(4) this]
  have tok: "tokens_for p marked * micros (per_million p) \<le> micros marked * PER_MILLION"
      "micros marked * PER_MILLION < (tokens_for p marked + 1) * micros (per_million p)"
    by blast+
  have b: "billable p u = Inr (max (minimum_charge p) (tokens_for p marked))"
    using assms(1-3) m by (simp add: billable_def money_is_zero_def)
  let ?t = "max (minimum_charge p) (tokens_for p marked)"
  have "(tokens_for p marked + 1) * micros (per_million p) \<le> (?t + 1) * micros (per_million p)"
    using assms(4) by (intro mult_right_mono) auto
  then have "(x - 5000) * PER_MILLION < 10000 * ((?t + 1) * micros (per_million p))"
    using tok(2) bounds(2) by (simp add: x_def [symmetric] PER_MILLION_def)
  moreover have "?t = minimum_charge p \<or>
      10000 * (?t * micros (per_million p)) \<le> (x + 5000) * PER_MILLION"
    using tok(1) bounds(1) by (auto simp: x_def [symmetric] PER_MILLION_def max_def)
  ultimately show ?thesis using b by (auto simp: x_def)
qed

theorem billable_covers_cost_witness:
  "\<exists>t. billable \<lparr>per_million = Money 6000000, margin_bps = 3000, minimum_charge = 1000\<rparr>
        \<lparr>use_tokens = 9, use_calls = 1, use_cost = Money 12345, use_simulated = False\<rparr> = Inr t \<and> 1000 \<le> t"
  using billable_covers_cost [of "\<lparr>use_tokens = 9, use_calls = 1, use_cost = Money 12345, use_simulated = False\<rparr>"
      "\<lparr>per_million = Money 6000000, margin_bps = 3000, minimum_charge = 1000\<rparr>"]
  by (auto simp: usage_is_empty_def)

section \<open>Reading the agent's report\<close>

lemma int_or_zero_cases:
  "(\<exists>i. int_or_zero v = Inr i \<and> 0 \<le> i) \<or> (int_or_zero v = Inl OverflowError \<and> v \<in> {JFloat PosInf, JFloat NegInf})"
  unfolding int_or_zero_def
  by (cases "py_int v") (auto simp: py_int_overflow_iff split: int_error.splits)

lemma dec_finish_signal: "dec_finish c e = Inl x \<Longrightarrow> \<exists>n. x = DecimalSignal n"
  by (auto simp: dec_finish_def Let_def split: if_splits)

lemma money_parse_errors:
  "money_parse r text = Inl x \<Longrightarrow> x = not_money r \<or> (\<exists>n. x = DecimalSignal n)"
proof -
  assume x: "money_parse r text = Inl x"
  show ?thesis
  proof (cases "decimal_of text")
    case (Some d)
    then show ?thesis
    proof (cases d)
      case (Fin c e)
      with Some x show ?thesis
        by (auto simp: money_parse_def dec_quantize_def Let_def split: sum.splits decimal.splits if_splits
            dest: dec_finish_signal)
    qed (use x Some in \<open>auto simp: money_parse_def\<close>)
  qed (use x in \<open>auto simp: money_parse_def\<close>)
qed

lemma money_or_zero_errors: "money_or_zero v = Inl x \<Longrightarrow> \<exists>n. x = DecimalSignal n"
  by (auto simp: money_or_zero_def not_money_def split: sum.splits if_splits dest!: money_parse_errors)

text \<open>Reading the agent's cost panel gives non-negative counts, and the only exceptions that can come
  out of it are the overflow of \<^verbatim>\<open>int(inf)\<close> and the signals of the decimal context; a missing field, a
  field of the wrong type, a text that is not a number or a panel that is not an object read as zero.\<close>

theorem usage_from_agent_outcomes:
  "(\<exists>u. usage_from_agent panel = Inr u \<and> 0 \<le> use_tokens u \<and> 0 \<le> use_calls u)
   \<or> usage_from_agent panel = Inl OverflowError
   \<or> (\<exists>n. usage_from_agent panel = Inl (DecimalSignal n))"
proof (cases "is_mapping panel")
  case False
  then show ?thesis by (simp add: usage_from_agent_def usage_default_def)
next
  case True
  define src where "src = (if is_mapping (obj_get ''usage'' panel) then obj_get ''usage'' panel else panel)"
  have u: "usage_from_agent panel =
      (case int_or_zero (obj_get ''tokens'' src) of Inl e \<Rightarrow> Inl e | Inr tokens \<Rightarrow>
        (case int_or_zero (obj_get ''calls'' src) of Inl e \<Rightarrow> Inl e | Inr calls \<Rightarrow>
          (case money_or_zero (obj_get ''cost_usd'' src) of Inl e \<Rightarrow> Inl e | Inr cost \<Rightarrow>
             Inr \<lparr>use_tokens = tokens, use_calls = calls, use_cost = cost,
                  use_simulated = truthy (obj_get ''simulated'' src)\<rparr>)))"
    unfolding usage_from_agent_def src_def Let_def using True by simp
  show ?thesis
    using int_or_zero_cases [of "obj_get ''tokens'' src"] int_or_zero_cases [of "obj_get ''calls'' src"]
    unfolding u by (auto split: sum.splits dest: money_or_zero_errors)
qed

text \<open>A malformed report can raise, against the docstring of \<^verbatim>\<open>Usage.from_agent\<close>: a token count that
  JSON reads as infinity raises \<^verbatim>\<open>OverflowError\<close>, and a cost of \<open>1e30\<close> dollars raises the decimal
  context's \<^verbatim>\<open>InvalidOperation\<close>, neither of which \<^verbatim>\<open>_int\<close> and \<^verbatim>\<open>_money\<close> catch.\<close>

theorem usage_report_can_raise:
  "usage_from_agent (JObj [(''usage'', JObj [(''tokens'', JFloat PosInf)])]) = Inl OverflowError
   \<and> usage_from_agent (JObj [(''usage'', JObj [(''cost_usd'', JFloat (Finite ''1e+30'' (10 ^ 30) False))])])
     = Inl (DecimalSignal ''InvalidOperation'')"
proof
  show "usage_from_agent (JObj [(''usage'', JObj [(''tokens'', JFloat PosInf)])]) = Inl OverflowError"
    by (simp add: usage_from_agent_def int_or_zero_def)
  have d: "decimal_of ''1e+30'' = Some (Fin 1 30)" by code_simp
  have "ndigits 1000000 = 7" by (simp add: ndigits_def show_nat.simps)
  then have m: "dec_finish MICROS 30 = Inr (Fin MICROS 30)"
    by (intro dec_finish_exact) (simp_all add: MICROS_def PREC_def ETINY_def EMAX_def)
  have "28 < ndigits (1000000 * 10 ^ 30)"
    using ndigits_le_iff [of 28 "1000000 * 10 ^ 30"] by simp
  then have "dec_quantize ROUND_HALF_UP 0 MICROS 30 = Inl (DecimalSignal ''InvalidOperation'')"
    by (simp add: dec_quantize_def MICROS_def PREC_def)
  with d m show "usage_from_agent (JObj [(''usage'',
      JObj [(''cost_usd'', JFloat (Finite ''1e+30'' (10 ^ 30) False))])]) = Inl (DecimalSignal ''InvalidOperation'')"
    by (simp add: usage_from_agent_def int_or_zero_def money_or_zero_def money_parse_def)
qed

end
