(* ===== verification/Billing_Ledger.thy ===== *)
theory Billing_Ledger
  imports Billing_Money
begin

text \<open>
  The ledger of \<^verbatim>\<open>domain/billing.py\<close>: entries, the balance as a replay of them, and what was used.

  \<open>replay\<close> is the loop of \<open>balance_of\<close> over the two pools; the pools it ends with may hold a debt
  (\<open>purchased\<close> below zero), which \<open>balance_of\<close> settles against the granted pool before clamping. The
  lemmas give the balance in closed form: the total is the sum of the rows, no lower than zero.
\<close>

datatype entry_kind = GRANT | PURCHASE | USAGE | REFUND | ADJUSTMENT | EXPIRY

fun entry_kind_value :: "entry_kind \<Rightarrow> string" where
  "entry_kind_value GRANT = ''grant''"
| "entry_kind_value PURCHASE = ''purchase''"
| "entry_kind_value USAGE = ''usage''"
| "entry_kind_value REFUND = ''refund''"
| "entry_kind_value ADJUSTMENT = ''adjustment''"
| "entry_kind_value EXPIRY = ''expiry''"

definition CREDITS :: "entry_kind set" where
  "CREDITS = {GRANT, PURCHASE, REFUND}"

record ledger_entry =
  le_id :: string
  le_account :: string
  le_kind :: entry_kind
  le_tokens :: int
  le_at :: datetime
  le_amount :: money
  le_reference :: string
  le_memo :: string

record balance =
  bal_account :: string
  bal_granted :: int
  bal_purchased :: int

definition bal_total :: "balance \<Rightarrow> int" where
  "bal_total b = bal_granted b + bal_purchased b"

definition can_afford :: "balance \<Rightarrow> int \<Rightarrow> bool" where
  "can_afford b tokens \<longleftrightarrow> tokens \<le> bal_total b"

definition replay_step :: "ledger_entry \<Rightarrow> int \<times> int \<Rightarrow> int \<times> int" where
  "replay_step entry = (\<lambda>(granted, purchased).
     if le_kind entry = GRANT then (granted + le_tokens entry, purchased)
     else if le_kind entry = EXPIRY then (max 0 (granted + le_tokens entry), purchased)
     else if le_kind entry \<in> CREDITS then (granted, purchased + le_tokens entry)
     else
       let owed = - le_tokens entry; from_grant = min granted owed
       in (granted - from_grant, purchased - (owed - from_grant)))"

definition replay :: "ledger_entry list \<Rightarrow> int \<times> int" where
  "replay entries = fold replay_step entries (0, 0)"

definition settle_pools :: "string \<Rightarrow> int \<times> int \<Rightarrow> balance" where
  "settle_pools account = (\<lambda>(granted, purchased).
     let granted' = (if purchased < 0 then granted + purchased else granted);
         purchased' = (if purchased < 0 then 0 else purchased)
     in \<lparr>bal_account = account, bal_granted = max 0 granted', bal_purchased = max 0 purchased'\<rparr>)"

definition balance_of :: "string \<Rightarrow> ledger_entry list \<Rightarrow> balance" where
  "balance_of account entries = settle_pools account (replay entries)"

record usage_summary =
  sum_tokens :: int
  sum_runs :: int
  sum_cost :: money
  sum_since :: "datetime option"

definition counts_as_usage :: "datetime option \<Rightarrow> ledger_entry \<Rightarrow> bool" where
  "counts_as_usage since entry \<longleftrightarrow>
     le_kind entry = USAGE \<and> (case since of None \<Rightarrow> True | Some t \<Rightarrow> \<not> le_at entry < t)"

fun usage_loop :: "datetime option \<Rightarrow> int \<times> int \<times> money \<Rightarrow> ledger_entry list \<Rightarrow> int \<times> int \<times> money" where
  "usage_loop since acc [] = acc"
| "usage_loop since (tokens, runs, cost) (entry # entries) =
     (if counts_as_usage since entry
      then usage_loop since (tokens + - le_tokens entry, runs + 1, money_add cost (le_amount entry)) entries
      else usage_loop since (tokens, runs, cost) entries)"

definition usage_of :: "ledger_entry list \<Rightarrow> datetime option \<Rightarrow> usage_summary" where
  "usage_of entries since =
     (case usage_loop since (0, 0, Money 0) entries of
        (tokens, runs, cost) \<Rightarrow>
          \<lparr>sum_tokens = tokens, sum_runs = runs, sum_cost = cost, sum_since = since\<rparr>)"

section \<open>Signs\<close>

text \<open>A credit is not negative, a debit is not positive; an adjustment may be either.\<close>

definition well_signed :: "ledger_entry \<Rightarrow> bool" where
  "well_signed entry \<longleftrightarrow>
     (le_kind entry \<in> CREDITS \<longrightarrow> 0 \<le> le_tokens entry)
     \<and> (le_kind entry \<in> {USAGE, EXPIRY} \<longrightarrow> le_tokens entry \<le> 0)"

text \<open>\<open>expiry_within\<close>: no EXPIRY row takes more than the granted pool holds when it is replayed.\<close>

fun expiry_within :: "int \<times> int \<Rightarrow> ledger_entry list \<Rightarrow> bool" where
  "expiry_within pools [] = True"
| "expiry_within pools (entry # entries) =
     ((le_kind entry = EXPIRY \<longrightarrow> 0 \<le> fst pools + le_tokens entry)
      \<and> expiry_within (replay_step entry pools) entries)"

definition token_sum :: "ledger_entry list \<Rightarrow> int" where
  "token_sum entries = sum_list (map le_tokens entries)"

section \<open>Replay\<close>

lemma replay_Nil [simp]: "replay [] = (0, 0)"
  by (simp add: replay_def)

lemma replay_snoc: "replay (es @ [e]) = replay_step e (replay es)"
  by (simp add: replay_def)

lemma replay_step_granted_nonneg:
  "well_signed e \<Longrightarrow> 0 \<le> fst pools \<Longrightarrow> 0 \<le> fst (replay_step e pools)"
  by (cases "le_kind e")
    (auto simp: replay_step_def well_signed_def CREDITS_def Let_def split: prod.splits)

lemma fold_granted_nonneg:
  "list_all well_signed es \<Longrightarrow> 0 \<le> fst pools \<Longrightarrow> 0 \<le> fst (fold replay_step es pools)"
  by (induction es arbitrary: pools) (simp_all add: replay_step_granted_nonneg)

lemma replay_granted_nonneg: "list_all well_signed es \<Longrightarrow> 0 \<le> fst (replay es)"
  unfolding replay_def by (rule fold_granted_nonneg) simp_all

lemma replay_step_sum:
  "(le_kind e = EXPIRY \<longrightarrow> 0 \<le> fst pools + le_tokens e) \<Longrightarrow>
   fst (replay_step e pools) + snd (replay_step e pools) = fst pools + snd pools + le_tokens e"
  by (cases pools) (auto simp: replay_step_def Let_def)

lemma fold_replay_sum:
  "expiry_within pools es \<Longrightarrow>
   fst (fold replay_step es pools) + snd (fold replay_step es pools) = fst pools + snd pools + token_sum es"
proof (induction es arbitrary: pools)
  case Nil
  then show ?case by (simp add: token_sum_def)
next
  case (Cons e es)
  then show ?case using replay_step_sum [of e pools] by (simp add: token_sum_def)
qed

lemma expiry_within_append:
  "expiry_within pools (es @ fs) \<longleftrightarrow> expiry_within pools es \<and> expiry_within (fold replay_step es pools) fs"
  by (induction es arbitrary: pools) auto

lemma settle_total: "0 \<le> fst pools \<Longrightarrow> bal_total (settle_pools a pools) = max 0 (fst pools + snd pools)"
  by (auto simp: settle_pools_def bal_total_def Let_def split: prod.splits)

lemma balance_nonneg: "0 \<le> bal_granted (balance_of a es)" "0 \<le> bal_purchased (balance_of a es)"
  by (auto simp: balance_of_def settle_pools_def Let_def split: prod.splits)

text \<open>The total is the sum of every row, no lower than zero. A debit that overshot is not forgiven: it is
  still in the sum when the next grant arrives.\<close>

lemma total_is_sum:
  assumes "list_all well_signed es" "expiry_within (0, 0) es"
  shows "bal_total (balance_of a es) = max 0 (token_sum es)"
  using settle_total [OF replay_granted_nonneg [OF assms(1)]] fold_replay_sum [OF assms(2)]
  by (simp add: balance_of_def replay_def)

definition sample_entry :: "entry_kind \<Rightarrow> int \<Rightarrow> ledger_entry" where
  "sample_entry k n = \<lparr>le_id = [], le_account = ''GA'', le_kind = k, le_tokens = n, le_at = 0,
     le_amount = Money 0, le_reference = [], le_memo = []\<rparr>"

text \<open>A debit is taken from the granted pool first and from the purchased pool for the rest: from an
  account with no debt, granted falls to no less than zero, and only what it could not cover comes out
  of what was bought.\<close>

theorem debit_spends_grant_first:
  assumes "list_all well_signed es" "0 \<le> snd (replay es)" "le_kind e = USAGE" "le_tokens e = - n" "0 \<le> n"
  shows "bal_granted (balance_of a (es @ [e])) = max 0 (bal_granted (balance_of a es) - n)
     \<and> bal_purchased (balance_of a (es @ [e]))
       = max 0 (bal_purchased (balance_of a es) - max 0 (n - bal_granted (balance_of a es)))"
proof -
  obtain g p where gp: "replay es = (g, p)" by fastforce
  with replay_granted_nonneg [OF assms(1)] assms(2) have "0 \<le> g" "0 \<le> p" by auto
  with gp assms(3-5) show ?thesis
    by (auto simp: balance_of_def replay_snoc replay_step_def settle_pools_def CREDITS_def Let_def)
qed

theorem debit_spends_grant_first_witness:
  "bal_granted (balance_of ''GA'' ([sample_entry GRANT 50, sample_entry PURCHASE 40] @ [sample_entry USAGE (- 70)])) = 0
   \<and> bal_purchased (balance_of ''GA'' ([sample_entry GRANT 50, sample_entry PURCHASE 40] @ [sample_entry USAGE (- 70)])) = 20"
  using debit_spends_grant_first [of "[sample_entry GRANT 50, sample_entry PURCHASE 40]" "sample_entry USAGE (- 70)" 70 "''GA''"]
  by (simp add: sample_entry_def well_signed_def CREDITS_def replay_def replay_step_def balance_of_def settle_pools_def)

text \<open>The row \<^verbatim>\<open>_expire_grant\<close> writes empties the granted pool and touches nothing else.\<close>

lemma expiry_clears_grant:
  assumes "list_all well_signed es" "le_kind e = EXPIRY" "le_tokens e = - bal_granted (balance_of a es)"
  shows "bal_granted (balance_of a (es @ [e])) = 0"
    and "bal_purchased (balance_of a (es @ [e])) = bal_purchased (balance_of a es)"
    and "0 \<le> fst (replay es) + le_tokens e"
proof -
  obtain g p where gp: "replay es = (g, p)" by fastforce
  with replay_granted_nonneg [OF assms(1)] have "0 \<le> g" by simp
  with gp assms(2,3)
  show "bal_granted (balance_of a (es @ [e])) = 0"
      and "bal_purchased (balance_of a (es @ [e])) = bal_purchased (balance_of a es)"
      and "0 \<le> fst (replay es) + le_tokens e"
    by (auto simp: balance_of_def replay_snoc replay_step_def settle_pools_def Let_def)
qed

lemma grant_adds:
  assumes "list_all well_signed es" "le_kind e = GRANT" "0 \<le> snd (replay es)"
  shows "bal_granted (balance_of a (es @ [e])) = max 0 (bal_granted (balance_of a es) + le_tokens e)"
proof -
  obtain g p where gp: "replay es = (g, p)" by fastforce
  with replay_granted_nonneg [OF assms(1)] assms(3) have "0 \<le> g" "0 \<le> p" by auto
  with gp assms(2) show ?thesis
    by (auto simp: balance_of_def replay_snoc replay_step_def settle_pools_def Let_def)
qed

section \<open>Usage\<close>

lemma usage_loop_sum:
  "usage_loop since (t, r, c) es =
     (t + sum_list (map (\<lambda>e. - le_tokens e) (filter (counts_as_usage since) es)),
      r + int (length (filter (counts_as_usage since) es)),
      Money (micros c + sum_list (map (micros \<circ> le_amount) (filter (counts_as_usage since) es))))"
proof (induction es arbitrary: t r c)
  case Nil
  then show ?case by simp
next
  case (Cons e es)
  then show ?case by (cases "counts_as_usage since e") (auto simp: money_add_def)
qed

lemma counts_as_usage_None: "counts_as_usage None = (\<lambda>e. le_kind e = USAGE)"
  by (simp add: counts_as_usage_def fun_eq_iff)

lemma counts_as_usage_Some: "counts_as_usage (Some t) = (\<lambda>e. le_kind e = USAGE \<and> \<not> le_at e < t)"
  by (simp add: counts_as_usage_def fun_eq_iff)

lemma sum_list_filter_split:
  fixes f :: "'a \<Rightarrow> int"
  shows "sum_list (map f (filter P xs)) =
     sum_list (map f (filter (\<lambda>x. P x \<and> Q x) xs)) + sum_list (map f (filter (\<lambda>x. P x \<and> \<not> Q x) xs))"
  by (induction xs) auto

text \<open>What was used in a window and what was used before it add up to what was ever used, and
  expiries, grants and purchases never count: the lifetime total is the windowed total plus the debits
  of the runs before the window.\<close>

theorem usage_window_splits:
  "sum_tokens (usage_of es None) =
     sum_tokens (usage_of es (Some t))
     + sum_list (map (\<lambda>e. - le_tokens e) (filter (\<lambda>e. le_kind e = USAGE \<and> le_at e < t) es))
   \<and> sum_runs (usage_of es None) =
     sum_runs (usage_of es (Some t)) + int (length (filter (\<lambda>e. le_kind e = USAGE \<and> le_at e < t) es))"
proof -
  have "sum_list (map (\<lambda>e. - le_tokens e) (filter (counts_as_usage None) es)) =
      sum_list (map (\<lambda>e. - le_tokens e) (filter (counts_as_usage (Some t)) es))
      + sum_list (map (\<lambda>e. - le_tokens e) (filter (\<lambda>e. le_kind e = USAGE \<and> le_at e < t) es))"
    unfolding counts_as_usage_None counts_as_usage_Some
    by (subst sum_list_filter_split [where Q = "\<lambda>e. \<not> le_at e < t"]) simp
  moreover have "length (filter (counts_as_usage None) es) =
      length (filter (counts_as_usage (Some t)) es) + length (filter (\<lambda>e. le_kind e = USAGE \<and> le_at e < t) es)"
    by (induction es) (auto simp: counts_as_usage_def)
  ultimately show ?thesis by (simp add: usage_of_def usage_loop_sum)
qed

end
