(* ===== verification/Billing_Invoices.thy ===== *)
theory Billing_Invoices
  imports Billing_Ledger
begin

text \<open>
  Subscriptions, invoices and observed payments of \<^verbatim>\<open>domain/billing.py\<close>.

  A time past the year 9999 is not modelled: \<^verbatim>\<open>now + period\<close> is plain addition here, and the clock
  is a wall clock. \<open>settles\<close> is the comparison that turns a payment seen on the network into a paid
  invoice; it is modelled with the decimal arithmetic it uses, exceptions included.
\<close>

section \<open>Subscriptions\<close>

datatype subscription_status = SUB_ACTIVE | SUB_EXPIRED | SUB_CANCELLED

fun subscription_status_value :: "subscription_status \<Rightarrow> string" where
  "subscription_status_value SUB_ACTIVE = ''active''"
| "subscription_status_value SUB_EXPIRED = ''expired''"
| "subscription_status_value SUB_CANCELLED = ''cancelled''"

record subscription =
  sub_account :: string
  sub_plan_id :: string
  sub_started_at :: datetime
  sub_renews_at :: datetime
  sub_status :: subscription_status

definition subscription_begin :: "string \<Rightarrow> plan \<Rightarrow> datetime \<Rightarrow> subscription" where
  "subscription_begin account p now =
     \<lparr>sub_account = account, sub_plan_id = plan_id p, sub_started_at = now,
      sub_renews_at = now + plan_period p, sub_status = SUB_ACTIVE\<rparr>"

definition sub_is_active :: "subscription \<Rightarrow> datetime \<Rightarrow> bool" where
  "sub_is_active s now \<longleftrightarrow> sub_status s = SUB_ACTIVE \<and> now < sub_renews_at s"

definition sub_due :: "subscription \<Rightarrow> datetime \<Rightarrow> bool" where
  "sub_due s now \<longleftrightarrow> sub_status s = SUB_ACTIVE \<and> sub_renews_at s \<le> now"

definition sub_renewed :: "subscription \<Rightarrow> plan \<Rightarrow> datetime \<Rightarrow> subscription" where
  "sub_renewed s p now =
     s\<lparr>sub_started_at := now, sub_renews_at := now + plan_period p, sub_status := SUB_ACTIVE\<rparr>"

definition sub_ended :: "subscription \<Rightarrow> subscription" where
  "sub_ended s = s\<lparr>sub_status := SUB_EXPIRED\<rparr>"

definition sub_cancelled :: "subscription \<Rightarrow> subscription" where
  "sub_cancelled s = s\<lparr>sub_status := SUB_CANCELLED\<rparr>"

definition period_key :: "subscription \<Rightarrow> string" where
  "period_key s = sub_plan_id s @ '':'' @ isoformat (sub_renews_at s)"

section \<open>Invoices\<close>

datatype invoice_status = INV_PENDING | INV_PAID | INV_EXPIRED | INV_CANCELLED

fun invoice_status_value :: "invoice_status \<Rightarrow> string" where
  "invoice_status_value INV_PENDING = ''pending''"
| "invoice_status_value INV_PAID = ''paid''"
| "invoice_status_value INV_EXPIRED = ''expired''"
| "invoice_status_value INV_CANCELLED = ''cancelled''"

definition INVOICE_TTL :: timedelta where
  "INVOICE_TTL = td_minutes 30"

record invoice =
  inv_id :: string
  inv_account :: string
  inv_sku :: string
  inv_tokens :: int
  inv_price :: money
  inv_asset :: string
  inv_amount :: string
  inv_destination :: string
  inv_created_at :: datetime
  inv_expires_at :: datetime
  inv_status :: invoice_status
  inv_kind :: string
  inv_tx_hash :: string
  inv_payer :: string

definition inv_memo :: "invoice \<Rightarrow> string" where
  "inv_memo i = inv_id i"

definition inv_is_open :: "invoice \<Rightarrow> datetime \<Rightarrow> bool" where
  "inv_is_open i now \<longleftrightarrow> inv_status i = INV_PENDING \<and> now < inv_expires_at i"

definition inv_paid :: "invoice \<Rightarrow> string \<Rightarrow> string \<Rightarrow> invoice" where
  "inv_paid i tx_hash payer = i\<lparr>inv_status := INV_PAID, inv_tx_hash := tx_hash, inv_payer := payer\<rparr>"

definition inv_expired :: "invoice \<Rightarrow> invoice" where
  "inv_expired i = i\<lparr>inv_status := INV_EXPIRED\<rparr>"

text \<open>\<^verbatim>\<open>"cz" + secrets.token_hex(11)\<close>; the hex digits are the argument.\<close>

definition new_invoice_id :: "string \<Rightarrow> string" where
  "new_invoice_id token_hex_11 = ''cz'' @ token_hex_11"

section \<open>Observed payments\<close>

record observed_payment =
  pay_tx_hash :: string
  pay_payer :: string
  pay_destination :: string
  pay_asset :: string
  pay_amount :: string
  pay_memo :: string
  pay_at :: datetime

text \<open>\<^verbatim>\<open>Decimal(10_000 - tolerance_bps) / Decimal(10_000)\<close> is exact: four decimals.\<close>

definition settles :: "observed_payment \<Rightarrow> invoice \<Rightarrow> int \<Rightarrow> exn + bool" where
  "settles p i tolerance_bps =
     (if pay_memo p \<noteq> inv_memo i \<or> pay_destination p \<noteq> inv_destination i then Inr False
      else if upper (pay_asset p) \<noteq> upper (inv_asset i) then Inr False
      else
        (case decimal_of (pay_amount p) of
           None \<Rightarrow> Inr False
         | Some paid \<Rightarrow>
             (case decimal_of (inv_amount i) of
                None \<Rightarrow> Inr False
              | Some owed \<Rightarrow>
                  (case dec_mul owed (Fin (10000 - tolerance_bps) (- 4)) of
                     Inl x \<Rightarrow> Inl x
                   | Inr least \<Rightarrow> dec_ge paid least))))"

definition TOLERANCE_BPS :: int where
  "TOLERANCE_BPS = 100"

section \<open>Facts\<close>

lemma sub_active_or_due: "sub_status s = SUB_ACTIVE \<Longrightarrow> sub_is_active s now \<noteq> sub_due s now"
  by (auto simp: sub_is_active_def sub_due_def)

lemma plan_period_pos: "0 < plan_period p"
  by (cases "plan_cadence p") (simp_all add: plan_period_def PERIODS_def WEEK_def MONTH_def td_days_def)

lemma begin_is_active: "sub_is_active (subscription_begin a p now) now"
  by (simp add: sub_is_active_def subscription_begin_def plan_period_pos)

lemma renewed_is_active: "sub_is_active (sub_renewed s p now) now"
  by (simp add: sub_is_active_def sub_renewed_def plan_period_pos)

lemma colon_free_prefix:
  "CHR '':'' \<notin> set p \<Longrightarrow> CHR '':'' \<notin> set q \<Longrightarrow> p @ '':'' @ s = q @ '':'' @ t \<Longrightarrow> p = q \<and> s = t"
proof (induction p arbitrary: q)
  case Nil
  then show ?case by (cases q) auto
next
  case (Cons c p)
  then show ?case by (cases q) auto
qed

text \<open>A period key names one plan and one end of period, nothing else: not the account.\<close>

lemma period_key_inj:
  assumes "CHR '':'' \<notin> set (sub_plan_id s)" "CHR '':'' \<notin> set (sub_plan_id t)"
    and "dt_ok (sub_renews_at s)" "dt_ok (sub_renews_at t)"
  shows "period_key s = period_key t \<longleftrightarrow> sub_plan_id s = sub_plan_id t \<and> sub_renews_at s = sub_renews_at t"
proof
  assume "period_key s = period_key t"
  then have "sub_plan_id s = sub_plan_id t \<and> isoformat (sub_renews_at s) = isoformat (sub_renews_at t)"
    unfolding period_key_def by (rule colon_free_prefix [OF assms(1,2)])
  with isoformat_inj [OF assms(3,4)]
  show "sub_plan_id s = sub_plan_id t \<and> sub_renews_at s = sub_renews_at t" by simp
qed (simp add: period_key_def)

lemma fin_le_scale:
  "fin_le a e b f \<longleftrightarrow> a * 10 ^ nat (e - k) \<le> b * 10 ^ nat (f - k)" if "k \<le> e" "k \<le> f"
proof -
  define m where "m = nat (min e f - k)"
  have "nat (e - k) = nat (e - min e f) + m" "nat (f - k) = nat (f - min e f) + m"
    using that by (auto simp: m_def)
  then have "a * 10 ^ nat (e - k) = (a * 10 ^ nat (e - min e f)) * 10 ^ m"
      and "b * 10 ^ nat (f - k) = (b * 10 ^ nat (f - min e f)) * 10 ^ m"
    by (simp_all add: power_add)
  then show ?thesis by (simp only: fin_le_def) simp
qed

text \<open>An amount with seven decimals, the way Stellar prints one: a number of stroops.\<close>

definition stroops_text :: "nat \<Rightarrow> string" where
  "stroops_text n = show_nat (n div 10 ^ 7) @ ''.'' @ pad_digits 7 (n mod 10 ^ 7)"

lemma nat_of_digits_stroops: "nat_of_digits 0 (show_nat (n div 10 ^ 7) @ pad_digits 7 (n mod 10 ^ 7)) = n"
proof -
  have "nat_of_digits (n div 10 ^ 7) (pad_digits 7 (n mod 10 ^ 7)) = n div 10 ^ 7 * 10 ^ 7 + n mod 10 ^ 7"
    using nat_of_digits_shift [of "n div 10 ^ 7" "pad_digits 7 (n mod 10 ^ 7)"]
    by (simp only: length_pad_digits nat_of_pad_digits mod_mod_trivial)
  then show ?thesis by (simp only: nat_of_digits_append nat_of_show_nat div_mult_mod_eq)
qed

lemma decimal_of_stroops:
  assumes "n < 10 ^ 26"
  shows "decimal_of (stroops_text n) = Some (Fin (int n) (- 7))"
proof -
  have "ndigits n \<le> 26" using assms ndigits_le_iff [of 26 n] by simp
  then have "dec_representable n (- 7)" by (simp add: dec_representable_def)
  moreover have "pad_digits 7 (n mod 10 ^ 7) \<noteq> []"
    using length_pad_digits [of 7 "n mod 10 ^ 7"] by (metis list.size(3) zero_neq_numeral)
  ultimately show ?thesis
    using decimal_of_plain [of "show_nat (n div 10 ^ 7)" "pad_digits 7 (n mod 10 ^ 7)" False]
    unfolding stroops_text_def nat_of_digits_stroops length_pad_digits
    by (simp only: if_False append_Nil show_nat_nonempty show_nat_are_digits pad_digits_are_digits
        of_nat_numeral mult_1 simp_thms)
qed

lemma dec_mul_tolerance:
  assumes "n < 10 ^ 24"
  shows "dec_mul (Fin (int n) (- 7)) (Fin (10000 - TOLERANCE_BPS) (- 4)) = Inr (Fin (int (n * 9900)) (- 11))"
proof -
  have "n * 9900 < 10 ^ 28" using assms by simp
  moreover from this have "ndigits (n * 9900) \<le> 28" using ndigits_le_iff [of 28 "n * 9900"] by simp
  ultimately show ?thesis
    using dec_finish_exact [of "int (n * 9900)" "- 11"]
    by (simp add: TOLERANCE_BPS_def PREC_def ETINY_def EMAX_def nat_mult_distrib)
qed

lemma settles_stroops:
  assumes "pay_amount p = stroops_text m" "inv_amount i = stroops_text n" "m < 10 ^ 24" "n < 10 ^ 24"
  shows "settles p i TOLERANCE_BPS =
     Inr (pay_memo p = inv_id i \<and> pay_destination p = inv_destination i
          \<and> upper (pay_asset p) = upper (inv_asset i) \<and> 99 * n \<le> 100 * m)"
proof -
  have "fin_le (int (n * 9900)) (- 11) (int m) (- 7) \<longleftrightarrow> 99 * n \<le> 100 * m"
    using fin_le_scale [of "- 11" "- 11" "- 7" "int (n * 9900)" "int m"] by auto
  moreover have "decimal_of (stroops_text m) = Some (Fin (int m) (- 7))"
      "decimal_of (stroops_text n) = Some (Fin (int n) (- 7))"
    using assms(3,4) by (auto intro!: decimal_of_stroops)
  ultimately show ?thesis
    unfolding settles_def assms(1,2) inv_memo_def
    by (auto simp: dec_mul_tolerance [OF assms(4)] simp del: dec_mul.simps)
qed

text \<open>C29. A payment settles an invoice exactly when the memo, the destination and the asset (case aside) are
  the invoice's and the amount is at least 99% of what was asked, compared exactly and without raising,
  for every amount the network can express (a whole number of stroops, printed with seven decimals).\<close>

theorem settles_exactly:
  assumes "pay_amount p = stroops_text m" "inv_amount i = stroops_text n" "m < 10 ^ 24" "n < 10 ^ 24"
  shows "settles p i TOLERANCE_BPS =
     Inr (pay_memo p = inv_id i \<and> pay_destination p = inv_destination i
          \<and> upper (pay_asset p) = upper (inv_asset i) \<and> 99 * n \<le> 100 * m)"
  using assms by (rule settles_stroops)

definition sample_invoice :: invoice where
  "sample_invoice = \<lparr>inv_id = ''cz01'', inv_account = ''GA'', inv_sku = ''tokens-1m'', inv_tokens = 1000000,
     inv_price = Money 8000000, inv_asset = ''XLM'', inv_amount = ''80.0000000'', inv_destination = ''GD'',
     inv_created_at = 0, inv_expires_at = INVOICE_TTL, inv_status = INV_PENDING, inv_kind = ''pack'',
     inv_tx_hash = [], inv_payer = []\<rparr>"

definition sample_payment :: "string \<Rightarrow> observed_payment" where
  "sample_payment amount = \<lparr>pay_tx_hash = ''ab'', pay_payer = ''GB'', pay_destination = ''GD'',
     pay_asset = ''xlm'', pay_amount = amount, pay_memo = ''cz01'', pay_at = 5\<rparr>"

theorem settles_exactly_witness:
  "settles (sample_payment ''79.2000000'') sample_invoice TOLERANCE_BPS = Inr True"
proof -
  have "stroops_text 792000000 = ''79.2000000''" "stroops_text 800000000 = ''80.0000000''"
    by (simp_all add: stroops_text_def show_nat.simps pad_digits_numeral digit_char_def char_of_def bit_0)
  moreover have "upper ''xlm'' = upper ''XLM''" by code_simp
  ultimately show ?thesis
    using settles_exactly [of "sample_payment ''79.2000000''" 792000000 sample_invoice 800000000]
    by (simp add: sample_payment_def sample_invoice_def)
qed

lemma sample_payment_settles: "settles (sample_payment ''80.0000000'') sample_invoice TOLERANCE_BPS = Inr True"
proof -
  have "stroops_text 800000000 = ''80.0000000''"
    by (simp add: stroops_text_def show_nat.simps pad_digits_numeral digit_char_def char_of_def bit_0)
  moreover have "upper ''xlm'' = upper ''XLM''" by code_simp
  ultimately show ?thesis
    using settles_stroops [of "sample_payment ''80.0000000''" 800000000 sample_invoice 800000000]
    by (simp add: sample_payment_def sample_invoice_def)
qed

end
