(* ===== verification/Sqlite_Store.thy ===== *)
theory Sqlite_Store
  imports Billing_Invoices "HOL-Library.List_Lexorder" "HOL-Library.Char_ord" "HOL-Library.Multiset"
begin

text \<open>
  \<^verbatim>\<open>infrastructure/billing/sqlite_store.py\<close>: the ledger, the invoices and the subscriptions as the rows
  of three tables.

  A row holds what SQLite holds: a time as ISO text, an enum as its value, money as an integer of 64
  bits. Every call of the store runs under one lock and commits before it returns, so one call is one
  step on the tables. The tables are a record that other state extends, so that the services can put
  their clock beside them. The unique indexes of the schema are part of \<open>INSERT\<close>.

  The locale \<open>billing_store\<close> is the port (\<^verbatim>\<open>domain/ports.py\<close>): what the billing service may rely on. The
  tables are shown to be an instance of it.
\<close>

record ledger_row =
  lr_seq :: nat
  lr_id :: string
  lr_account :: string
  lr_kind :: string
  lr_tokens :: int
  lr_amount :: int
  lr_at :: string
  lr_reference :: string
  lr_memo :: string

record invoice_row =
  ir_id :: string
  ir_account :: string
  ir_sku :: string
  ir_kind :: string
  ir_tokens :: int
  ir_price :: int
  ir_asset :: string
  ir_amount :: string
  ir_destination :: string
  ir_created_at :: string
  ir_expires_at :: string
  ir_status :: string
  ir_tx_hash :: string
  ir_payer :: string

record subscription_row =
  sr_account :: string
  sr_plan_id :: string
  sr_started_at :: string
  sr_renews_at :: string
  sr_status :: string

record db =
  db_seq :: nat
  db_ledger :: "ledger_row list"
  db_invoices :: "invoice_row list"
  db_subscriptions :: "subscription_row list"

section \<open>Rows and values\<close>

text \<open>\<^verbatim>\<open>EntryKind(text)\<close> and its like raise \<^verbatim>\<open>ValueError\<close> on a text that is no member's value.\<close>

definition not_valid :: "string \<Rightarrow> string \<Rightarrow> exn" where
  "not_valid text enum = ValueError (repr_str text @ '' is not a valid '' @ enum)"

definition entry_kind_of :: "string \<Rightarrow> exn + entry_kind" where
  "entry_kind_of text =
     (case find (\<lambda>k. entry_kind_value k = text) [GRANT, PURCHASE, USAGE, REFUND, ADJUSTMENT, EXPIRY] of
        None \<Rightarrow> Inl (not_valid text ''EntryKind'') | Some k \<Rightarrow> Inr k)"

definition invoice_status_of :: "string \<Rightarrow> exn + invoice_status" where
  "invoice_status_of text =
     (case find (\<lambda>k. invoice_status_value k = text) [INV_PENDING, INV_PAID, INV_EXPIRED, INV_CANCELLED] of
        None \<Rightarrow> Inl (not_valid text ''InvoiceStatus'') | Some k \<Rightarrow> Inr k)"

definition subscription_status_of :: "string \<Rightarrow> exn + subscription_status" where
  "subscription_status_of text =
     (case find (\<lambda>k. subscription_status_value k = text) [SUB_ACTIVE, SUB_EXPIRED, SUB_CANCELLED] of
        None \<Rightarrow> Inl (not_valid text ''SubscriptionStatus'') | Some k \<Rightarrow> Inr k)"

text \<open>\<^verbatim>\<open>_time\<close>: a text without an offset is read as UTC, which is what \<open>fromisoformat\<close> does here.\<close>

definition time_of :: "string \<Rightarrow> exn + datetime" where
  "time_of text =
     (case fromisoformat text of
        None \<Rightarrow> Inl (ValueError (''Invalid isoformat string: '' @ repr_str text))
      | Some t \<Rightarrow> Inr t)"

definition bind_sum :: "'e + 'a \<Rightarrow> ('a \<Rightarrow> 'e + 'b) \<Rightarrow> 'e + 'b" where
  "bind_sum r f = (case r of Inl e \<Rightarrow> Inl e | Inr x \<Rightarrow> f x)"

fun traverse :: "('a \<Rightarrow> 'e + 'b) \<Rightarrow> 'a list \<Rightarrow> 'e + 'b list" where
  "traverse f [] = Inr []"
| "traverse f (x # xs) = bind_sum (f x) (\<lambda>y. bind_sum (traverse f xs) (\<lambda>ys. Inr (y # ys)))"

definition entry_of_row :: "ledger_row \<Rightarrow> exn + ledger_entry" where
  "entry_of_row row =
     bind_sum (entry_kind_of (lr_kind row)) (\<lambda>kind.
     bind_sum (time_of (lr_at row)) (\<lambda>at.
       Inr \<lparr>le_id = lr_id row, le_account = lr_account row, le_kind = kind, le_tokens = lr_tokens row,
            le_at = at, le_amount = Money (lr_amount row), le_reference = lr_reference row,
            le_memo = lr_memo row\<rparr>))"

definition row_of_entry :: "nat \<Rightarrow> ledger_entry \<Rightarrow> ledger_row" where
  "row_of_entry seq e =
     \<lparr>lr_seq = seq, lr_id = le_id e, lr_account = le_account e, lr_kind = entry_kind_value (le_kind e),
      lr_tokens = le_tokens e, lr_amount = micros (le_amount e), lr_at = isoformat (le_at e),
      lr_reference = le_reference e, lr_memo = le_memo e\<rparr>"

definition invoice_of_row :: "invoice_row \<Rightarrow> exn + invoice" where
  "invoice_of_row row =
     bind_sum (time_of (ir_created_at row)) (\<lambda>created.
     bind_sum (time_of (ir_expires_at row)) (\<lambda>expires.
     bind_sum (invoice_status_of (ir_status row)) (\<lambda>status.
       Inr \<lparr>inv_id = ir_id row, inv_account = ir_account row, inv_sku = ir_sku row,
            inv_tokens = ir_tokens row, inv_price = Money (ir_price row), inv_asset = ir_asset row,
            inv_amount = ir_amount row, inv_destination = ir_destination row, inv_created_at = created,
            inv_expires_at = expires, inv_status = status, inv_kind = ir_kind row,
            inv_tx_hash = ir_tx_hash row, inv_payer = ir_payer row\<rparr>)))"

definition row_of_invoice :: "invoice \<Rightarrow> invoice_row" where
  "row_of_invoice i =
     \<lparr>ir_id = inv_id i, ir_account = inv_account i, ir_sku = inv_sku i, ir_kind = inv_kind i,
      ir_tokens = inv_tokens i, ir_price = micros (inv_price i), ir_asset = inv_asset i,
      ir_amount = inv_amount i, ir_destination = inv_destination i,
      ir_created_at = isoformat (inv_created_at i), ir_expires_at = isoformat (inv_expires_at i),
      ir_status = invoice_status_value (inv_status i), ir_tx_hash = inv_tx_hash i,
      ir_payer = inv_payer i\<rparr>"

definition subscription_of_row :: "subscription_row \<Rightarrow> exn + subscription" where
  "subscription_of_row row =
     bind_sum (time_of (sr_started_at row)) (\<lambda>started.
     bind_sum (time_of (sr_renews_at row)) (\<lambda>renews.
     bind_sum (subscription_status_of (sr_status row)) (\<lambda>status.
       Inr \<lparr>sub_account = sr_account row, sub_plan_id = sr_plan_id row, sub_started_at = started,
            sub_renews_at = renews, sub_status = status\<rparr>)))"

definition row_of_subscription :: "subscription \<Rightarrow> subscription_row" where
  "row_of_subscription s =
     \<lparr>sr_account = sub_account s, sr_plan_id = sub_plan_id s, sr_started_at = isoformat (sub_started_at s),
      sr_renews_at = isoformat (sub_renews_at s), sr_status = subscription_status_value (sub_status s)\<rparr>"

section \<open>Statements\<close>

text \<open>An integer that does not fit 64 bits cannot be bound to a statement: \<^verbatim>\<open>OverflowError\<close>.\<close>

definition sqlite_int :: "int \<Rightarrow> bool" where
  "sqlite_int i \<longleftrightarrow> - (2 ^ 63) \<le> i \<and> i < 2 ^ 63"

definition insert_ledger :: "ledger_entry \<Rightarrow> ('w db_scheme, exn, unit) gw" where
  "insert_ledger e = (\<lambda>d.
     if \<not> sqlite_int (le_tokens e) \<or> \<not> sqlite_int (micros (le_amount e)) then (Inl OverflowError, d)
     else if le_id e \<in> set (map lr_id (db_ledger d))
        \<or> le_reference e \<noteq> [] \<and> le_reference e \<in> set (map lr_reference (db_ledger d))
       then (Inl IntegrityError, d)
     else (Inr (), d\<lparr>db_seq := db_seq d + 1,
                     db_ledger := db_ledger d @ [row_of_entry (db_seq d + 1) e]\<rparr>))"

definition select_reference :: "string \<Rightarrow> ('w db_scheme, exn, ledger_row option) gw" where
  "select_reference ref =
     gets_gw (\<lambda>d. find (\<lambda>r. lr_reference r = ref \<and> lr_reference r \<noteq> []) (db_ledger d))"

definition store_append :: "ledger_entry \<Rightarrow> ('w db_scheme, exn, ledger_entry) gw" where
  "store_append e =
     catch_gw (then_gw (insert_ledger e) (return_gw e))
       (\<lambda>x. if x \<noteq> IntegrityError then raise_gw x
            else bind_gw (select_reference (le_reference e)) (\<lambda>existing.
              case existing of None \<Rightarrow> raise_gw x | Some row \<Rightarrow> lift_gw (entry_of_row row)))"

definition account_rows :: "string \<Rightarrow> 'w db_scheme \<Rightarrow> ledger_row list" where
  "account_rows account d = sort_key lr_seq (filter (\<lambda>r. lr_account r = account) (db_ledger d))"

definition store_entries :: "string \<Rightarrow> int \<Rightarrow> ('w db_scheme, exn, ledger_entry list) gw" where
  "store_entries account limit =
     bind_gw (gets_gw (\<lambda>d. sort_key lr_seq (take (nat (max 1 limit)) (rev (account_rows account d)))))
       (\<lambda>rows. lift_gw (traverse entry_of_row rows))"

definition store_all_entries :: "string \<Rightarrow> ('w db_scheme, exn, ledger_entry list) gw" where
  "store_all_entries account =
     bind_gw (gets_gw (account_rows account)) (\<lambda>rows. lift_gw (traverse entry_of_row rows))"

text \<open>The upsert of \<^verbatim>\<open>put_invoice\<close> sets three columns of the row that is there.\<close>

definition upsert_invoice :: "invoice_row \<Rightarrow> invoice_row list \<Rightarrow> invoice_row list" where
  "upsert_invoice new rows =
     (if ir_id new \<in> set (map ir_id rows)
      then map (\<lambda>r. if ir_id r = ir_id new
                    then r\<lparr>ir_status := ir_status new, ir_tx_hash := ir_tx_hash new,
                           ir_payer := ir_payer new\<rparr>
                    else r) rows
      else rows @ [new])"

definition store_put_invoice :: "invoice \<Rightarrow> ('w db_scheme, exn, invoice) gw" where
  "store_put_invoice i = (\<lambda>d.
     if \<not> sqlite_int (inv_tokens i) \<or> \<not> sqlite_int (micros (inv_price i)) then (Inl OverflowError, d)
     else (Inr i, d\<lparr>db_invoices := upsert_invoice (row_of_invoice i) (db_invoices d)\<rparr>))"

definition store_invoice :: "string \<Rightarrow> ('w db_scheme, exn, invoice option) gw" where
  "store_invoice invoice_id =
     bind_gw (gets_gw (\<lambda>d. find (\<lambda>r. ir_id r = invoice_id) (db_invoices d)))
       (\<lambda>row. case row of None \<Rightarrow> return_gw None
              | Some r \<Rightarrow> lift_gw (bind_sum (invoice_of_row r) (\<lambda>i. Inr (Some i))))"

definition store_open_invoices :: "int \<Rightarrow> ('w db_scheme, exn, invoice list) gw" where
  "store_open_invoices limit =
     bind_gw (gets_gw (\<lambda>d. take (nat (max 1 limit))
         (sort_key ir_created_at (filter (\<lambda>r. ir_status r = ''pending'') (db_invoices d)))))
       (\<lambda>rows. lift_gw (traverse invoice_of_row rows))"

definition upsert_subscription :: "subscription_row \<Rightarrow> subscription_row list \<Rightarrow> subscription_row list" where
  "upsert_subscription new rows =
     (if sr_account new \<in> set (map sr_account rows)
      then map (\<lambda>r. if sr_account r = sr_account new then new else r) rows
      else rows @ [new])"

definition store_put_subscription :: "subscription \<Rightarrow> ('w db_scheme, exn, subscription) gw" where
  "store_put_subscription s = (\<lambda>d.
     (Inr s, d\<lparr>db_subscriptions := upsert_subscription (row_of_subscription s) (db_subscriptions d)\<rparr>))"

definition store_subscription :: "string \<Rightarrow> ('w db_scheme, exn, subscription option) gw" where
  "store_subscription account =
     bind_gw (gets_gw (\<lambda>d. find (\<lambda>r. sr_account r = account) (db_subscriptions d)))
       (\<lambda>row. case row of None \<Rightarrow> return_gw None
              | Some r \<Rightarrow> lift_gw (bind_sum (subscription_of_row r) (\<lambda>s. Inr (Some s))))"

section \<open>Round trips\<close>

lemma entry_kind_roundtrip [simp]: "entry_kind_of (entry_kind_value k) = Inr k"
  by (cases k) (simp_all add: entry_kind_of_def)

lemma invoice_status_roundtrip [simp]: "invoice_status_of (invoice_status_value k) = Inr k"
  by (cases k) (simp_all add: invoice_status_of_def)

lemma subscription_status_roundtrip [simp]: "subscription_status_of (subscription_status_value k) = Inr k"
  by (cases k) (simp_all add: subscription_status_of_def)

lemma time_roundtrip [simp]: "dt_ok t \<Longrightarrow> time_of (isoformat t) = Inr t"
  by (simp add: time_of_def fromisoformat_isoformat)

lemma entry_row_roundtrip: "dt_ok (le_at e) \<Longrightarrow> entry_of_row (row_of_entry n e) = Inr e"
  by (simp add: entry_of_row_def row_of_entry_def bind_sum_def)

lemma invoice_row_roundtrip:
  "dt_ok (inv_created_at i) \<Longrightarrow> dt_ok (inv_expires_at i) \<Longrightarrow> invoice_of_row (row_of_invoice i) = Inr i"
  by (simp add: invoice_of_row_def row_of_invoice_def bind_sum_def)

lemma subscription_row_roundtrip:
  "dt_ok (sub_started_at s) \<Longrightarrow> dt_ok (sub_renews_at s) \<Longrightarrow>
   subscription_of_row (row_of_subscription s) = Inr s"
  by (simp add: subscription_of_row_def row_of_subscription_def bind_sum_def)

section \<open>The port\<close>

text \<open>What can be written: integers of 64 bits, times \<^verbatim>\<open>datetime\<close> can hold.\<close>

definition storable :: "ledger_entry \<Rightarrow> bool" where
  "storable e \<longleftrightarrow> sqlite_int (le_tokens e) \<and> sqlite_int (micros (le_amount e)) \<and> dt_ok (le_at e)"

definition storable_invoice :: "invoice \<Rightarrow> bool" where
  "storable_invoice i \<longleftrightarrow> sqlite_int (inv_tokens i) \<and> sqlite_int (micros (inv_price i))
     \<and> dt_ok (inv_created_at i) \<and> dt_ok (inv_expires_at i)"

definition storable_subscription :: "subscription \<Rightarrow> bool" where
  "storable_subscription s \<longleftrightarrow> dt_ok (sub_started_at s) \<and> dt_ok (sub_renews_at s)"

text \<open>What \<^verbatim>\<open>put_invoice\<close> may change of an invoice that exists.\<close>

definition settled_like :: "invoice \<Rightarrow> invoice \<Rightarrow> invoice" where
  "settled_like new old =
     old\<lparr>inv_status := inv_status new, inv_tx_hash := inv_tx_hash new, inv_payer := inv_payer new\<rparr>"

locale billing_store =
  fixes append :: "ledger_entry \<Rightarrow> ('s, exn, ledger_entry) gw"
    and all_entries :: "string \<Rightarrow> ('s, exn, ledger_entry list) gw"
    and put_invoice :: "invoice \<Rightarrow> ('s, exn, invoice) gw"
    and get_invoice :: "string \<Rightarrow> ('s, exn, invoice option) gw"
    and put_subscription :: "subscription \<Rightarrow> ('s, exn, subscription) gw"
    and get_subscription :: "string \<Rightarrow> ('s, exn, subscription option) gw"
    and ok :: "'s \<Rightarrow> bool"
    and ledger :: "'s \<Rightarrow> ledger_entry list"
    and invoices :: "'s \<Rightarrow> string \<Rightarrow> invoice option"
    and subscriptions :: "'s \<Rightarrow> string \<Rightarrow> subscription option"
    and rest :: "'s \<Rightarrow> 'r"
  assumes reference_unique:
      "ok s \<Longrightarrow> e \<in> set (ledger s) \<Longrightarrow> f \<in> set (ledger s) \<Longrightarrow> le_reference e = le_reference f \<Longrightarrow>
       le_reference e \<noteq> [] \<Longrightarrow> e = f"
    and append_new:
      "ok s \<Longrightarrow> storable e \<Longrightarrow> le_id e \<notin> le_id ` set (ledger s) \<Longrightarrow>
       le_reference e = [] \<or> le_reference e \<notin> le_reference ` set (ledger s) \<Longrightarrow>
       \<exists>s'. append e s = (Inr e, s') \<and> ok s' \<and> ledger s' = ledger s @ [e]
            \<and> invoices s' = invoices s \<and> subscriptions s' = subscriptions s \<and> rest s' = rest s"
    and append_known:
      "ok s \<Longrightarrow> storable e \<Longrightarrow> f \<in> set (ledger s) \<Longrightarrow> le_reference f = le_reference e \<Longrightarrow>
       le_reference e \<noteq> [] \<Longrightarrow> append e s = (Inr f, s)"
    and all_entries_are:
      "ok s \<Longrightarrow> all_entries a s = (Inr (filter (\<lambda>e. le_account e = a) (ledger s)), s)"
    and put_invoice_writes:
      "ok s \<Longrightarrow> storable_invoice i \<Longrightarrow>
       \<exists>s'. put_invoice i s = (Inr i, s') \<and> ok s' \<and> ledger s' = ledger s
            \<and> invoices s' = (invoices s)(inv_id i \<mapsto>
                 (case invoices s (inv_id i) of None \<Rightarrow> i | Some old \<Rightarrow> settled_like i old))
            \<and> subscriptions s' = subscriptions s \<and> rest s' = rest s"
    and get_invoice_reads: "ok s \<Longrightarrow> get_invoice k s = (Inr (invoices s k), s)"
    and put_subscription_writes:
      "ok s \<Longrightarrow> storable_subscription x \<Longrightarrow>
       \<exists>s'. put_subscription x s = (Inr x, s') \<and> ok s' \<and> ledger s' = ledger s
            \<and> invoices s' = invoices s \<and> subscriptions s' = (subscriptions s)(sub_account x \<mapsto> x)
            \<and> rest s' = rest s"
    and get_subscription_reads: "ok s \<Longrightarrow> get_subscription a s = (Inr (subscriptions s a), s)"
begin

text \<open>A write with a reference either lands once or answers with the row that already has it.\<close>

lemma append_cases:
  assumes "ok s" "storable e" "le_id e \<notin> le_id ` set (ledger s)" "le_reference e \<noteq> []"
  obtains (new) s' where "append e s = (Inr e, s')" "ok s'" "ledger s' = ledger s @ [e]"
      "invoices s' = invoices s" "subscriptions s' = subscriptions s" "rest s' = rest s"
      "le_reference e \<notin> le_reference ` set (ledger s)"
  | (known) f where "append e s = (Inr f, s)" "f \<in> set (ledger s)" "le_reference f = le_reference e"
proof (cases "le_reference e \<in> le_reference ` set (ledger s)")
  case True
  then obtain f where "f \<in> set (ledger s)" "le_reference f = le_reference e" by auto
  with append_known assms known show thesis by metis
next
  case False
  with append_new [OF assms(1-3)] new show thesis by auto
qed

text \<open>Recording the same fact again changes nothing and returns the row that persisted.\<close>

lemma append_twice:
  assumes "ok s" "storable e" "le_id e \<notin> le_id ` set (ledger s)" "le_reference e \<noteq> []"
    and "storable e'" "le_reference e' = le_reference e"
  shows "\<exists>f s'. append e s = (Inr f, s') \<and> ok s' \<and> append e' s' = (Inr f, s')"
  using assms(1-4)
proof (cases rule: append_cases)
  case (new s')
  then have "append e' s' = (Inr e, s')"
    using append_known [of s' e' e] assms(4-6) by simp
  with new show ?thesis by blast
next
  case (known f)
  then have "append e' s = (Inr f, s)" using append_known [of s e' f] assms by simp
  with known assms(1) show ?thesis by blast
qed

lemma put_invoice_keeps_terms:
  assumes "ok s" "storable_invoice i" "invoices s (inv_id i) = Some old"
  shows "\<exists>s'. put_invoice i s = (Inr i, s') \<and> invoices s' (inv_id i) = Some (settled_like i old)"
  using put_invoice_writes [OF assms(1,2)] assms(3) by auto

end

section \<open>The tables implement the port\<close>

text \<open>The invariant the schema and the writers keep: rows in order of \<^verbatim>\<open>seq\<close>, the unique columns unique, every
  row readable.\<close>

definition db_ok :: "'w db_scheme \<Rightarrow> bool" where
  "db_ok d \<longleftrightarrow>
     sorted_wrt (<) (map lr_seq (db_ledger d)) \<and> list_all (\<lambda>r. lr_seq r \<le> db_seq d) (db_ledger d)
     \<and> distinct (map lr_id (db_ledger d))
     \<and> distinct (filter (\<lambda>x. x \<noteq> []) (map lr_reference (db_ledger d)))
     \<and> list_all (\<lambda>r. \<not> isl (entry_of_row r)) (db_ledger d)
     \<and> distinct (map ir_id (db_invoices d)) \<and> list_all (\<lambda>r. \<not> isl (invoice_of_row r)) (db_invoices d)
     \<and> distinct (map sr_account (db_subscriptions d))
     \<and> list_all (\<lambda>r. \<not> isl (subscription_of_row r)) (db_subscriptions d)"

definition db_entries :: "'w db_scheme \<Rightarrow> ledger_entry list" where
  "db_entries d = map (projr \<circ> entry_of_row) (db_ledger d)"

definition db_invoice :: "'w db_scheme \<Rightarrow> string \<Rightarrow> invoice option" where
  "db_invoice d k = map_option (projr \<circ> invoice_of_row) (find (\<lambda>r. ir_id r = k) (db_invoices d))"

definition db_subscription :: "'w db_scheme \<Rightarrow> string \<Rightarrow> subscription option" where
  "db_subscription d a =
     map_option (projr \<circ> subscription_of_row) (find (\<lambda>r. sr_account r = a) (db_subscriptions d))"

lemma isl_bind_sum: "isl (bind_sum r f) \<longleftrightarrow> isl r \<or> (\<exists>x. r = Inr x \<and> isl (f x))"
  by (cases r) (auto simp: bind_sum_def)

lemma entry_of_row_fields:
  "\<not> isl (entry_of_row r) \<Longrightarrow> le_id (projr (entry_of_row r)) = lr_id r"
  "\<not> isl (entry_of_row r) \<Longrightarrow> le_account (projr (entry_of_row r)) = lr_account r"
  "\<not> isl (entry_of_row r) \<Longrightarrow> le_reference (projr (entry_of_row r)) = lr_reference r"
  by (auto simp: entry_of_row_def bind_sum_def split: sum.splits)

lemma traverse_readable:
  "list_all (\<lambda>r. \<not> isl (f r)) rows \<Longrightarrow> traverse f rows = Inr (map (projr \<circ> f) rows)"
proof (induction rows)
  case Nil
  then show ?case by simp
next
  case (Cons r rows)
  then obtain x where "f r = Inr x" by (cases "f r") auto
  with Cons show ?case by (simp add: bind_sum_def)
qed

lemma db_entries_fields:
  assumes "db_ok d"
  shows "map le_id (db_entries d) = map lr_id (db_ledger d)"
    and "map le_reference (db_entries d) = map lr_reference (db_ledger d)"
    and "map le_account (db_entries d) = map lr_account (db_ledger d)"
  using assms by (auto simp: db_ok_def db_entries_def list_all_iff entry_of_row_fields)

lemma image_ids:
  assumes "db_ok d"
  shows "le_id ` set (db_entries d) = set (map lr_id (db_ledger d))"
    and "le_reference ` set (db_entries d) = set (map lr_reference (db_ledger d))"
  using db_entries_fields [OF assms] by (metis list.set_map)+

lemma account_rows_sorted:
  assumes "db_ok d"
  shows "account_rows a d = filter (\<lambda>r. lr_account r = a) (db_ledger d)"
proof -
  have "sorted (map lr_seq (filter (\<lambda>r. lr_account r = a) (db_ledger d)))"
    using assms unfolding db_ok_def by (intro sorted_filter strict_sorted_imp_sorted) auto
  then show ?thesis unfolding account_rows_def by (rule sort_key_id_if_sorted)
qed

lemma distinct_filter_unique:
  assumes "distinct (filter P (map f xs))" "x \<in> set xs" "y \<in> set xs" "f x = f y" "P (f x)"
  shows "x = y"
  using assms
proof (induction xs)
  case Nil
  then show ?case by simp
next
  case (Cons z zs)
  show ?case
  proof (cases "x = z \<or> y = z")
    case True
    with Cons.prems show ?thesis by (cases "x = z"; cases "y = z") (auto simp: image_iff)
  next
    case False
    with Cons.prems have "distinct (filter P (map f zs))" "x \<in> set zs" "y \<in> set zs"
      by (auto split: if_splits)
    with Cons.IH Cons.prems(4,5) show ?thesis by blast
  qed
qed

lemma find_unique:
  assumes "x \<in> set xs" "P x" "\<And>y. y \<in> set xs \<Longrightarrow> P y \<Longrightarrow> y = x"
  shows "find P xs = Some x"
proof (cases "find P xs")
  case None
  with assms(1,2) show ?thesis by (auto simp: find_None_iff)
next
  case (Some y)
  then have "y \<in> set xs" "P y" by (auto simp: find_Some_iff)
  with assms(3) Some show ?thesis by blast
qed

lemma sqlite_reference_unique:
  assumes "db_ok d" "e \<in> set (db_entries d)" "f \<in> set (db_entries d)"
    and "le_reference e = le_reference f" "le_reference e \<noteq> []"
  shows "e = f"
proof -
  have "distinct (filter (\<lambda>x. x \<noteq> []) (map le_reference (db_entries d)))"
    using assms(1) unfolding db_entries_fields(2) [OF assms(1)] by (simp add: db_ok_def)
  from distinct_filter_unique [OF this] assms(2-5) show ?thesis by blast
qed

lemma sqlite_append_new:
  fixes d :: "'w db_scheme"
  assumes ok: "db_ok d" and st: "storable e" and fresh_id: "le_id e \<notin> le_id ` set (db_entries d)"
    and fresh_ref: "le_reference e = [] \<or> le_reference e \<notin> le_reference ` set (db_entries d)"
  shows "\<exists>d'. store_append e d = (Inr e, d') \<and> db_ok d' \<and> db_entries d' = db_entries d @ [e]
     \<and> db_invoice d' = db_invoice d \<and> db_subscription d' = db_subscription d \<and> db.more d' = db.more d"
proof -
  let ?row = "row_of_entry (db_seq d + 1) e"
  let ?d = "d\<lparr>db_seq := db_seq d + 1, db_ledger := db_ledger d @ [?row]\<rparr>"
  have row: "entry_of_row ?row = Inr e" using st by (simp add: storable_def entry_row_roundtrip)
  have ids: "le_id e \<notin> set (map lr_id (db_ledger d))"
    using fresh_id by (simp only: image_ids(1) [OF ok] not_False_eq_True)
  have refs: "\<not> (le_reference e \<noteq> [] \<and> le_reference e \<in> set (map lr_reference (db_ledger d)))"
    using fresh_ref by (simp only: image_ids(2) [OF ok]) blast
  have "store_append e d = (Inr e, ?d)"
    using st ids refs
    by (auto simp: store_append_def insert_ledger_def storable_def catch_gw_def then_gw_def bind_gw_def return_gw_def)
  moreover have "db_ok ?d"
    using ok row ids refs
    by (auto simp: db_ok_def row_of_entry_def sorted_wrt_append list_all_iff less_Suc_eq_le)
  moreover have "db_entries ?d = db_entries d @ [e]" using row by (simp add: db_entries_def)
  moreover have "db_invoice ?d = db_invoice d" "db_subscription ?d = db_subscription d"
    by (simp_all add: db_invoice_def db_subscription_def fun_eq_iff)
  moreover have "db.more ?d = db.more d" by simp
  ultimately show ?thesis by blast
qed

lemma sqlite_append_known:
  assumes ok: "db_ok d" and st: "storable e" and f: "f \<in> set (db_entries d)"
    and ref: "le_reference f = le_reference e" "le_reference e \<noteq> []"
  shows "store_append e d = (Inr f, d)"
proof -
  from f obtain r where r: "r \<in> set (db_ledger d)" "f = projr (entry_of_row r)"
    by (auto simp: db_entries_def)
  with ok have readable: "\<not> isl (entry_of_row r)" by (auto simp: db_ok_def list_all_iff)
  then have lr: "lr_reference r = le_reference e" using r(2) ref(1) by (simp add: entry_of_row_fields)
  have "find (\<lambda>r. lr_reference r = le_reference e \<and> lr_reference r \<noteq> []) (db_ledger d) = Some r"
  proof (rule find_unique)
    fix y assume "y \<in> set (db_ledger d)" "lr_reference y = le_reference e \<and> lr_reference y \<noteq> []"
    with ok r(1) lr show "y = r"
      unfolding db_ok_def by (intro distinct_filter_unique [of "\<lambda>x. x \<noteq> []" lr_reference "db_ledger d"]) auto
  qed (use r lr ref in auto)
  moreover have "le_reference e \<in> lr_reference ` set (db_ledger d)" using r(1) lr by force
  moreover have "entry_of_row r = Inr f" using readable r(2) by simp
  ultimately show ?thesis
    using st ref(2)
    by (simp add: store_append_def insert_ledger_def storable_def gw_simps select_reference_def)
qed

lemma sqlite_all_entries:
  assumes "db_ok d"
  shows "store_all_entries a d = (Inr (filter (\<lambda>e. le_account e = a) (db_entries d)), d)"
proof -
  let ?rows = "filter (\<lambda>r. lr_account r = a) (db_ledger d)"
  have readable: "list_all (\<lambda>r. \<not> isl (entry_of_row r)) (db_ledger d)" using assms by (simp add: db_ok_def)
  then have "filter (\<lambda>e. le_account e = a) (db_entries d) = map (projr \<circ> entry_of_row) ?rows"
    unfolding db_entries_def by (induction "db_ledger d" rule: list.induct)
      (auto simp: filter_map comp_def list_all_iff entry_of_row_fields intro!: arg_cong2 [of _ _ _ _ map] filter_cong)
  moreover have "traverse entry_of_row ?rows = Inr (map (projr \<circ> entry_of_row) ?rows)"
    using readable by (intro traverse_readable) (auto simp: list_all_iff)
  ultimately show ?thesis
    by (simp add: store_all_entries_def account_rows_sorted [OF assms] gw_simps)
qed

lemma find_key_None: "find (\<lambda>r. key r = k) rows = None \<longleftrightarrow> k \<notin> set (map key rows)"
  by (auto simp: find_None_iff)

lemma find_key_Some: "find (\<lambda>r. key r = k) rows = Some r \<Longrightarrow> key r = k \<and> r \<in> set rows"
  by (auto simp: find_Some_iff)

text \<open>An upsert changes what is found under its own key and under no other.\<close>

lemma find_upsert:
  assumes "key new = n" "\<And>r. key r = n \<Longrightarrow> key (g r) = n"
  shows "find (\<lambda>r. key r = k)
       (if n \<in> set (map key rows) then map (\<lambda>r. if key r = n then g r else r) rows else rows @ [new]) =
     (if k = n then Some (case find (\<lambda>r. key r = n) rows of None \<Rightarrow> new | Some r \<Rightarrow> g r)
      else find (\<lambda>r. key r = k) rows)"
proof (cases "n \<in> set (map key rows)")
  case True
  have "find (\<lambda>r. key r = k) (map (\<lambda>r. if key r = n then g r else r) rows) =
      (if k = n then map_option g (find (\<lambda>r. key r = n) rows) else find (\<lambda>r. key r = k) rows)"
    using assms(2) by (induction rows) auto
  moreover have "find (\<lambda>r. key r = n) rows \<noteq> None" using True by (simp only: find_key_None not_not)
  ultimately show ?thesis using True by auto
next
  case False
  moreover have "find (\<lambda>r. key r = k) (rows @ [new]) =
      (case find (\<lambda>r. key r = k) rows of None \<Rightarrow> (if k = n then Some new else None) | Some r \<Rightarrow> Some r)"
    using assms(1) by (induction rows) auto
  moreover have "find (\<lambda>r. key r = n) rows = None" using False by (simp only: find_key_None not_False_eq_True)
  ultimately show ?thesis by (auto split: option.splits)
qed

lemma invoice_of_row_settled:
  assumes "invoice_of_row r = Inr old"
  shows "invoice_of_row (r\<lparr>ir_status := invoice_status_value (inv_status i), ir_tx_hash := inv_tx_hash i,
           ir_payer := inv_payer i\<rparr>) = Inr (settled_like i old)"
  using assms by (auto simp: invoice_of_row_def bind_sum_def settled_like_def split: sum.splits)

lemma sqlite_get_invoice:
  assumes "db_ok d"
  shows "store_invoice k d = (Inr (db_invoice d k), d)"
proof (cases "find (\<lambda>r. ir_id r = k) (db_invoices d)")
  case None
  then show ?thesis by (simp add: store_invoice_def db_invoice_def gw_simps)
next
  case (Some r)
  then have "r \<in> set (db_invoices d)" by (auto simp: find_Some_iff)
  with assms obtain i where "invoice_of_row r = Inr i"
    by (cases "invoice_of_row r") (auto simp: db_ok_def list_all_iff)
  with Some show ?thesis by (simp add: store_invoice_def db_invoice_def gw_simps bind_sum_def)
qed

lemma sqlite_get_subscription:
  assumes "db_ok d"
  shows "store_subscription a d = (Inr (db_subscription d a), d)"
proof (cases "find (\<lambda>r. sr_account r = a) (db_subscriptions d)")
  case None
  then show ?thesis by (simp add: store_subscription_def db_subscription_def gw_simps)
next
  case (Some r)
  then have "r \<in> set (db_subscriptions d)" by (auto simp: find_Some_iff)
  with assms obtain x where "subscription_of_row r = Inr x"
    by (cases "subscription_of_row r") (auto simp: db_ok_def list_all_iff)
  with Some show ?thesis by (simp add: store_subscription_def db_subscription_def gw_simps bind_sum_def)
qed

lemma sqlite_put_subscription:
  fixes d :: "'w db_scheme"
  assumes ok: "db_ok d" and st: "storable_subscription x"
  shows "\<exists>d'. store_put_subscription x d = (Inr x, d') \<and> db_ok d' \<and> db_entries d' = db_entries d
     \<and> db_invoice d' = db_invoice d \<and> db_subscription d' = (db_subscription d)(sub_account x \<mapsto> x)
     \<and> db.more d' = db.more d"
proof -
  let ?row = "row_of_subscription x"
  let ?rows = "upsert_subscription ?row (db_subscriptions d)"
  let ?d = "d\<lparr>db_subscriptions := ?rows\<rparr>"
  have row: "subscription_of_row ?row = Inr x"
    using st by (simp add: storable_subscription_def subscription_row_roundtrip)
  have key: "sr_account ?row = sub_account x" by (simp add: row_of_subscription_def)
  have accounts: "map sr_account ?rows =
      (if sub_account x \<in> set (map sr_account (db_subscriptions d)) then map sr_account (db_subscriptions d)
       else map sr_account (db_subscriptions d) @ [sub_account x])"
    by (auto simp: upsert_subscription_def key)
  have "find (\<lambda>r. sr_account r = a) ?rows =
      (if a = sub_account x then Some ?row else find (\<lambda>r. sr_account r = a) (db_subscriptions d))" for a
    unfolding upsert_subscription_def key
    by (subst find_upsert) (auto simp: key split: option.splits)
  then have "db_subscription ?d = (db_subscription d)(sub_account x \<mapsto> x)"
    using row by (auto simp: db_subscription_def fun_eq_iff)
  moreover have "db_ok ?d"
    using ok row accounts by (auto simp: db_ok_def upsert_subscription_def list_all_iff)
  moreover have "db_entries ?d = db_entries d" "db_invoice ?d = db_invoice d" "db.more ?d = db.more d"
    by (simp_all add: db_entries_def db_invoice_def fun_eq_iff)
  ultimately show ?thesis by (simp add: store_put_subscription_def)
qed

lemma sqlite_put_invoice:
  fixes d :: "'w db_scheme"
  assumes ok: "db_ok d" and st: "storable_invoice i"
  shows "\<exists>d'. store_put_invoice i d = (Inr i, d') \<and> db_ok d' \<and> db_entries d' = db_entries d
     \<and> db_invoice d' = (db_invoice d)(inv_id i \<mapsto>
          (case db_invoice d (inv_id i) of None \<Rightarrow> i | Some old \<Rightarrow> settled_like i old))
     \<and> db_subscription d' = db_subscription d \<and> db.more d' = db.more d"
proof -
  let ?row = "row_of_invoice i"
  let ?rows = "upsert_invoice ?row (db_invoices d)"
  let ?d = "d\<lparr>db_invoices := ?rows\<rparr>"
  let ?settle = "\<lambda>r. r\<lparr>ir_status := ir_status ?row, ir_tx_hash := ir_tx_hash ?row, ir_payer := ir_payer ?row\<rparr>"
  have row: "invoice_of_row ?row = Inr i"
    using st by (simp add: storable_invoice_def invoice_row_roundtrip)
  have key: "ir_id ?row = inv_id i" by (simp add: row_of_invoice_def)
  have readable: "r \<in> set (db_invoices d) \<Longrightarrow> \<exists>old. invoice_of_row r = Inr old" for r
    using ok by (cases "invoice_of_row r") (auto simp: db_ok_def list_all_iff)
  have settle: "r \<in> set (db_invoices d) \<Longrightarrow>
      invoice_of_row (?settle r) = Inr (settled_like i (projr (invoice_of_row r)))" for r
    using invoice_of_row_settled [of r _ i] readable [of r] by (auto simp: row_of_invoice_def)
  have "find (\<lambda>r. ir_id r = k) ?rows =
      (if k = inv_id i
       then Some (case find (\<lambda>r. ir_id r = inv_id i) (db_invoices d) of None \<Rightarrow> ?row | Some r \<Rightarrow> ?settle r)
       else find (\<lambda>r. ir_id r = k) (db_invoices d))" for k
    unfolding upsert_invoice_def key by (subst find_upsert) (auto simp: key)
  then have "db_invoice ?d k = ((db_invoice d)(inv_id i \<mapsto>
      (case db_invoice d (inv_id i) of None \<Rightarrow> i | Some old \<Rightarrow> settled_like i old))) k" for k
    using row by (auto simp: db_invoice_def settle dest!: find_key_Some split: option.splits)
  then have "db_invoice ?d = (db_invoice d)(inv_id i \<mapsto>
      (case db_invoice d (inv_id i) of None \<Rightarrow> i | Some old \<Rightarrow> settled_like i old))" by blast
  moreover have "db_ok ?d"
  proof -
    have "map ir_id ?rows = (if inv_id i \<in> set (map ir_id (db_invoices d)) then map ir_id (db_invoices d)
        else map ir_id (db_invoices d) @ [inv_id i])"
      by (auto simp: upsert_invoice_def key)
    moreover have "list_all (\<lambda>r. \<not> isl (invoice_of_row r)) ?rows"
      using row by (auto simp: upsert_invoice_def list_all_iff settle dest: readable)
    ultimately show ?thesis using ok by (simp add: db_ok_def)
  qed
  moreover have "db_entries ?d = db_entries d" "db_subscription ?d = db_subscription d" "db.more ?d = db.more d"
    by (simp_all add: db_entries_def db_subscription_def fun_eq_iff)
  ultimately show ?thesis using st by (simp add: store_put_invoice_def storable_invoice_def)
qed

interpretation sqlite: billing_store store_append store_all_entries store_put_invoice store_invoice
  store_put_subscription store_subscription db_ok db_entries db_invoice db_subscription db.more
  by unfold_locales
    (assumption
      | rule sqlite_reference_unique sqlite_append_new sqlite_append_known sqlite_all_entries
        sqlite_put_invoice sqlite_get_invoice sqlite_put_subscription sqlite_get_subscription)+

section \<open>What the store guarantees\<close>

lemma append_out_of_range:
  "\<not> sqlite_int (le_tokens e) \<or> \<not> sqlite_int (micros (le_amount e)) \<Longrightarrow> store_append e d = (Inl OverflowError, d)"
  by (auto simp: store_append_def insert_ledger_def gw_simps)

lemma append_duplicate_id:
  assumes "db_ok d" "storable e" "le_id e \<in> le_id ` set (db_entries d)"
    and "le_reference e = [] \<or> le_reference e \<notin> le_reference ` set (db_entries d)"
  shows "store_append e d = (Inl IntegrityError, d)"
proof -
  have "find (\<lambda>r. lr_reference r = le_reference e \<and> lr_reference r \<noteq> []) (db_ledger d) = None"
    using assms(4) unfolding image_ids(2) [OF assms(1)] by (auto simp: find_None_iff image_iff)
  with assms(2,3) show ?thesis
    unfolding image_ids(1) [OF assms(1)]
    by (simp add: store_append_def insert_ledger_def storable_def gw_simps select_reference_def)
qed

text \<open>Whatever the entry, an append adds at most that one row and touches nothing else.\<close>

lemma append_effect:
  fixes d :: "'w db_scheme"
  assumes ok: "db_ok d" and at: "dt_ok (le_at e)"
  shows "\<exists>r d'. store_append e d = (r, d') \<and> db_ok d' \<and> db.more d' = db.more d
     \<and> db_invoice d' = db_invoice d \<and> db_subscription d' = db_subscription d
     \<and> (d' = d \<or> r = Inr e \<and> db_entries d' = db_entries d @ [e])"
proof (cases "storable e")
  case False
  with at ok show ?thesis by (simp add: append_out_of_range storable_def)
next
  case st: True
  show ?thesis
  proof (cases "le_reference e = [] \<or> le_reference e \<notin> le_reference ` set (db_entries d)")
    case True
    with ok st show ?thesis
      using sqlite.append_new [OF ok st] append_duplicate_id [OF ok st]
      by (cases "le_id e \<in> le_id ` set (db_entries d)") auto
  next
    case False
    then obtain f where "f \<in> set (db_entries d)" "le_reference f = le_reference e" "le_reference e \<noteq> []"
      by auto
    with sqlite.append_known [OF ok st this] ok show ?thesis by simp
  qed
qed

lemma keeps_append [keeps_intros]:
  assumes "dt_ok (le_at e)"
  shows "keeps (db_ok :: 'w db_scheme \<Rightarrow> bool) (store_append e)"
  using append_effect [OF _ assms] by (fastforce intro!: keepsI)

lemma keeps_put_invoice [keeps_intros]:
  assumes "dt_ok (inv_created_at i)" "dt_ok (inv_expires_at i)"
  shows "keeps (db_ok :: 'w db_scheme \<Rightarrow> bool) (store_put_invoice i)"
proof (rule keepsI)
  fix d :: "'w db_scheme"
  assume ok: "db_ok d"
  show "db_ok (snd (store_put_invoice i d))"
    using sqlite.put_invoice_writes [OF ok, of i] ok assms
    by (cases "storable_invoice i") (auto simp: store_put_invoice_def storable_invoice_def)
qed

lemma keeps_put_subscription [keeps_intros]:
  assumes "storable_subscription x"
  shows "keeps (db_ok :: 'w db_scheme \<Rightarrow> bool) (store_put_subscription x)"
  using sqlite.put_subscription_writes [OF _ assms] by (fastforce intro!: keepsI)

lemma keeps_readers [keeps_intros]:
  "keeps P (store_all_entries a)" "keeps P (store_entries a n)" "keeps P (store_invoice k)"
  "keeps P (store_subscription a)" "keeps P (store_open_invoices n)"
  unfolding store_all_entries_def store_entries_def store_invoice_def store_subscription_def store_open_invoices_def
  by (intro keeps_intros)+

definition empty_db :: db where
  "empty_db = \<lparr>db_seq = 0, db_ledger = [], db_invoices = [], db_subscriptions = []\<rparr>"

lemma empty_db_ok: "db_ok empty_db"
  by (simp add: empty_db_def db_ok_def)

lemma dt_ok_small: "0 \<le> t \<Longrightarrow> t \<le> 1000000000 \<Longrightarrow> dt_ok t"
  by (simp add: dt_ok_def)

lemma take_rev_sorted:
  assumes "sorted_wrt (<) (map f xs)"
  shows "sort_key f (take n (rev xs)) = drop (length xs - n) xs"
proof (rule sort_key_inj_key_eq)
  have eq: "take n (rev xs) = rev (drop (length xs - n) xs)" by (simp add: take_rev)
  then show "mset (take n (rev xs)) = mset (drop (length xs - n) xs)" by simp
  have "sorted_wrt (<) (map f (drop (length xs - n) xs))"
    using assms by (simp add: drop_map [symmetric] sorted_wrt_drop)
  then show "sorted (map f (drop (length xs - n) xs))" "inj_on f (set (take n (rev xs)))"
    unfolding eq by (simp_all add: strict_sorted_iff distinct_map)
qed

text \<open>The history of an account is its most recent rows, oldest first: the last \<^verbatim>\<open>limit\<close> rows of its whole
  ledger (at least one), and never the rows of another account.\<close>

theorem entries_are_most_recent:
  assumes "db_ok d"
  shows "store_entries a limit d =
     (let history = filter (\<lambda>e. le_account e = a) (db_entries d)
      in (Inr (drop (length history - nat (max 1 limit)) history), d))"
proof -
  define rows where "rows = filter (\<lambda>r. lr_account r = a) (db_ledger d)"
  let ?n = "nat (max 1 limit)"
  have acc: "account_rows a d = rows" unfolding rows_def by (rule account_rows_sorted [OF assms])
  have readable: "list_all (\<lambda>r. \<not> isl (entry_of_row r)) rows"
    using assms by (auto simp: rows_def db_ok_def list_all_iff)
  have "store_all_entries a d = (Inr (map (projr \<circ> entry_of_row) rows), d)"
    by (simp add: store_all_entries_def gw_simps acc traverse_readable [OF readable])
  then have history: "filter (\<lambda>e. le_account e = a) (db_entries d) = map (projr \<circ> entry_of_row) rows"
    using sqlite.all_entries_are [OF assms, of a] by simp
  have "sorted_wrt (<) (map lr_seq rows)"
    using assms unfolding rows_def db_ok_def by (simp add: sorted_wrt_map sorted_wrt_filter)
  then have "sort_key lr_seq (take ?n (rev rows)) = drop (length rows - ?n) rows" by (rule take_rev_sorted)
  moreover have "list_all (\<lambda>r. \<not> isl (entry_of_row r)) (drop (length rows - ?n) rows)"
    using readable by (auto simp: list_all_iff dest: in_set_dropD)
  ultimately show ?thesis
    by (simp add: store_entries_def gw_simps acc traverse_readable history drop_map)
qed

theorem entries_are_most_recent_witness:
  "store_entries ''GA'' 0 (empty_db\<lparr>db_ledger := [row_of_entry 1 (sample_entry GRANT 5)], db_seq := 1\<rparr>) =
     (let history = filter (\<lambda>e. le_account e = ''GA'')
          (db_entries (empty_db\<lparr>db_ledger := [row_of_entry 1 (sample_entry GRANT 5)], db_seq := 1\<rparr>))
      in (Inr (drop (length history - nat (max 1 0)) history),
          empty_db\<lparr>db_ledger := [row_of_entry 1 (sample_entry GRANT 5)], db_seq := 1\<rparr>))"
proof (rule entries_are_most_recent)
  have "entry_of_row (row_of_entry 1 (sample_entry GRANT 5)) = Inr (sample_entry GRANT 5)"
    by (rule entry_row_roundtrip) (simp add: sample_entry_def dt_ok_small)
  then show "db_ok (empty_db\<lparr>db_ledger := [row_of_entry 1 (sample_entry GRANT 5)], db_seq := 1\<rparr>)"
    by (simp add: db_ok_def empty_db_def row_of_entry_def)
qed

text \<open>C28. Every write of the store keeps the schema's invariant, however it ends (an overflow, a duplicate
  id and a repeated reference included): the rows stay in order, the ids and the non-empty references
  stay unique, and every row stays readable.\<close>

theorem store_writes_keep_schema:
  assumes "db_ok d" "dt_ok (le_at e)" "dt_ok (inv_created_at i)" "dt_ok (inv_expires_at i)"
    and "storable_subscription x"
  shows "db_ok (snd (store_append e d)) \<and> db_ok (snd (store_put_invoice i d))
     \<and> db_ok (snd (store_put_subscription x d))"
  using assms keepsD [OF keeps_append] keepsD [OF keeps_put_invoice] keepsD [OF keeps_put_subscription] by blast

definition sample_subscription :: subscription where
  "sample_subscription = \<lparr>sub_account = ''GA'', sub_plan_id = ''free'', sub_started_at = 0, sub_renews_at = 9,
     sub_status = SUB_ACTIVE\<rparr>"

theorem store_writes_keep_schema_witness:
  "db_ok (snd (store_append (sample_entry USAGE (- 5)) empty_db))
   \<and> db_ok (snd (store_put_invoice (sample_invoice\<lparr>inv_expires_at := 7\<rparr>) empty_db))
   \<and> db_ok (snd (store_put_subscription sample_subscription empty_db))"
  by (rule store_writes_keep_schema)
    (simp_all add: empty_db_ok dt_ok_small sample_entry_def sample_invoice_def sample_subscription_def
      storable_subscription_def)

text \<open>Recording the same fact again is harmless: a second append with the reference of a first one
  returns the row that persisted, id included, and changes nothing, whatever else the second carries.\<close>

theorem append_is_idempotent:
  assumes "db_ok d" "storable e" "le_id e \<notin> le_id ` set (db_entries d)" "le_reference e \<noteq> []"
    and "storable e'" "le_reference e' = le_reference e"
  shows "\<exists>f d'. store_append e d = (Inr f, d') \<and> db_ok d' \<and> store_append e' d' = (Inr f, d')"
  using assms by (rule sqlite.append_twice)

theorem append_is_idempotent_witness:
  "\<exists>f d'. store_append ((sample_entry USAGE (- 5))\<lparr>le_id := ''1'', le_reference := ''run:r''\<rparr>) empty_db = (Inr f, d')
     \<and> db_ok d' \<and> store_append ((sample_entry USAGE (- 7))\<lparr>le_id := ''2'', le_reference := ''run:r''\<rparr>) d' = (Inr f, d')"
  by (rule append_is_idempotent)
    (simp_all add: empty_db_ok sample_entry_def storable_def sqlite_int_def dt_ok_small, simp add: empty_db_def db_entries_def)

text \<open>The terms of an invoice are frozen: writing an invoice whose id exists changes its status, its
  transaction and its payer, and what is read back has the old account, product, tokens, price, asset,
  amount, destination and times.\<close>

theorem put_invoice_freezes_terms:
  assumes "db_ok d" "storable_invoice i" "store_invoice (inv_id i) d = (Inr (Some old), d)"
  shows "\<exists>d'. store_put_invoice i d = (Inr i, d')
     \<and> store_invoice (inv_id i) d' = (Inr (Some (settled_like i old)), d')"
proof -
  have "db_invoice d (inv_id i) = Some old" using assms(1,3) sqlite.get_invoice_reads by fastforce
  with sqlite.put_invoice_writes [OF assms(1,2)] obtain d' where
    "store_put_invoice i d = (Inr i, d')" "db_ok d'" "db_invoice d' (inv_id i) = Some (settled_like i old)" by auto
  then show ?thesis using sqlite.get_invoice_reads [of d' "inv_id i"] by simp
qed

definition one_invoice_db :: db where
  "one_invoice_db = empty_db\<lparr>db_invoices := [row_of_invoice sample_invoice]\<rparr>"

lemma sample_invoice_storable: "storable_invoice sample_invoice"
  by (simp add: storable_invoice_def sample_invoice_def sqlite_int_def INVOICE_TTL_def td_minutes_def dt_ok_def)

lemma sample_invoice_row: "invoice_of_row (row_of_invoice sample_invoice) = Inr sample_invoice"
  using sample_invoice_storable by (simp add: storable_invoice_def invoice_row_roundtrip)

theorem put_invoice_freezes_terms_witness:
  "\<exists>d'. store_put_invoice (sample_invoice\<lparr>inv_tokens := 9, inv_payer := ''GB''\<rparr>) one_invoice_db
       = (Inr (sample_invoice\<lparr>inv_tokens := 9, inv_payer := ''GB''\<rparr>), d')
     \<and> store_invoice ''cz01'' d' = (Inr (Some (sample_invoice\<lparr>inv_payer := ''GB''\<rparr>)), d')"
proof -
  let ?i = "sample_invoice\<lparr>inv_tokens := 9, inv_payer := ''GB''\<rparr>"
  have "db_ok one_invoice_db"
    using sample_invoice_row by (simp add: one_invoice_db_def db_ok_def empty_db_def)
  moreover have "storable_invoice ?i"
    using sample_invoice_storable by (simp add: storable_invoice_def sqlite_int_def)
  moreover have "store_invoice (inv_id ?i) one_invoice_db = (Inr (Some sample_invoice), one_invoice_db)"
    using sample_invoice_row
    by (simp add: store_invoice_def gw_simps one_invoice_db_def row_of_invoice_def bind_sum_def)
  ultimately have "\<exists>d'. store_put_invoice ?i one_invoice_db = (Inr ?i, d')
      \<and> store_invoice (inv_id ?i) d' = (Inr (Some (settled_like ?i sample_invoice)), d')"
    by (rule put_invoice_freezes_terms)
  then show ?thesis by (simp add: settled_like_def sample_invoice_def)
qed

end
