(* ===== verification/Billing_Service.thy ===== *)
theory Billing_Service
  imports Sqlite_Store
begin

text \<open>
  \<^verbatim>\<open>application/billing_service.py\<close>: selling, confirming, crediting, charging, and keeping periods up to date.

  The state is the store's tables and what the outside world will answer: successive readings of the
  clock and successive random tokens, indexed by a counter that every consultation of the outside
  advances, so nothing assumes two readings to be equal. The payment network and the subscriptions
  registry are ports; they are records of functions, and their answers may depend on the moment. Log
  lines are not modelled.

  Each operation runs its awaits in the order the code has them. One call of the store is one step; the
  theorems here are about calls that are not interleaved with others on the same account.
\<close>

record world = db +
  w_clock :: "nat \<Rightarrow> datetime"
  w_hex :: "nat \<Rightarrow> string"
  w_tick :: nat

record payment_network =
  net_network :: string
  net_destination :: string
  net_payment_for :: "nat \<Rightarrow> invoice \<Rightarrow> exn + observed_payment option"
  net_quote :: "nat \<Rightarrow> money \<Rightarrow> string \<Rightarrow> exn + string"

section \<open>The contract's view of a subscriber\<close>

record onchain =
  oc_plan :: string
  oc_started :: datetime
  oc_expires :: datetime
  oc_periods :: int

definition oc_active :: "onchain \<Rightarrow> datetime \<Rightarrow> bool" where
  "oc_active s now \<longleftrightarrow> now < oc_expires s"

definition EPOCH :: datetime where
  "EPOCH = ymd2ord (1970, 1, 1) * 86400000000"

definition timestamp_seconds :: "datetime \<Rightarrow> int" where
  "timestamp_seconds t = sgn (t - EPOCH) * (\<bar>t - EPOCH\<bar> div 1000000)"

definition oc_period_key :: "onchain \<Rightarrow> string" where
  "oc_period_key s = oc_plan s @ '':'' @ show_int (timestamp_seconds (oc_started s))"

text \<open>\<open>ch_build\<close> and \<open>ch_submit\<close> are optional: the service looks them up with \<^verbatim>\<open>getattr\<close>.\<close>

record chain_registry =
  ch_available :: bool
  ch_contract_id :: string
  ch_subscription :: "nat \<Rightarrow> string \<Rightarrow> exn + onchain option"
  ch_build_subscribe :: "(nat \<Rightarrow> string \<Rightarrow> string \<Rightarrow> exn + string) option"
  ch_submit :: "(nat \<Rightarrow> string \<Rightarrow> exn + string) option"

definition no_subscriptions :: chain_registry where
  "no_subscriptions = \<lparr>ch_available = False, ch_contract_id = [], ch_subscription = \<lambda>_ _. Inr None,
     ch_build_subscribe = None, ch_submit = None\<rparr>"

definition DEFAULT_RESERVE :: int where
  "DEFAULT_RESERVE = 50000"

record billing_service =
  bs_network :: payment_network
  bs_catalog :: catalog
  bs_asset :: string
  bs_reserve :: int
  bs_chain :: chain_registry

record account_view =
  av_account :: string
  av_balance :: balance
  av_subscription :: "subscription option"
  av_plan :: "plan option"
  av_entries :: "ledger_entry list"
  av_usage :: usage_summary
  av_lifetime :: usage_summary

section \<open>Consulting the outside\<close>

definition tick :: "('z world_scheme, exn, nat) gw" where
  "tick = (\<lambda>w. (Inr (w_tick w), w\<lparr>w_tick := w_tick w + 1\<rparr>))"

definition now_utc :: "('z world_scheme, exn, datetime) gw" where
  "now_utc = bind_gw tick (\<lambda>t. gets_gw (\<lambda>w. w_clock w t))"

definition token_hex :: "('z world_scheme, exn, string) gw" where
  "token_hex = bind_gw tick (\<lambda>t. gets_gw (\<lambda>w. w_hex w t))"

definition entry_id :: "('z world_scheme, exn, string) gw" where
  "entry_id = token_hex"

section \<open>Crediting, and periods\<close>

definition billing_balance :: "string \<Rightarrow> ('z world_scheme, exn, balance) gw" where
  "billing_balance account =
     bind_gw (store_all_entries account) (\<lambda>entries. return_gw (balance_of account entries))"

definition credit ::
  "string \<Rightarrow> int \<Rightarrow> entry_kind \<Rightarrow> string \<Rightarrow> money \<Rightarrow> string \<Rightarrow> ('z world_scheme, exn, ledger_entry) gw" where
  "credit account tokens kind reference amount memo =
     (if tokens < 0 then raise_gw (BillingError ''a credit cannot be negative; use a debit'')
      else
        bind_gw entry_id (\<lambda>i.
        bind_gw now_utc (\<lambda>at.
          store_append \<lparr>le_id = i, le_account = account, le_kind = kind, le_tokens = tokens, le_at = at,
            le_amount = amount, le_reference = reference, le_memo = memo\<rparr>)))"

definition free_plan :: "billing_service \<Rightarrow> plan option" where
  "free_plan bs = find plan_is_free (cat_plans (bs_catalog bs))"

definition grant_period :: "string \<Rightarrow> plan \<Rightarrow> subscription \<Rightarrow> ('z world_scheme, exn, unit) gw" where
  "grant_period account p s =
     then_gw
       (credit account (plan_tokens p) GRANT (''grant:'' @ period_key s) (Money 0)
          (plan_name p @ '' '' @ utf8_middle_dot @ '' '' @ cadence_value (plan_cadence p)))
       (return_gw ())"

definition expire_grant :: "string \<Rightarrow> subscription \<Rightarrow> datetime \<Rightarrow> ('z world_scheme, exn, unit) gw" where
  "expire_grant account s now =
     bind_gw (billing_balance account) (\<lambda>balance.
       if bal_granted balance \<le> 0 then return_gw ()
       else
         bind_gw entry_id (\<lambda>i.
           then_gw
             (store_append \<lparr>le_id = i, le_account = account, le_kind = EXPIRY,
                le_tokens = - bal_granted balance, le_at = now, le_amount = Money 0,
                le_reference = ''expiry:'' @ period_key s,
                le_memo = ''the period ended and its tokens did not roll over''\<rparr>)
             (return_gw ())))"

definition begin_free ::
  "billing_service \<Rightarrow> string \<Rightarrow> datetime \<Rightarrow> ('z world_scheme, exn, subscription option) gw" where
  "begin_free bs account now =
     (case free_plan bs of
        None \<Rightarrow> return_gw None
      | Some p \<Rightarrow>
          bind_gw (store_put_subscription (subscription_begin account p now)) (\<lambda>s.
            then_gw (grant_period account p s) (return_gw (Some s))))"

text \<open>\<^verbatim>\<open>_mirror_chain\<close>: any \<^verbatim>\<open>Exception\<close> of the registry is logged and read as silence.\<close>

definition mirror_chain ::
  "billing_service \<Rightarrow> string \<Rightarrow> datetime \<Rightarrow> ('z world_scheme, exn, subscription option) gw" where
  "mirror_chain bs account now =
     (if \<not> ch_available (bs_chain bs) then return_gw None
      else
        bind_gw tick (\<lambda>t.
          case ch_subscription (bs_chain bs) t account of
            Inl e \<Rightarrow> if is_exception e then return_gw None else raise_gw e
          | Inr None \<Rightarrow> return_gw None
          | Inr (Some oc) \<Rightarrow>
              if \<not> oc_active oc now then return_gw None
              else
                (case catalog_plan (bs_catalog bs) (oc_plan oc) of
                   Inl e \<Rightarrow> if is_billing_error e then return_gw None else raise_gw e
                 | Inr p \<Rightarrow>
                     let mirrored = \<lparr>sub_account = account, sub_plan_id = plan_id p,
                           sub_started_at = oc_started oc, sub_renews_at = oc_expires oc,
                           sub_status = SUB_ACTIVE\<rparr>
                     in then_gw (store_put_subscription mirrored)
                          (then_gw
                             (credit account (plan_tokens p) GRANT (''chain:'' @ oc_period_key oc) (Money 0)
                                (plan_name p @ '' '' @ utf8_middle_dot @ '' on-chain''))
                             (return_gw (Some mirrored))))))"

text \<open>The plan of a period that is over, or none when the catalog no longer has it.\<close>

definition plan_or_none :: "billing_service \<Rightarrow> string \<Rightarrow> ('z world_scheme, exn, plan option) gw" where
  "plan_or_none bs pid =
     (case catalog_plan (bs_catalog bs) pid of
        Inr p \<Rightarrow> return_gw (Some p)
      | Inl e \<Rightarrow> if is_billing_error e then return_gw None else raise_gw e)"

definition settle_due ::
  "billing_service \<Rightarrow> string \<Rightarrow> datetime \<Rightarrow> subscription \<Rightarrow> ('z world_scheme, exn, subscription option) gw" where
  "settle_due bs account now s =
     bind_gw (plan_or_none bs (sub_plan_id s)) (\<lambda>plan.
       then_gw (expire_grant account s now)
         (case plan of
            Some p \<Rightarrow>
              if plan_is_free p then
                bind_gw (store_put_subscription (sub_renewed s p now)) (\<lambda>renewed.
                  then_gw (grant_period account p renewed) (return_gw (Some renewed)))
              else bind_gw (store_put_subscription (sub_ended s)) (\<lambda>x. return_gw (Some x))
          | None \<Rightarrow> bind_gw (store_put_subscription (sub_ended s)) (\<lambda>x. return_gw (Some x))))"

definition settle_period :: "billing_service \<Rightarrow> string \<Rightarrow> ('z world_scheme, exn, subscription option) gw" where
  "settle_period bs account =
     bind_gw now_utc (\<lambda>now.
     bind_gw (mirror_chain bs account now) (\<lambda>mirrored.
       case mirrored of
         Some s \<Rightarrow> return_gw (Some s)
       | None \<Rightarrow>
           bind_gw (store_subscription account) (\<lambda>stored.
             case stored of
               None \<Rightarrow> begin_free bs account now
             | Some s \<Rightarrow>
                 if \<not> sub_due s now then return_gw (Some s) else settle_due bs account now s)))"

section \<open>Reading\<close>

definition view :: "billing_service \<Rightarrow> string \<Rightarrow> int \<Rightarrow> ('z world_scheme, exn, account_view) gw" where
  "view bs account n =
     bind_gw (settle_period bs account) (\<lambda>s.
     bind_gw (case s of None \<Rightarrow> return_gw None | Some x \<Rightarrow> plan_or_none bs (sub_plan_id x)) (\<lambda>plan.
     bind_gw (store_all_entries account) (\<lambda>history.
     bind_gw (billing_balance account) (\<lambda>balance.
     bind_gw (store_entries account n) (\<lambda>entries.
       return_gw \<lparr>av_account = account, av_balance = balance, av_subscription = s, av_plan = plan,
         av_entries = entries, av_usage = usage_of history (map_option sub_started_at s),
         av_lifetime = usage_of history None\<rparr>)))))"

section \<open>Selling\<close>

definition checkout :: "billing_service \<Rightarrow> string \<Rightarrow> string \<Rightarrow> string \<Rightarrow> ('z world_scheme, exn, invoice) gw" where
  "checkout bs account sku asset =
     bind_gw (lift_gw (catalog_product (bs_catalog bs) sku)) (\<lambda>product.
       if is_plan_product product \<and> \<not> money_is_zero (product_price product) \<and> ch_available (bs_chain bs) then
         raise_gw (BillingError (product_name product
           @ '' is subscribed to on chain, not paid by invoice: call subscribe() on ''
           @ ch_contract_id (bs_chain bs)))
       else if is_plan_product product \<and> money_is_zero (product_price product) then
         raise_gw (BillingError (product_name product @ '' costs nothing: it is already on this account''))
       else if net_destination (bs_network bs) = [] then
         raise_gw (BillingError (''this gateway has no payment destination configured ''
           @ ''(GATEWAY_BILLING__DESTINATION), so nothing can be bought here yet''))
       else
         let asset' = upper (if asset = [] then bs_asset bs else asset)
         in bind_gw now_utc (\<lambda>now.
            bind_gw token_hex (\<lambda>hex.
            bind_gw tick (\<lambda>t.
            bind_gw (lift_gw (net_quote (bs_network bs) t (product_price product) asset')) (\<lambda>amount.
              store_put_invoice
                \<lparr>inv_id = new_invoice_id hex, inv_account = account, inv_sku = product_id product,
                 inv_tokens = product_tokens product, inv_price = product_price product,
                 inv_asset = asset', inv_amount = amount,
                 inv_destination = net_destination (bs_network bs), inv_created_at = now,
                 inv_expires_at = now + INVOICE_TTL, inv_status = INV_PENDING,
                 inv_kind = (if is_plan_product product then ''plan'' else ''pack''),
                 inv_tx_hash = [], inv_payer = []\<rparr>)))))"

definition deliver :: "billing_service \<Rightarrow> invoice \<Rightarrow> ('z world_scheme, exn, unit) gw" where
  "deliver bs i =
     bind_gw (lift_gw (catalog_product (bs_catalog bs) (inv_sku i))) (\<lambda>product.
       then_gw
         (credit (inv_account i) (inv_tokens i) (if is_plan_product product then GRANT else PURCHASE)
            (''invoice:'' @ inv_id i) (inv_price i)
            (product_name product @ '' '' @ utf8_middle_dot @ '' '' @ inv_amount i @ '' '' @ inv_asset i))
         (case product of
            PackProduct _ \<Rightarrow> return_gw ()
          | PlanProduct p \<Rightarrow>
              bind_gw now_utc (\<lambda>now.
              bind_gw (store_subscription (inv_account i)) (\<lambda>current.
                then_gw
                  (store_put_subscription
                     (case current of
                        Some s \<Rightarrow> if sub_plan_id s = plan_id p then sub_renewed s p now
                                  else subscription_begin (inv_account i) p now
                      | None \<Rightarrow> subscription_begin (inv_account i) p now))
                  (return_gw ())))))"

definition confirm :: "billing_service \<Rightarrow> string \<Rightarrow> ('z world_scheme, exn, invoice) gw" where
  "confirm bs invoice_id =
     bind_gw (store_invoice invoice_id) (\<lambda>found.
       case found of
         None \<Rightarrow> raise_gw (InvoiceNotFoundError invoice_id)
       | Some i \<Rightarrow>
           if inv_status i = INV_PAID then return_gw i
           else
             bind_gw tick (\<lambda>t.
             bind_gw (lift_gw (net_payment_for (bs_network bs) t i)) (\<lambda>payment.
               case payment of
                 None \<Rightarrow>
                   bind_gw now_utc (\<lambda>now.
                     if \<not> inv_is_open i now then store_put_invoice (inv_expired i) else return_gw i)
               | Some p \<Rightarrow>
                   bind_gw (lift_gw (settles p i TOLERANCE_BPS)) (\<lambda>good.
                     if \<not> good then return_gw i
                     else
                       bind_gw (store_put_invoice (inv_paid i (pay_tx_hash p) (pay_payer p))) (\<lambda>paid.
                         then_gw (deliver bs paid) (return_gw paid))))))"

fun reconcile_loop :: "billing_service \<Rightarrow> invoice list \<Rightarrow> ('z world_scheme, exn, invoice list) gw" where
  "reconcile_loop bs [] = return_gw []"
| "reconcile_loop bs (i # is) =
     bind_gw (catch_gw (bind_gw (confirm bs (inv_id i)) (\<lambda>c. return_gw (Some c)))
                (\<lambda>e. if is_exception e then return_gw None else raise_gw e)) (\<lambda>confirmed.
     bind_gw (reconcile_loop bs is) (\<lambda>settled.
       return_gw (case confirmed of
                    Some c \<Rightarrow> if inv_status c = INV_PAID then c # settled else settled
                  | None \<Rightarrow> settled)))"

definition reconcile :: "billing_service \<Rightarrow> int \<Rightarrow> ('z world_scheme, exn, invoice list) gw" where
  "reconcile bs limit = bind_gw (store_open_invoices limit) (reconcile_loop bs)"

section \<open>Subscribing on chain\<close>

record subscribe_offer =
  so_plan :: plan
  so_contract :: string
  so_network :: string
  so_xdr :: string

definition subscribe_transaction ::
  "billing_service \<Rightarrow> string \<Rightarrow> string \<Rightarrow> ('z world_scheme, exn, subscribe_offer) gw" where
  "subscribe_transaction bs account pid =
     bind_gw (lift_gw (catalog_plan (bs_catalog bs) pid)) (\<lambda>p.
       if plan_is_free p then
         raise_gw (BillingError (plan_name p @ '' costs nothing: it is already on this account''))
       else if \<not> ch_available (bs_chain bs) then
         raise_gw (BillingError (''this gateway has no subscriptions contract configured ''
           @ ''(GATEWAY_BILLING__CONTRACT_ID), so plans cannot be subscribed to yet''))
       else
         (case ch_build_subscribe (bs_chain bs) of
            None \<Rightarrow> raise_gw (BillingError ''this subscriptions registry cannot build transactions'')
          | Some builder \<Rightarrow>
              bind_gw tick (\<lambda>t.
              bind_gw (lift_gw (builder t account (plan_id p))) (\<lambda>xdr.
                return_gw \<lparr>so_plan = p, so_contract = ch_contract_id (bs_chain bs),
                  so_network = net_network (bs_network bs), so_xdr = xdr\<rparr>))))"

definition submit_subscription ::
  "billing_service \<Rightarrow> string \<Rightarrow> string \<Rightarrow> ('z world_scheme, exn, string \<times> subscription option) gw" where
  "submit_subscription bs account signed_xdr =
     (case (ch_available (bs_chain bs), ch_submit (bs_chain bs)) of
        (True, Some submitter) \<Rightarrow>
          bind_gw tick (\<lambda>t.
          bind_gw (lift_gw (submitter t signed_xdr)) (\<lambda>tx_hash.
          bind_gw (settle_period bs account) (\<lambda>s.
            return_gw (tx_hash, s))))
      | _ \<Rightarrow> raise_gw (BillingError ''this gateway has no subscriptions contract configured''))"

section \<open>Metering runs\<close>

definition authorize :: "billing_service \<Rightarrow> string \<Rightarrow> int \<Rightarrow> ('z world_scheme, exn, balance) gw" where
  "authorize bs account needed =
     then_gw (settle_period bs account)
       (bind_gw (billing_balance account) (\<lambda>balance.
          let required = max needed (bs_reserve bs)
          in if \<not> can_afford balance required
             then raise_gw (InsufficientFundsError required (bal_total balance))
             else return_gw balance))"

definition charge ::
  "billing_service \<Rightarrow> string \<Rightarrow> string \<Rightarrow> usage \<Rightarrow> ('z world_scheme, exn, ledger_entry option) gw" where
  "charge bs account run_id u =
     bind_gw (lift_gw (billable (cat_pricing (bs_catalog bs)) u)) (\<lambda>tokens.
       if tokens \<le> 0 then return_gw None
       else
         bind_gw entry_id (\<lambda>i.
         bind_gw now_utc (\<lambda>at.
         bind_gw
           (store_append \<lparr>le_id = i, le_account = account, le_kind = USAGE, le_tokens = - tokens,
              le_at = at, le_amount = use_cost u, le_reference = ''run:'' @ run_id,
              le_memo = show_commas (use_tokens u) @ '' tokens '' @ utf8_middle_dot @ '' ''
                @ show_int (use_calls u) @ '' calls''\<rparr>) (\<lambda>e. return_gw (Some e)))))"

end
