(* ===== verification/Billing_Guarantees.thy ===== *)
theory Billing_Guarantees
  imports Billing_Service "HOL-Library.Sublist"
begin

text \<open>
  What the billing service guarantees. The invariant \<open>billing_ok\<close> joins the schema's (\<open>db_ok\<close>), the signs of
  the rows and the size of the expiries, for every account; it is proved of every operation with the
  rules of \<open>yields\<close>, then of every sequence of operations by rule induction. On it rest the balance
  theorem (the balance is the sum of the rows), and then the theorems about single operations.
\<close>

section \<open>The invariant\<close>

definition account_ledger :: "'w db_scheme \<Rightarrow> string \<Rightarrow> ledger_entry list" where
  "account_ledger w a = filter (\<lambda>e. le_account e = a) (db_entries w)"

definition ledger_ok :: "'w db_scheme \<Rightarrow> bool" where
  "ledger_ok w \<longleftrightarrow>
     (\<forall>a. list_all well_signed (account_ledger w a) \<and> expiry_within (0, 0) (account_ledger w a))"

text \<open>The clock stays within the range of \<^verbatim>\<open>datetime\<close>, a period ahead included.\<close>

definition clock_ok :: "'z world_scheme \<Rightarrow> bool" where
  "clock_ok w \<longleftrightarrow> (\<forall>t. 0 \<le> w_clock w t \<and> dt_ok (w_clock w t + MONTH))"

definition billing_ok :: "'z world_scheme \<Rightarrow> bool" where
  "billing_ok w \<longleftrightarrow> db_ok w \<and> clock_ok w \<and> ledger_ok w"

text \<open>\<open>billing_from L\<close>: the invariant holds and the ledger starts with the rows \<open>L\<close>. Keeping it for every \<open>L\<close> is
  keeping the invariant and never removing or editing a row.\<close>

definition billing_from :: "ledger_entry list \<Rightarrow> 'z world_scheme \<Rightarrow> bool" where
  "billing_from L w \<longleftrightarrow> billing_ok w \<and> prefix L (db_entries w)"

text \<open>The registry reports times \<^verbatim>\<open>datetime\<close> can hold: it builds them with \<^verbatim>\<open>fromtimestamp\<close>.\<close>

definition chain_ok :: "billing_service \<Rightarrow> bool" where
  "chain_ok bs \<longleftrightarrow> (\<forall>t a oc. ch_subscription (bs_chain bs) t a = Inr (Some oc) \<longrightarrow>
     dt_ok (oc_started oc) \<and> dt_ok (oc_expires oc))"

definition time_ok :: "datetime \<Rightarrow> bool" where
  "time_ok t \<longleftrightarrow> 0 \<le> t \<and> dt_ok (t + MONTH)"

lemma more_fields:
  fixes w w' :: "'z world_scheme"
  assumes "db.more w' = db.more w"
  shows "w_clock w' = w_clock w" "w_hex w' = w_hex w" "w_tick w' = w_tick w"
  using assms by (cases w; cases w'; simp)+

lemma time_ok_later: "time_ok t \<Longrightarrow> 0 \<le> d \<Longrightarrow> d \<le> MONTH \<Longrightarrow> dt_ok (t + d)"
  by (simp add: time_ok_def dt_ok_def)

lemma time_ok_now: "time_ok t \<Longrightarrow> dt_ok t"
  using time_ok_later [of t 0] by (simp add: MONTH_def td_days_def)

lemma plan_period_le: "plan_period p \<le> MONTH"
  by (cases "plan_cadence p") (simp_all add: plan_period_def PERIODS_def WEEK_def MONTH_def td_days_def)

lemma time_ok_period: "time_ok t \<Longrightarrow> dt_ok (t + plan_period p)"
  using plan_period_pos [of p] plan_period_le [of p] by (intro time_ok_later) auto

lemma time_ok_invoice: "time_ok t \<Longrightarrow> dt_ok (t + INVOICE_TTL)"
  by (rule time_ok_later) (simp_all add: INVOICE_TTL_def td_minutes_def MONTH_def td_days_def)

lemma ledger_ok_append:
  fixes d :: "'w db_scheme" and d' :: "'v db_scheme"
  assumes "ledger_ok d" "db_entries d' = db_entries d @ [e]" "well_signed e"
    and "le_kind e = EXPIRY \<longrightarrow> 0 \<le> fst (replay (account_ledger d (le_account e))) + le_tokens e"
  shows "ledger_ok d'"
  using assms
  by (auto simp: ledger_ok_def account_ledger_def expiry_within_append replay_def)

section \<open>Every operation keeps it\<close>

lemma keeps_tick [keeps_intros]: "keeps (billing_from L) tick"
proof (rule keepsI)
  fix w :: "'z world_scheme"
  assume "billing_from L w"
  then show "billing_from L (snd (tick w))"
    by (simp add: tick_def billing_from_def billing_ok_def db_ok_def clock_ok_def ledger_ok_def
        account_ledger_def db_entries_def)
qed

lemma yields_now [yields_intros]: "yields (billing_from L) now_utc time_ok"
  unfolding yields_def
proof (intro allI impI)
  fix w :: "'z world_scheme"
  assume ok: "billing_from L w"
  then have "billing_from L (snd (tick w))" by (rule keepsD [OF keeps_tick])
  with ok show "billing_from L (snd (now_utc w)) \<and> (\<forall>x. fst (now_utc w) = Inr x \<longrightarrow> time_ok x)"
    by (auto simp: now_utc_def tick_def gw_simps billing_from_def billing_ok_def clock_ok_def time_ok_def)
qed

lemma keeps_token_hex [keeps_intros]: "keeps (billing_from L) token_hex" "keeps (billing_from L) entry_id"
  unfolding entry_id_def token_hex_def by (intro keeps_intros)+

lemma billing_from_same:
  fixes w w' :: "'z world_scheme"
  assumes "billing_from L w" "db_ok w'" "db_entries w' = db_entries w" "db.more w' = db.more w"
  shows "billing_from L w'"
  using assms more_fields [OF assms(4)]
  by (simp add: billing_from_def billing_ok_def clock_ok_def ledger_ok_def account_ledger_def)

lemma append_keeps_ok:
  fixes w :: "'z world_scheme"
  assumes ok: "billing_from L w" and e: "dt_ok (le_at e)" "well_signed e"
    and exp: "le_kind e = EXPIRY \<longrightarrow> 0 \<le> fst (replay (account_ledger w (le_account e))) + le_tokens e"
  shows "billing_from L (snd (store_append e w))"
proof -
  from append_effect [of w e] ok e(1) obtain r w' where
    w': "store_append e w = (r, w')" "db_ok w'" "db.more w' = db.more w"
      "w' = w \<or> db_entries w' = db_entries w @ [e]"
    by (auto simp: billing_from_def billing_ok_def)
  have "ledger_ok w'"
    using w'(4) ok ledger_ok_append [of w w' e] e(2) exp by (auto simp: billing_from_def billing_ok_def)
  moreover have "clock_ok w'"
    using ok more_fields [OF w'(3)] by (simp add: billing_from_def billing_ok_def clock_ok_def)
  moreover have "prefix L (db_entries w')" using ok w'(4) by (auto simp: billing_from_def)
  ultimately show ?thesis using w' by (simp add: billing_from_def billing_ok_def)
qed

lemma keeps_ok_append [keeps_intros]:
  "dt_ok (le_at e) \<Longrightarrow> well_signed e \<Longrightarrow> le_kind e \<noteq> EXPIRY \<Longrightarrow> keeps (billing_from L) (store_append e)"
  by (intro keepsI append_keeps_ok) auto

lemma yields_put_subscription [yields_intros]:
  assumes "storable_subscription x"
  shows "yields (billing_from L) (store_put_subscription x) storable_subscription"
  unfolding yields_def
proof (intro allI impI)
  fix w :: "'z world_scheme"
  assume ok: "billing_from L w"
  then have "db_ok w" by (simp add: billing_from_def billing_ok_def)
  from sqlite.put_subscription_writes [OF this assms] obtain w' where
    "store_put_subscription x w = (Inr x, w')" "db_ok w'" "db_entries w' = db_entries w" "db.more w' = db.more w"
    by auto
  with ok assms show "billing_from L (snd (store_put_subscription x w)) \<and>
      (\<forall>y. fst (store_put_subscription x w) = Inr y \<longrightarrow> storable_subscription y)"
    by (auto intro: billing_from_same)
qed

definition invoice_times_ok :: "invoice \<Rightarrow> bool" where
  "invoice_times_ok i \<longleftrightarrow> dt_ok (inv_created_at i) \<and> dt_ok (inv_expires_at i)"

lemma yields_put_invoice [yields_intros]:
  assumes "invoice_times_ok i"
  shows "yields (billing_from L) (store_put_invoice i) invoice_times_ok"
  unfolding yields_def
proof (intro allI impI)
  fix w :: "'z world_scheme"
  assume ok: "billing_from L w"
  then have "db_ok (snd (store_put_invoice i w))"
    using keepsD [OF keeps_put_invoice, of i w] assms
    by (simp add: billing_from_def billing_ok_def invoice_times_ok_def)
  with ok assms show "billing_from L (snd (store_put_invoice i w)) \<and>
      (\<forall>y. fst (store_put_invoice i w) = Inr y \<longrightarrow> invoice_times_ok y)"
    by (auto simp: store_put_invoice_def db_entries_def split: if_splits intro: billing_from_same)
qed

lemma time_of_range: "time_of s = Inr t \<Longrightarrow> dt_ok t"
  by (auto simp: time_of_def fromisoformat_range split: option.splits)

lemma invoice_of_row_times: "invoice_of_row r = Inr i \<Longrightarrow> invoice_times_ok i"
  by (auto simp: invoice_of_row_def bind_sum_def invoice_times_ok_def split: sum.splits dest: time_of_range)

lemma subscription_of_row_times: "subscription_of_row r = Inr x \<Longrightarrow> storable_subscription x"
  by (auto simp: subscription_of_row_def bind_sum_def storable_subscription_def split: sum.splits dest: time_of_range)

lemma yields_invoice [yields_intros]:
  "yields P (store_invoice k) (\<lambda>r. \<forall>i. r = Some i \<longrightarrow> invoice_times_ok i)"
  by (auto simp: yields_def store_invoice_def gw_simps bind_sum_def dest: invoice_of_row_times
      split: option.splits sum.splits)

lemma yields_subscription [yields_intros]:
  "yields P (store_subscription a) (\<lambda>r. \<forall>x. r = Some x \<longrightarrow> storable_subscription x)"
  by (auto simp: yields_def store_subscription_def gw_simps bind_sum_def dest: subscription_of_row_times
      split: option.splits sum.splits)

lemma keeps_via_yields: "yields P m (\<lambda>_. True) \<Longrightarrow> keeps P m"
  by (rule yields_keeps)

lemma keeps_bind_yields: "yields P m Q \<Longrightarrow> (\<And>x. Q x \<Longrightarrow> keeps P (f x)) \<Longrightarrow> keeps P (bind_gw m f)"
  by (rule keeps_via_yields, rule yields_bind [where Q = Q]) (auto intro: keeps_yields)

lemma keeps_credit [keeps_intros]:
  assumes "kind \<in> {GRANT, PURCHASE}"
  shows "keeps (billing_from L) (credit account tokens kind reference amount memo)"
proof (cases "tokens < 0")
  case True
  then show ?thesis by (simp add: credit_def keeps_raise)
next
  case False
  then have "keeps (billing_from L) (store_append \<lparr>le_id = i, le_account = account, le_kind = kind,
      le_tokens = tokens, le_at = at, le_amount = amount, le_reference = reference, le_memo = memo\<rparr>)"
    if "time_ok at" for i at
    using assms that by (intro keeps_ok_append) (auto simp: well_signed_def time_ok_now)
  with False show ?thesis
    by (simp add: credit_def) (intro keeps_bind keeps_token_hex keeps_bind_yields [OF yields_now])
qed

lemma keeps_grant_period [keeps_intros]: "keeps (billing_from L) (grant_period account p s)"
  unfolding grant_period_def by (intro keeps_intros) simp

lemma balance_reads:
  fixes w :: "'z world_scheme"
  assumes "db_ok w"
  shows "billing_balance account w = (Inr (balance_of account (account_ledger w account)), w)"
  using sqlite.all_entries_are [OF assms, of account]
  by (simp add: billing_balance_def gw_simps account_ledger_def)

lemma bind_balance:
  "db_ok w \<Longrightarrow> bind_gw (billing_balance a) f w = f (balance_of a (account_ledger w a)) w"
  by (simp add: bind_gw_def balance_reads)

lemma tick_ledger [simp]: "account_ledger (snd (tick w)) a = account_ledger w a"
  by (simp add: tick_def account_ledger_def db_entries_def)

lemma keeps_expire_grant [keeps_intros]:
  assumes "time_ok now"
  shows "keeps (billing_from L) (expire_grant account s now)"
proof (rule keepsI)
  fix w :: "'z world_scheme"
  assume ok: "billing_from L w"
  then have db: "db_ok w" and signs: "list_all well_signed (account_ledger w account)"
    by (simp_all add: billing_from_def billing_ok_def ledger_ok_def)
  define b where "b = balance_of account (account_ledger w account)"
  define w1 where "w1 = snd (tick w)"
  have ok1: "billing_from L w1" unfolding w1_def by (rule keepsD [OF keeps_tick ok])
  let ?e = "\<lparr>le_id = w_hex w (w_tick w), le_account = account, le_kind = EXPIRY,
      le_tokens = - bal_granted b, le_at = now, le_amount = Money 0, le_reference = ''expiry:'' @ period_key s,
      le_memo = ''the period ended and its tokens did not roll over''\<rparr>"
  show "billing_from L (snd (expire_grant account s now w))"
  proof (cases "bal_granted b \<le> 0")
    case True
    with ok show ?thesis
      unfolding expire_grant_def bind_balance [OF db] b_def [symmetric]
      by (simp add: return_gw_def)
  next
    case False
    have "snd (expire_grant account s now w) = snd (store_append ?e w1)"
      using False unfolding expire_grant_def bind_balance [OF db] b_def [symmetric]
      by (simp add: entry_id_def token_hex_def gw_simps tick_def w1_def split: prod.splits sum.splits)
    moreover have "0 \<le> fst (replay (account_ledger w account)) + le_tokens ?e"
      by (rule expiry_clears_grant(3) [OF signs, of _ account]) (simp_all add: b_def)
    then have "billing_from L (snd (store_append ?e w1))"
      using False assms
      by (intro append_keeps_ok [OF ok1]) (simp_all add: well_signed_def CREDITS_def time_ok_now w1_def)
    ultimately show ?thesis by simp
  qed
qed

lemma storable_begin: "time_ok now \<Longrightarrow> storable_subscription (subscription_begin a p now)"
  by (simp add: storable_subscription_def subscription_begin_def time_ok_now time_ok_period)

lemma storable_renewed: "time_ok now \<Longrightarrow> storable_subscription (sub_renewed s p now)"
  by (simp add: storable_subscription_def sub_renewed_def time_ok_now time_ok_period)

lemma storable_ended: "storable_subscription s \<Longrightarrow> storable_subscription (sub_ended s)"
  by (simp add: storable_subscription_def sub_ended_def)

lemmas storable_subs = storable_begin storable_renewed storable_ended

lemma keeps_begin_free [keeps_intros]: "time_ok now \<Longrightarrow> keeps (billing_from L) (begin_free bs account now)"
  unfolding begin_free_def
  by (intro keeps_intros yields_keeps [OF yields_put_subscription] storable_subs)

lemma keeps_mirror_chain [keeps_intros]:
  assumes "chain_ok bs"
  shows "keeps (billing_from L) (mirror_chain bs account now)"
proof -
  have "storable_subscription \<lparr>sub_account = a, sub_plan_id = p, sub_started_at = oc_started oc,
      sub_renews_at = oc_expires oc, sub_status = SUB_ACTIVE\<rparr>"
    if "ch_subscription (bs_chain bs) t account = Inr (Some oc)" for t a p oc
    using assms that by (auto simp: chain_ok_def storable_subscription_def)
  then show ?thesis
    unfolding mirror_chain_def Let_def
    by (intro keeps_intros yields_keeps [OF yields_put_subscription]) auto
qed

lemma keeps_plan_or_none [keeps_intros]: "keeps P (plan_or_none bs pid)"
  unfolding plan_or_none_def by (intro keeps_intros)

lemma keeps_settle_due [keeps_intros]:
  "time_ok now \<Longrightarrow> storable_subscription s \<Longrightarrow> keeps (billing_from L) (settle_due bs account now s)"
  unfolding settle_due_def
  by (intro keeps_intros yields_keeps [OF yields_put_subscription] storable_subs)

lemma keeps_settle_period [keeps_intros]:
  assumes "chain_ok bs"
  shows "keeps (billing_from L) (settle_period bs account)"
  unfolding settle_period_def
  by (intro keeps_bind_yields [OF yields_now] keeps_bind [OF keeps_mirror_chain [OF assms]]
      keeps_bind_yields [OF yields_subscription] keeps_option keeps_if keeps_return keeps_begin_free
      keeps_settle_due) auto

lemma keeps_balance [keeps_intros]: "keeps P (billing_balance account)"
  unfolding billing_balance_def by (intro keeps_intros)

lemma keeps_view: "chain_ok bs \<Longrightarrow> keeps (billing_from L) (view bs account n)"
  unfolding view_def by (intro keeps_intros)

lemma keeps_checkout: "keeps (billing_from L) (checkout bs account sku asset)"
  unfolding checkout_def Let_def
  by (intro keeps_bind_yields [OF yields_now] keeps_if keeps_raise keeps_bind keeps_lift keeps_token_hex
      keeps_tick yields_keeps [OF yields_put_invoice])
    (simp_all add: invoice_times_ok_def time_ok_now time_ok_invoice)

lemma keeps_deliver [keeps_intros]: "keeps (billing_from L) (deliver bs i)"
proof -
  have plan: "keeps (billing_from L)
      (bind_gw now_utc (\<lambda>now. bind_gw (store_subscription (inv_account i)) (\<lambda>current.
         then_gw (store_put_subscription
           (case current of
              Some s \<Rightarrow> if sub_plan_id s = plan_id p then sub_renewed s p now
                        else subscription_begin (inv_account i) p now
            | None \<Rightarrow> subscription_begin (inv_account i) p now)) (return_gw ()))))" for p
    by (intro keeps_bind_yields [OF yields_now] keeps_bind keeps_readers keeps_then keeps_return
        yields_keeps [OF yields_put_subscription])
      (auto simp: storable_subs split: option.splits)
  show ?thesis
    unfolding deliver_def
    by (intro keeps_bind keeps_lift keeps_then keeps_credit) (auto simp: keeps_return plan split: product.splits)
qed

lemma keeps_confirm [keeps_intros]: "keeps (billing_from L) (confirm bs k)"
  unfolding confirm_def
  by (intro keeps_bind_yields [OF yields_invoice] keeps_option keeps_raise keeps_if keeps_return keeps_bind
      keeps_tick keeps_lift keeps_bind_yields [OF yields_now] keeps_then keeps_deliver
      yields_keeps [OF yields_put_invoice])
    (auto simp: invoice_times_ok_def inv_expired_def inv_paid_def)

lemma keeps_reconcile_loop [keeps_intros]: "keeps (billing_from L) (reconcile_loop bs is)"
  by (induction "is") (auto intro!: keeps_intros)

lemma keeps_reconcile: "keeps (billing_from L) (reconcile bs limit)"
  unfolding reconcile_def by (intro keeps_intros)

lemma keeps_authorize: "chain_ok bs \<Longrightarrow> keeps (billing_from L) (authorize bs account needed)"
  unfolding authorize_def Let_def by (intro keeps_intros)

lemma keeps_charge: "keeps (billing_from L) (charge bs account run_id u)"
proof -
  have "keeps (billing_from L) (store_append \<lparr>le_id = i, le_account = account, le_kind = USAGE, le_tokens = - n,
      le_at = at, le_amount = use_cost u, le_reference = r, le_memo = m\<rparr>)"
    if "time_ok at" "\<not> n \<le> 0" for i at n r m
    using that by (intro keeps_ok_append) (simp_all add: well_signed_def CREDITS_def time_ok_now)
  then show ?thesis
    unfolding charge_def
    by (intro keeps_bind keeps_lift keeps_if keeps_return keeps_token_hex keeps_bind_yields [OF yields_now])
qed

lemma keeps_submit_subscription: "chain_ok bs \<Longrightarrow> keeps (billing_from L) (submit_subscription bs account xdr)"
  unfolding submit_subscription_def
  by (cases "ch_submit (bs_chain bs)"; cases "ch_available (bs_chain bs)") (auto intro!: keeps_intros)

lemma keeps_subscribe_transaction: "keeps (billing_from L) (subscribe_transaction bs account pid)"
  unfolding subscribe_transaction_def by (intro keeps_intros)

section \<open>Histories\<close>

text \<open>The calls other components make of the service, one at a time. A step is a whole call, with whatever
  it raised.\<close>

inductive billing_call :: "billing_service \<Rightarrow> 'z world_scheme \<Rightarrow> 'z world_scheme \<Rightarrow> bool" for bs where
  call_view: "billing_call bs w (snd (view bs a n w))"
| call_checkout: "billing_call bs w (snd (checkout bs a sku asset w))"
| call_confirm: "billing_call bs w (snd (confirm bs k w))"
| call_reconcile: "billing_call bs w (snd (reconcile bs limit w))"
| call_subscribe: "billing_call bs w (snd (subscribe_transaction bs a pid w))"
| call_submit: "billing_call bs w (snd (submit_subscription bs a xdr w))"
| call_credit: "kind \<in> {GRANT, PURCHASE} \<Longrightarrow> billing_call bs w (snd (credit a n kind ref amount memo w))"
| call_authorize: "billing_call bs w (snd (authorize bs a n w))"
| call_charge: "billing_call bs w (snd (charge bs a run_id u w))"

lemma billing_call_ok: "billing_call bs w w' \<Longrightarrow> chain_ok bs \<Longrightarrow> billing_from L w \<Longrightarrow> billing_from L w'"
  by (induction rule: billing_call.induct)
    (auto intro: keepsD keeps_view keeps_checkout keeps_confirm keeps_reconcile keeps_submit_subscription
      keeps_subscribe_transaction keeps_credit keeps_authorize keeps_charge)

lemma billing_history_ok:
  assumes "(billing_call bs)\<^sup>*\<^sup>* w w'" "chain_ok bs" "billing_ok w"
  shows "billing_ok w'" "prefix (db_entries w) (db_entries w')"
proof -
  have "billing_from (db_entries w) w" using assms(3) by (simp add: billing_from_def)
  with assms(1) have "billing_from (db_entries w) w'"
    by (induction rule: rtranclp_induct) (auto intro: billing_call_ok [OF _ assms(2)])
  then show "billing_ok w'" "prefix (db_entries w) (db_entries w')" by (simp_all add: billing_from_def)
qed

text \<open>C1. After any sequence of calls of the billing service, whatever they answered or raised: the rows that
  were there are still there, unchanged and in place, no two rows share a non-empty reference, and the balance of every account is the sum of its rows, no
  lower than zero, split between a granted and a purchased part that are never negative.\<close>

theorem balance_is_sum_in_every_history:
  assumes "(billing_call bs)\<^sup>*\<^sup>* w w'" "chain_ok bs" "billing_ok w"
  shows "prefix (db_entries w) (db_entries w')
     \<and> distinct (filter (\<lambda>r. r \<noteq> []) (map le_reference (db_entries w')))
     \<and> fst (billing_balance a w') = Inr (balance_of a (account_ledger w' a))
     \<and> bal_total (balance_of a (account_ledger w' a)) = max 0 (token_sum (account_ledger w' a))
     \<and> 0 \<le> bal_granted (balance_of a (account_ledger w' a))
     \<and> 0 \<le> bal_purchased (balance_of a (account_ledger w' a))"
proof -
  have ok: "db_ok w'" "ledger_ok w'" using billing_history_ok [OF assms] by (simp_all add: billing_ok_def)
  then have "bal_total (balance_of a (account_ledger w' a)) = max 0 (token_sum (account_ledger w' a))"
    using total_is_sum [of "account_ledger w' a" a] by (simp add: ledger_ok_def)
  moreover have "distinct (filter (\<lambda>r. r \<noteq> []) (map le_reference (db_entries w')))"
    using ok(1) by (simp add: db_entries_fields db_ok_def)
  ultimately show ?thesis
    using balance_reads [OF ok(1)] balance_nonneg billing_history_ok(2) [OF assms] by simp
qed

text \<open>A world to instantiate the theorems with: empty tables, a clock that counts microseconds, tokens that
  count in decimal.\<close>

definition sample_world :: world where
  "sample_world = \<lparr>db_seq = 0, db_ledger = [], db_invoices = [], db_subscriptions = [],
     w_clock = \<lambda>t. int (t mod 1000000), w_hex = show_nat, w_tick = 0\<rparr>"

definition sample_network :: payment_network where
  "sample_network = \<lparr>net_network = ''stellar-testnet'', net_destination = ''GD'',
     net_payment_for = \<lambda>_ _. Inr (Some (sample_payment ''80.0000000'')), net_quote = \<lambda>_ _ _. Inr ''80.0000000''\<rparr>"

definition sample_service :: billing_service where
  "sample_service = \<lparr>bs_network = sample_network, bs_catalog = default_catalog default_pricing,
     bs_asset = ''XLM'', bs_reserve = DEFAULT_RESERVE, bs_chain = no_subscriptions\<rparr>"

lemma sample_world_ok: "billing_ok sample_world"
proof -
  have "clock_ok sample_world"
  proof -
    have "int (t mod 1000000) < 1000000" for t :: nat by simp
    then show ?thesis
      by (auto simp: clock_ok_def sample_world_def MONTH_def td_days_def dt_ok_def less_le_trans
          intro: less_imp_le)
  qed
  then show ?thesis
    by (simp add: billing_ok_def sample_world_def db_ok_def ledger_ok_def account_ledger_def db_entries_def)
qed

lemma sample_service_chain_ok: "chain_ok sample_service"
  by (simp add: chain_ok_def sample_service_def no_subscriptions_def)

theorem balance_is_sum_in_every_history_witness:
  "prefix (db_entries sample_world) (db_entries (snd (charge sample_service ''GA'' ''r1'' usage_default sample_world)))
   \<and> distinct (filter (\<lambda>r. r \<noteq> [])
       (map le_reference (db_entries (snd (charge sample_service ''GA'' ''r1'' usage_default sample_world)))))
   \<and> bal_total (balance_of ''GA'' (account_ledger (snd (charge sample_service ''GA'' ''r1'' usage_default sample_world)) ''GA''))
     = max 0 (token_sum (account_ledger (snd (charge sample_service ''GA'' ''r1'' usage_default sample_world)) ''GA''))"
  using balance_is_sum_in_every_history [OF r_into_rtranclp [of "billing_call sample_service", OF call_charge]
      sample_service_chain_ok sample_world_ok] by blast

section \<open>Single operations\<close>

lemma tick_fields [simp]:
  "db_entries (w\<lparr>w_tick := n\<rparr>) = db_entries w" "db_ok (w\<lparr>w_tick := n\<rparr>) = db_ok w"
  "db_invoice (w\<lparr>w_tick := n\<rparr>) = db_invoice w" "db_subscription (w\<lparr>w_tick := n\<rparr>) = db_subscription w"
  "account_ledger (w\<lparr>w_tick := n\<rparr>) = account_ledger w"
  by (simp_all add: db_entries_def db_ok_def db_invoice_def db_subscription_def account_ledger_def fun_eq_iff)

text \<open>The row a credit writes, and a credit as one append of it.\<close>

definition credit_row ::
  "string \<Rightarrow> int \<Rightarrow> entry_kind \<Rightarrow> string \<Rightarrow> money \<Rightarrow> string \<Rightarrow> 'z world_scheme \<Rightarrow> ledger_entry" where
  "credit_row account tokens kind reference amount memo w =
     \<lparr>le_id = w_hex w (w_tick w), le_account = account, le_kind = kind, le_tokens = tokens,
      le_at = w_clock w (w_tick w + 1), le_amount = amount, le_reference = reference, le_memo = memo\<rparr>"

lemma credit_appends:
  "0 \<le> tokens \<Longrightarrow>
   credit account tokens kind reference amount memo w =
     store_append (credit_row account tokens kind reference amount memo w) (w\<lparr>w_tick := w_tick w + 2\<rparr>)"
  by (simp add: credit_def credit_row_def entry_id_def token_hex_def now_utc_def tick_def gw_simps)

text \<open>Tokens are fresh: the next ones are different from one another and from the ids in the ledger.\<close>

definition ids_fresh :: "'z world_scheme \<Rightarrow> bool" where
  "ids_fresh w \<longleftrightarrow> inj (w_hex w) \<and> (\<forall>t \<ge> w_tick w. w_hex w t \<notin> le_id ` set (db_entries w))"

lemma credit_row_storable:
  assumes "clock_ok w" "sqlite_int tokens" "sqlite_int (micros amount)"
  shows "storable (credit_row account tokens kind reference amount memo w)"
proof -
  have "time_ok (w_clock w (w_tick w + 1))" using assms(1) by (simp add: clock_ok_def time_ok_def)
  then have "dt_ok (w_clock w (w_tick w + 1))" by (rule time_ok_now)
  with assms show ?thesis by (simp add: storable_def credit_row_def)
qed

lemma credit_new:
  fixes w :: "'z world_scheme"
  assumes ok: "billing_ok w" "ids_fresh w" and n: "0 \<le> tokens" "sqlite_int tokens" "sqlite_int (micros amount)"
    and ref: "reference \<notin> le_reference ` set (db_entries w)"
  shows "\<exists>w'. credit account tokens kind reference amount memo w =
       (Inr (credit_row account tokens kind reference amount memo w), w')
     \<and> db_ok w' \<and> db_entries w' = db_entries w @ [credit_row account tokens kind reference amount memo w]
     \<and> db_invoice w' = db_invoice w \<and> db_subscription w' = db_subscription w
     \<and> w_clock w' = w_clock w \<and> w_hex w' = w_hex w \<and> w_tick w' = w_tick w + 2"
proof -
  let ?e = "credit_row account tokens kind reference amount memo w"
  let ?w = "w\<lparr>w_tick := w_tick w + 2\<rparr>"
  have "storable ?e" using ok(1) n by (intro credit_row_storable) (auto simp: billing_ok_def)
  moreover have "db_ok ?w" using ok(1) by (simp add: billing_ok_def)
  moreover have "le_id ?e \<notin> le_id ` set (db_entries ?w)" using ok(2) by (simp add: ids_fresh_def credit_row_def)
  moreover have "le_reference ?e \<notin> le_reference ` set (db_entries ?w)" using ref by (simp add: credit_row_def)
  ultimately obtain w' where w': "store_append ?e ?w = (Inr ?e, w')" "db_ok w'"
      "db_entries w' = db_entries ?w @ [?e]" "db_invoice w' = db_invoice ?w"
      "db_subscription w' = db_subscription ?w" "db.more w' = db.more ?w"
    using sqlite.append_new [of ?w ?e] by blast
  then show ?thesis using more_fields [OF w'(6)] by (simp add: credit_appends [OF n(1)])
qed

lemma credit_known:
  fixes w :: "'z world_scheme"
  assumes ok: "billing_ok w" and n: "0 \<le> tokens" "sqlite_int tokens" "sqlite_int (micros amount)"
    and f: "f \<in> set (db_entries w)" "le_reference f = reference" "reference \<noteq> []"
  shows "credit account tokens kind reference amount memo w = (Inr f, w\<lparr>w_tick := w_tick w + 2\<rparr>)"
proof -
  have "storable (credit_row account tokens kind reference amount memo w)"
    using ok n by (intro credit_row_storable) (auto simp: billing_ok_def)
  then show ?thesis
    unfolding credit_appends [OF n(1)]
    using ok f by (intro sqlite.append_known) (simp_all add: billing_ok_def credit_row_def)
qed

lemma credit_recorded:
  fixes w :: "'z world_scheme"
  assumes "billing_ok w" "ids_fresh w" "0 \<le> n" "sqlite_int n" "sqlite_int (micros m)" "ref \<noteq> []"
    and "credit a n k ref m memo w = (Inr e, w1)"
  shows "e \<in> set (db_entries w1)" "le_reference e = ref"
proof -
  have "e \<in> set (db_entries w1) \<and> le_reference e = ref"
  proof (cases "ref \<in> le_reference ` set (db_entries w)")
    case True
    then obtain f where f: "f \<in> set (db_entries w)" "le_reference f = ref" by auto
    with credit_known [OF assms(1,3-5) f assms(6), of a k memo] assms(7) show ?thesis by auto
  next
    case False
    from credit_new [OF assms(1-5) False, of a k memo] assms(7) show ?thesis
      by (auto simp: credit_row_def)
  qed
  then show "e \<in> set (db_entries w1)" "le_reference e = ref" by auto
qed

text \<open>C18. A credit lands exactly once, whatever happens in between: once a credit with some reference has
  answered with a row, any later credit with that reference, after any sequence of calls and with any
  account, kind, tokens and memo, answers with that same row and leaves the ledger, the invoices and the
  subscriptions as they are.\<close>

theorem credit_lands_once:
  fixes w w1 w2 :: "'z world_scheme"
  assumes "billing_ok w" "ids_fresh w" "chain_ok bs" "k \<in> {GRANT, PURCHASE}" "ref \<noteq> []"
    and "0 \<le> n" "sqlite_int n" "sqlite_int (micros m)" "credit a n k ref m memo w = (Inr e, w1)"
    and "(billing_call bs)\<^sup>*\<^sup>* w1 w2" "0 \<le> n'" "sqlite_int n'" "sqlite_int (micros m')"
  shows "credit a' n' k' ref m' memo' w2 = (Inr e, w2\<lparr>w_tick := w_tick w2 + 2\<rparr>)"
proof -
  have "billing_from [] w" using assms(1) by (simp add: billing_from_def)
  then have "billing_from [] w1"
    using keepsD [OF keeps_credit [OF assms(4)], of "[]" w a n ref m memo] assms(9) by simp
  then have ok1: "billing_ok w1" by (simp add: billing_from_def)
  have "e \<in> set (db_entries w1)" "le_reference e = ref"
    using credit_recorded [OF assms(1,2,6-8,5,9)] by auto
  moreover have "prefix (db_entries w1) (db_entries w2)" "billing_ok w2"
    using billing_history_ok [OF assms(10,3) ok1] by auto
  then have "set (db_entries w1) \<subseteq> set (db_entries w2)" by (simp add: set_mono_prefix)
  ultimately show ?thesis using \<open>billing_ok w2\<close> assms(5,11-13) by (intro credit_known) auto
qed

lemma show_nat_injective: "inj show_nat"
  by (rule injI) (rule show_nat_inj)

lemma sample_world_fresh: "ids_fresh sample_world"
  by (simp add: ids_fresh_def sample_world_def db_entries_def show_nat_injective)

theorem credit_lands_once_witness:
  "\<exists>e w1. credit ''GA'' 7 PURCHASE ''invoice:x'' (Money 0) [] sample_world = (Inr e, w1)
     \<and> credit ''GB'' 9 GRANT ''invoice:x'' (Money 0) [] w1 = (Inr e, w1\<lparr>w_tick := w_tick w1 + 2\<rparr>)"
proof -
  have r: "sqlite_int 7" "sqlite_int 9" "sqlite_int (micros (Money 0))" by (simp_all add: sqlite_int_def)
  have "''invoice:x'' \<notin> le_reference ` set (db_entries sample_world)"
    by (simp add: sample_world_def db_entries_def)
  from credit_new [OF sample_world_ok sample_world_fresh _ r(1,3) this]
  obtain e w1 where e: "credit ''GA'' 7 PURCHASE ''invoice:x'' (Money 0) [] sample_world = (Inr e, w1)" by fastforce
  have "credit ''GB'' 9 GRANT ''invoice:x'' (Money 0) [] w1 = (Inr e, w1\<lparr>w_tick := w_tick w1 + 2\<rparr>)"
    by (rule credit_lands_once [OF sample_world_ok sample_world_fresh sample_service_chain_ok _ _ _ r(1,3) e
        rtranclp.rtrancl_refl _ r(2,3)]) simp_all
  with e show ?thesis by blast
qed

section \<open>Confirming a payment\<close>

lemma db_invoice_id: "db_ok w \<Longrightarrow> db_invoice w k = Some i \<Longrightarrow> inv_id i = k"
proof -
  assume ok: "db_ok w" and found: "db_invoice w k = Some i"
  then obtain r where r: "find (\<lambda>r. ir_id r = k) (db_invoices w) = Some r" "i = projr (invoice_of_row r)"
    by (auto simp: db_invoice_def)
  then have "ir_id r = k" "r \<in> set (db_invoices w)" by (auto dest: find_key_Some)
  moreover from this ok obtain j where "invoice_of_row r = Inr j"
    by (cases "invoice_of_row r") (auto simp: db_ok_def list_all_iff)
  ultimately show "inv_id i = k" using r(2)
    by (auto simp: invoice_of_row_def bind_sum_def split: sum.splits)
qed

text \<open>Writing an invoice that is there as paid.\<close>

lemma put_paid:
  fixes w :: "'z world_scheme"
  assumes ok: "db_ok w" and i: "db_invoice w k = Some i" "storable_invoice i"
  shows "\<exists>w1. store_put_invoice (inv_paid i tx payer) w = (Inr (inv_paid i tx payer), w1) \<and> db_ok w1
     \<and> db_entries w1 = db_entries w \<and> db_subscription w1 = db_subscription w
     \<and> db_invoice w1 = (db_invoice w)(k \<mapsto> inv_paid i tx payer)
     \<and> w_clock w1 = w_clock w \<and> w_hex w1 = w_hex w \<and> w_tick w1 = w_tick w"
proof -
  let ?paid = "inv_paid i tx payer"
  have k: "inv_id i = k" using db_invoice_id [OF ok i(1)] .
  have "storable_invoice ?paid" using i(2) by (simp add: storable_invoice_def inv_paid_def)
  with ok obtain w1 where w1: "store_put_invoice ?paid w = (Inr ?paid, w1)" "db_ok w1"
      "db_entries w1 = db_entries w" "db_subscription w1 = db_subscription w" "db.more w1 = db.more w"
      "db_invoice w1 = (db_invoice w)(inv_id ?paid \<mapsto>
         (case db_invoice w (inv_id ?paid) of None \<Rightarrow> ?paid | Some old \<Rightarrow> settled_like ?paid old))"
    using sqlite.put_invoice_writes by metis
  have "inv_id ?paid = k" using k by (simp add: inv_paid_def)
  with i(1) w1(6) have "db_invoice w1 = (db_invoice w)(k \<mapsto> ?paid)"
    by (simp add: settled_like_def inv_paid_def)
  then show ?thesis using w1 more_fields [OF w1(5)] by auto
qed

text \<open>What a payment that settles does, up to the delivery: the invoice is written as paid.\<close>

lemma confirm_pays:
  fixes w :: "'z world_scheme"
  assumes ok: "db_ok w" and i: "db_invoice w k = Some i" "inv_status i \<noteq> INV_PAID" "storable_invoice i"
    and pay: "net_payment_for (bs_network bs) (w_tick w) i = Inr (Some p)" "settles p i TOLERANCE_BPS = Inr True"
  shows "\<exists>w1. confirm bs k w =
       bind_gw (deliver bs (inv_paid i (pay_tx_hash p) (pay_payer p)))
         (\<lambda>_. return_gw (inv_paid i (pay_tx_hash p) (pay_payer p))) w1
     \<and> db_ok w1 \<and> db_entries w1 = db_entries w \<and> db_subscription w1 = db_subscription w
     \<and> db_invoice w1 = (db_invoice w)(k \<mapsto> inv_paid i (pay_tx_hash p) (pay_payer p))
     \<and> w_clock w1 = w_clock w \<and> w_hex w1 = w_hex w \<and> w_tick w1 = w_tick w + 1"
proof -
  let ?paid = "inv_paid i (pay_tx_hash p) (pay_payer p)"
  let ?w = "w\<lparr>w_tick := w_tick w + 1\<rparr>"
  have w: "db_ok ?w" "db_invoice ?w k = Some i" using ok i(1) by simp_all
  obtain w1 where w1: "store_put_invoice ?paid ?w = (Inr ?paid, w1)" "db_ok w1" "db_entries w1 = db_entries w"
      "db_subscription w1 = db_subscription w" "db_invoice w1 = (db_invoice w)(k \<mapsto> ?paid)"
      "w_clock w1 = w_clock w" "w_hex w1 = w_hex w" "w_tick w1 = w_tick w + 1"
    using put_paid [OF w i(3), of "pay_tx_hash p" "pay_payer p"] by auto
  moreover have "confirm bs k w = bind_gw (deliver bs ?paid) (\<lambda>_. return_gw ?paid) w1"
    unfolding confirm_def
    using w1(1) i pay sqlite.get_invoice_reads [OF ok, of k] by (simp add: tick_def gw_simps)
  ultimately show ?thesis by auto
qed

lemma later_world_ok:
  fixes w w1 :: "'z world_scheme"
  assumes "billing_ok w" "db_ok w1" "db_entries w1 = db_entries w" "w_clock w1 = w_clock w"
  shows "billing_ok w1"
  using assms by (simp add: billing_ok_def clock_ok_def ledger_ok_def account_ledger_def)

lemma later_world_fresh:
  assumes "ids_fresh w" "db_entries w1 = db_entries w" "w_hex w1 = w_hex w" "w_tick w \<le> w_tick w1"
  shows "ids_fresh w1"
  using assms by (simp add: ids_fresh_def)

lemma confirm_paid:
  "db_ok w \<Longrightarrow> db_invoice w k = Some i \<Longrightarrow> inv_status i = INV_PAID \<Longrightarrow> confirm bs k w = (Inr i, w)"
  using sqlite.get_invoice_reads [of w k] by (simp add: confirm_def gw_simps)

text \<open>C17. A payment that settles a pending invoice for a pack is delivered exactly once: the invoice is read
  back as paid by that payment, the account's ledger gains one PURCHASE row with the invoice's tokens,
  price and reference, no other account's ledger changes, and confirming again returns the paid invoice
  and changes nothing at all.\<close>

theorem confirm_delivers_pack_once:
  fixes w :: "'z world_scheme"
  assumes ok: "billing_ok w" "ids_fresh w"
    and i: "db_invoice w k = Some i" "inv_status i \<noteq> INV_PAID" "storable_invoice i" "0 \<le> inv_tokens i"
    and pay: "net_payment_for (bs_network bs) (w_tick w) i = Inr (Some p)" "settles p i TOLERANCE_BPS = Inr True"
    and pack: "catalog_product (bs_catalog bs) (inv_sku i) = Inr (PackProduct pk)"
    and ref: "''invoice:'' @ k \<notin> le_reference ` set (db_entries w)"
  shows "\<exists>w' e. confirm bs k w = (Inr (inv_paid i (pay_tx_hash p) (pay_payer p)), w')
     \<and> db_invoice w' k = Some (inv_paid i (pay_tx_hash p) (pay_payer p))
     \<and> account_ledger w' (inv_account i) = account_ledger w (inv_account i) @ [e]
     \<and> le_kind e = PURCHASE \<and> le_tokens e = inv_tokens i \<and> le_amount e = inv_price i
     \<and> le_reference e = ''invoice:'' @ k
     \<and> (\<forall>b. b \<noteq> inv_account i \<longrightarrow> account_ledger w' b = account_ledger w b)
     \<and> confirm bs k w' = (Inr (inv_paid i (pay_tx_hash p) (pay_payer p)), w')"
proof -
  let ?paid = "inv_paid i (pay_tx_hash p) (pay_payer p)"
  have db: "db_ok w" using ok(1) by (simp add: billing_ok_def)
  obtain w1 where w1: "confirm bs k w = bind_gw (deliver bs ?paid) (\<lambda>_. return_gw ?paid) w1" "db_ok w1"
      "db_entries w1 = db_entries w" "db_invoice w1 = (db_invoice w)(k \<mapsto> ?paid)" "w_clock w1 = w_clock w"
      "w_hex w1 = w_hex w" "w_tick w1 = w_tick w + 1"
    using confirm_pays [OF db i(1-3) pay] by blast
  have paid: "inv_id ?paid = k" "inv_account ?paid = inv_account i" "inv_tokens ?paid = inv_tokens i"
      "inv_price ?paid = inv_price i" "inv_sku ?paid = inv_sku i" "inv_status ?paid = INV_PAID"
    using db_invoice_id [OF db i(1)] by (simp_all add: inv_paid_def)
  have "billing_ok w1" using later_world_ok [OF ok(1) w1(2,3,5)] .
  moreover have "ids_fresh w1" using w1(6,7) by (intro later_world_fresh [OF ok(2) w1(3)]) auto
  moreover have "sqlite_int (inv_tokens i)" "sqlite_int (micros (inv_price i))"
    using i(3) by (auto simp: storable_invoice_def)
  moreover have "''invoice:'' @ k \<notin> le_reference ` set (db_entries w1)" using ref w1(3) by simp
  ultimately obtain w' e where w': "credit (inv_account i) (inv_tokens i) PURCHASE (''invoice:'' @ k) (inv_price i)
         (pack_name pk @ '' '' @ utf8_middle_dot @ '' '' @ inv_amount ?paid @ '' '' @ inv_asset ?paid) w1 = (Inr e, w')"
      "db_ok w'" "db_entries w' = db_entries w1 @ [e]" "db_invoice w' = db_invoice w1"
      and e: "le_account e = inv_account i" "le_kind e = PURCHASE" "le_tokens e = inv_tokens i"
        "le_amount e = inv_price i" "le_reference e = ''invoice:'' @ k"
    using credit_new [of w1 "inv_tokens i" "inv_price i" "''invoice:'' @ k"] i(4)
    by (fastforce simp: credit_row_def)
  have "confirm bs k w = (Inr ?paid, w')"
    using w'(1) paid pack by (simp add: w1(1) deliver_def gw_simps)
  moreover have "confirm bs k w' = (Inr ?paid, w')"
    using w1(4) w'(2,4) paid by (intro confirm_paid) auto
  ultimately show ?thesis
    using w'(3,4) w1(3,4) e by (intro exI [of _ w'] exI [of _ e]) (simp add: account_ledger_def)
qed

section \<open>What the calls write, and under which references\<close>

text \<open>
  The contract of a predicate of the tables under the calls of the service: \<open>A\<close> are the references rows may be written
  under, \<open>I\<close> the invoices that may be written. The periods and the runs have references of their own, and an invoice
  is only written, and delivered under its own reference, when it was read as one that is not paid.
\<close>

locale ledger_invariant =
  fixes P :: "'z world_scheme \<Rightarrow> bool" and A I :: "string \<Rightarrow> bool"
  assumes ticked: "P w \<Longrightarrow> P (w\<lparr>w_tick := Suc (w_tick w)\<rparr>)"
    and row_written: "A (le_reference e) \<Longrightarrow> keeps P (store_append e)"
    and subscription_written: "keeps P (store_put_subscription x)"
    and invoice_written: "I (inv_id i) \<Longrightarrow> keeps P (store_put_invoice i)"
    and new_invoice: "P w \<Longrightarrow> I (new_invoice_id (w_hex w (w_tick w)))"
    and open_invoice: "yields P (store_invoice k) (\<lambda>found. \<forall>i. found = Some i \<longrightarrow> inv_status i \<noteq> INV_PAID \<longrightarrow> I (inv_id i))"
    and own_references: "A (''grant:'' @ period)" "A (''expiry:'' @ period)" "A (''chain:'' @ period)" "A (''run:'' @ period)"
    and invoice_reference: "I k \<Longrightarrow> A (''invoice:'' @ k)"
begin

lemma led_tick: "keeps P tick"
  by (auto simp: keeps_def tick_def dest: ticked)

lemma led_ticks: "keeps P now_utc" "keeps P token_hex" "keeps P entry_id"
  unfolding now_utc_def token_hex_def entry_id_def by (intro keeps_bind led_tick keeps_gets)+

lemma led_new_id: "yields P token_hex (\<lambda>hex. I (new_invoice_id hex))"
  by (auto simp: yields_def token_hex_def tick_def gw_simps dest: ticked new_invoice)

lemma led_put_invoice: "I (inv_id i) \<Longrightarrow> yields P (store_put_invoice i) (\<lambda>j. j = i)"
  using invoice_written [of i] by (auto simp: yields_def keeps_def store_put_invoice_def split: if_splits)

lemma led_credit: "A ref \<Longrightarrow> keeps P (credit account n kind ref amount memo)"
  unfolding credit_def by (intro keeps_if keeps_raise keeps_bind led_ticks row_written) simp

lemma led_grant: "keeps P (grant_period account p x)"
  unfolding grant_period_def by (intro keeps_then led_credit own_references keeps_return)

lemma led_balance: "keeps P (billing_balance account)"
  by (rule keeps_balance)

lemma led_expire: "keeps P (expire_grant account x now)"
  unfolding expire_grant_def
  by (intro keeps_bind led_balance keeps_if keeps_return led_ticks keeps_then row_written) (simp add: own_references [simplified])

lemma led_begin_free: "keeps P (begin_free bs account now)"
  unfolding begin_free_def by (intro keeps_option keeps_return keeps_bind subscription_written keeps_then led_grant)

lemma led_mirror: "keeps P (mirror_chain bs account now)"
  unfolding mirror_chain_def Let_def
  by (intro keeps_if keeps_return keeps_bind led_tick keeps_sum keeps_option keeps_raise keeps_then subscription_written led_credit
      own_references)

lemma led_settle_due: "keeps P (settle_due bs account now x)"
  unfolding settle_due_def
  by (intro keeps_bind keeps_plan_or_none keeps_then led_expire keeps_option keeps_if subscription_written led_grant keeps_return)

lemma led_settle_period: "keeps P (settle_period bs account)"
  unfolding settle_period_def
  by (intro keeps_bind led_ticks led_mirror keeps_option keeps_return keeps_readers led_begin_free keeps_if led_settle_due)

lemma led_view: "keeps P (view bs account n)"
  unfolding view_def
  by (intro keeps_bind led_settle_period keeps_option keeps_return keeps_plan_or_none keeps_readers led_balance)

lemma led_checkout: "keeps P (checkout bs account sku asset)"
  unfolding checkout_def Let_def
  by (intro keeps_bind keeps_lift keeps_if keeps_raise led_ticks keeps_bind_yields [OF led_new_id] led_tick invoice_written) simp

lemma led_deliver: "I (inv_id i) \<Longrightarrow> keeps P (deliver bs i)"
  unfolding deliver_def
  by (intro keeps_bind keeps_lift keeps_then led_credit invoice_reference)
     (auto split: product.splits intro!: keeps_return keeps_bind led_ticks keeps_readers keeps_then subscription_written)

lemma led_confirm: "keeps P (confirm bs k)"
proof -
  have "keeps P (bind_gw (store_put_invoice (inv_paid i tx payer)) (\<lambda>paid. then_gw (deliver bs paid) (return_gw paid)))"
    if "I (inv_id i)" for i tx payer
    using that by (intro keeps_bind_yields [OF led_put_invoice] keeps_then led_deliver keeps_return) (auto simp: inv_paid_def)
  then show ?thesis
    unfolding confirm_def
    by (intro keeps_bind_yields [OF open_invoice] keeps_option keeps_raise keeps_if keeps_return keeps_bind [OF led_tick]
        keeps_bind [OF keeps_lift] keeps_bind [OF led_ticks(1)] invoice_written) (auto simp: inv_expired_def)
qed

lemma led_reconcile: "keeps P (reconcile bs limit)"
proof -
  have "keeps P (reconcile_loop bs is)" for "is"
    by (induction "is") (auto intro!: keeps_return keeps_bind keeps_catch led_confirm keeps_if keeps_raise)
  then show ?thesis unfolding reconcile_def by (intro keeps_bind keeps_readers)
qed

lemma led_subscribe: "keeps P (subscribe_transaction bs account pid)"
  unfolding subscribe_transaction_def
  by (intro keeps_bind keeps_lift keeps_if keeps_raise keeps_option led_tick keeps_return)

lemma led_submit: "keeps P (submit_subscription bs account xdr)"
  unfolding submit_subscription_def
  by (cases "ch_available (bs_chain bs)"; cases "ch_submit (bs_chain bs)")
     (auto intro!: keeps_raise keeps_bind led_tick keeps_lift led_settle_period keeps_return)

lemma led_authorize: "keeps P (authorize bs account n)"
  unfolding authorize_def Let_def by (intro keeps_then led_settle_period keeps_bind led_balance keeps_if keeps_raise keeps_return)

lemma led_charge: "keeps P (charge bs account run_id u)"
  unfolding charge_def
  by (intro keeps_bind keeps_lift keeps_if keeps_return led_ticks row_written) (simp add: own_references [simplified])

end

text \<open>A call of the service that is not a credit made under a given reference from outside.\<close>

inductive call_but_credit :: "billing_service \<Rightarrow> string \<Rightarrow> 'z world_scheme \<Rightarrow> 'z world_scheme \<Rightarrow> bool" for bs ref where
  "call_but_credit bs ref w (snd (view bs a n w))"
| "call_but_credit bs ref w (snd (checkout bs a sku asset w))"
| "call_but_credit bs ref w (snd (confirm bs k w))"
| "call_but_credit bs ref w (snd (reconcile bs limit w))"
| "call_but_credit bs ref w (snd (subscribe_transaction bs a pid w))"
| "call_but_credit bs ref w (snd (submit_subscription bs a xdr w))"
| "kind \<in> {GRANT, PURCHASE} \<Longrightarrow> other \<noteq> ref \<Longrightarrow> call_but_credit bs ref w (snd (credit a n kind other amount memo w))"
| "call_but_credit bs ref w (snd (authorize bs a n w))"
| "call_but_credit bs ref w (snd (charge bs a run_id u w))"

lemma call_but_credit_is_call: "call_but_credit bs ref w w' \<Longrightarrow> billing_call bs w w'"
  by (induction rule: call_but_credit.induct) (rule billing_call.intros, assumption?)+

text \<open>An invoice that is stored as paid and was not delivered; no invoice still to be made takes its id.\<close>

definition undelivered :: "string \<Rightarrow> invoice_row \<Rightarrow> 'z world_scheme \<Rightarrow> bool" where
  "undelivered k row w \<longleftrightarrow> find (\<lambda>r. ir_id r = k) (db_invoices w) = Some row \<and> (\<exists>i. invoice_of_row row = Inr i \<and> inv_status i = INV_PAID)
     \<and> ''invoice:'' @ k \<notin> lr_reference ` set (db_ledger w) \<and> (\<forall>n\<ge>w_tick w. new_invoice_id (w_hex w n) \<noteq> k)"

lemma find_upsert_other:
  "ir_id new \<noteq> k \<Longrightarrow> find (\<lambda>r. ir_id r = k) rows = Some row \<Longrightarrow> find (\<lambda>r. ir_id r = k) (upsert_invoice new rows) = Some row"
proof -
  have kept: "find (\<lambda>r. ir_id r = k) (map (\<lambda>r. if ir_id r = j then r\<lparr>ir_status := a, ir_tx_hash := b, ir_payer := c\<rparr> else r) rows)
      = find (\<lambda>r. ir_id r = k) rows" if "j \<noteq> k" for j a b c
    using that by (induction rows) auto
  have "find P (xs @ ys) = (case find P xs of None \<Rightarrow> find P ys | found \<Rightarrow> found)" for P :: "invoice_row \<Rightarrow> bool" and xs ys
    by (induction xs) auto
  then show "ir_id new \<noteq> k \<Longrightarrow> find (\<lambda>r. ir_id r = k) rows = Some row \<Longrightarrow> find (\<lambda>r. ir_id r = k) (upsert_invoice new rows) = Some row"
    by (simp add: upsert_invoice_def kept)
qed

lemma undelivered_append: "le_reference e \<noteq> ''invoice:'' @ k \<Longrightarrow> keeps (undelivered k row) (store_append e)"
  by (auto simp: keeps_def undelivered_def store_append_def insert_ledger_def select_reference_def row_of_entry_def catch_gw_def gw_simps
      split: prod.splits sum.splits option.splits if_splits)

lemma undelivered_open:
  assumes "undelivered k row w" "fst (store_invoice j w) = Inr (Some i)" "inv_status i \<noteq> INV_PAID"
  shows "inv_id i \<noteq> k"
proof -
  from assms(2) obtain r where r: "find (\<lambda>r. ir_id r = j) (db_invoices w) = Some r" "invoice_of_row r = Inr i"
    by (auto simp: store_invoice_def gw_simps bind_sum_def split: option.splits sum.splits)
  have "inv_id i = ir_id r" using r(2) by (auto simp: invoice_of_row_def bind_sum_def split: sum.splits)
  then have "inv_id i = j" using find_key_Some [OF r(1)] by simp
  with assms(1,3) r show ?thesis by (auto simp: undelivered_def)
qed

interpretation lost: ledger_invariant "undelivered k row" "\<lambda>ref. ref \<noteq> ''invoice:'' @ k" "\<lambda>j. j \<noteq> k" for k row
proof unfold_locales
  fix w :: "'a world_scheme" and i j
  show "le_reference e \<noteq> ''invoice:'' @ k \<Longrightarrow> keeps (undelivered k row) (store_append e)" for e by (rule undelivered_append)
  show "inv_id i \<noteq> k \<Longrightarrow> keeps (undelivered k row) (store_put_invoice i)"
    by (auto simp: keeps_def undelivered_def store_put_invoice_def row_of_invoice_def intro!: find_upsert_other)
  show "yields (undelivered k row) (store_invoice j) (\<lambda>found. \<forall>i. found = Some i \<longrightarrow> inv_status i \<noteq> INV_PAID \<longrightarrow> inv_id i \<noteq> k)"
    using keepsD [OF keeps_readers(3), of "undelivered k row"] undelivered_open by (fastforce simp: yields_def)
qed (auto simp: undelivered_def keeps_def store_put_subscription_def split: if_splits)

lemma undelivered_call: "call_but_credit bs (''invoice:'' @ k) w w' \<Longrightarrow> undelivered k row w \<Longrightarrow> undelivered k row w'"
  by (induction rule: call_but_credit.induct)
     (auto simp del: append.simps intro: keepsD lost.led_view lost.led_checkout lost.led_confirm lost.led_reconcile lost.led_subscribe lost.led_submit
        lost.led_credit lost.led_authorize lost.led_charge)

lemma undelivered_history:
  "(call_but_credit bs (''invoice:'' @ k))\<^sup>*\<^sup>* w w' \<Longrightarrow> undelivered k row w \<Longrightarrow> undelivered k row w'"
  by (induction rule: rtranclp_induct) (auto intro: undelivered_call)

lemma undelivered_reads:
  assumes "undelivered k row w" "invoice_of_row row = Inr i"
  shows "confirm bs k w = (Inr i, w)"
  using assms by (auto simp: undelivered_def confirm_def store_invoice_def gw_simps bind_sum_def)

text \<open>C30. An invoice whose product the catalog does not sell is marked paid and never delivered. It is what
  confirming an invoice raised by the x402 challenge does, because its sku is not in the catalog: the call
  raises after writing the payment down, and no row is written. And nothing makes up for it later: after any further
  calls of the service (reading, buying, confirming this or any other invoice, reconciling, metering, crediting
  something else) the invoice is still paid, no row carries its reference, and confirming it returns it and writes
  nothing. Ids of later invoices are taken to differ from its own.\<close>

theorem confirm_unknown_product_loses_payment:
  fixes w :: "'z world_scheme"
  assumes ok: "billing_ok w" "chain_ok bs"
    and i: "db_invoice w k = Some i" "inv_status i \<noteq> INV_PAID" "storable_invoice i"
    and pay: "net_payment_for (bs_network bs) (w_tick w) i = Inr (Some p)" "settles p i TOLERANCE_BPS = Inr True"
    and unknown: "catalog_product (bs_catalog bs) (inv_sku i) = Inl (UnknownProductError (inv_sku i))"
    and fresh: "''invoice:'' @ k \<notin> le_reference ` set (db_entries w)" "\<forall>n\<ge>w_tick w. new_invoice_id (w_hex w n) \<noteq> k"
    and first: "confirm bs k w = (result, w1)"
    and later: "(call_but_credit bs (''invoice:'' @ k))\<^sup>*\<^sup>* w1 w2"
  shows "result = Inl (UnknownProductError (inv_sku i)) \<and> db_entries w1 = db_entries w
     \<and> db_invoice w2 k = Some (inv_paid i (pay_tx_hash p) (pay_payer p))
     \<and> ''invoice:'' @ k \<notin> le_reference ` set (db_entries w2)
     \<and> confirm bs k w2 = (Inr (inv_paid i (pay_tx_hash p) (pay_payer p)), w2)"
proof -
  let ?paid = "inv_paid i (pay_tx_hash p) (pay_payer p)"
  have db: "db_ok w" using ok(1) by (simp add: billing_ok_def)
  obtain w' where w': "confirm bs k w = bind_gw (deliver bs ?paid) (\<lambda>_. return_gw ?paid) w'" "db_ok w'"
      "db_entries w' = db_entries w" "db_invoice w' = (db_invoice w)(k \<mapsto> ?paid)" "w_clock w' = w_clock w"
      "w_hex w' = w_hex w" "w_tick w' = w_tick w + 1"
    using confirm_pays [OF db i pay] by blast
  have "inv_sku ?paid = inv_sku i" "inv_status ?paid = INV_PAID" by (simp_all add: inv_paid_def)
  then have one: "result = Inl (UnknownProductError (inv_sku i))" "w1 = w'"
    using unknown first by (auto simp: w'(1) deliver_def gw_simps)
  from w'(4) have "db_invoice w' k = Some ?paid" by simp
  then obtain row where row: "find (\<lambda>r. ir_id r = k) (db_invoices w') = Some row" "projr (invoice_of_row row) = ?paid"
    by (auto simp: db_invoice_def)
  moreover have "\<exists>j. invoice_of_row row = Inr j"
    using w'(2) find_key_Some [OF row(1)] by (cases "invoice_of_row row") (auto simp: db_ok_def list_all_iff)
  ultimately have read: "invoice_of_row row = Inr ?paid" by auto
  have refs: "le_reference ` set (db_entries v) = lr_reference ` set (db_ledger v)" if "db_ok v" for v :: "'z world_scheme"
    using db_entries_fields(2) [OF that] by (metis list.set_map)
  have "undelivered k row w'"
    using row(1) read fresh w'(3,6,7) refs [OF w'(2)] by (auto simp: undelivered_def inv_paid_def)
  with later one(2) have out: "undelivered k row w2" by (blast intro: undelivered_history)
  have "(billing_call bs)\<^sup>*\<^sup>* w1 w2"
    using later by (rule mono_rtranclp [rule_format, rotated]) (rule call_but_credit_is_call)
  moreover have "billing_ok w1" using later_world_ok [OF ok(1) w'(2,3,5)] one(2) by simp
  ultimately have "db_ok w2" using billing_history_ok(1) [OF _ ok(2)] by (auto simp: billing_ok_def)
  with out have "''invoice:'' @ k \<notin> le_reference ` set (db_entries w2)" using refs by (simp add: undelivered_def)
  moreover have "db_invoice w2 k = Some ?paid" using out read by (simp add: undelivered_def db_invoice_def)
  ultimately show ?thesis using one w'(3) undelivered_reads [OF out read] by simp
qed

definition invoice_world :: "invoice \<Rightarrow> world" where
  "invoice_world i = sample_world\<lparr>db_invoices := [row_of_invoice i]\<rparr>"

lemma invoice_world_facts:
  assumes "storable_invoice i"
  shows "billing_ok (invoice_world i)" "db_invoice (invoice_world i) (inv_id i) = Some i" "ids_fresh (invoice_world i)"
    "db_entries (invoice_world i) = []"
proof -
  have row: "invoice_of_row (row_of_invoice i) = Inr i"
    using assms by (simp add: storable_invoice_def invoice_row_roundtrip)
  have "db_ok (invoice_world i)" using row by (simp add: invoice_world_def db_ok_def sample_world_def)
  then show "billing_ok (invoice_world i)"
    by (rule later_world_ok [OF sample_world_ok]) (simp_all add: invoice_world_def db_entries_def)
  show "ids_fresh (invoice_world i)"
    by (rule later_world_fresh [OF sample_world_fresh]) (simp_all add: invoice_world_def db_entries_def)
  show "db_invoice (invoice_world i) (inv_id i) = Some i" "db_entries (invoice_world i) = []"
    using row by (simp_all add: db_invoice_def invoice_world_def db_entries_def sample_world_def)
      (simp add: row_of_invoice_def)
qed

lemma sample_invoice_pending: "inv_status sample_invoice \<noteq> INV_PAID" "0 \<le> inv_tokens sample_invoice"
  by (simp_all add: sample_invoice_def)

theorem confirm_delivers_pack_once_witness:
  "\<exists>w' e. confirm sample_service ''cz01'' (invoice_world sample_invoice)
       = (Inr (inv_paid sample_invoice ''ab'' ''GB''), w')
     \<and> account_ledger w' ''GA'' = [e] \<and> le_tokens e = 1000000
     \<and> confirm sample_service ''cz01'' w' = (Inr (inv_paid sample_invoice ''ab'' ''GB''), w')"
proof -
  note i = invoice_world_facts [OF sample_invoice_storable]
  have id: "inv_id sample_invoice = ''cz01''" by (simp add: sample_invoice_def)
  have pay: "net_payment_for (bs_network sample_service) (w_tick (invoice_world sample_invoice)) sample_invoice
      = Inr (Some (sample_payment ''80.0000000''))"
    by (simp add: sample_service_def sample_network_def)
  have pack: "\<exists>pk. catalog_product (bs_catalog sample_service) (inv_sku sample_invoice) = Inr (PackProduct pk)"
    by (simp add: catalog_product_def sample_service_def default_catalog_def sample_invoice_def FREE_PLAN_ID_def)
  have "account_ledger (invoice_world sample_invoice) a = []" for a
    using i(4) by (simp add: account_ledger_def)
  with pack confirm_delivers_pack_once [OF i(1,3) i(2) [unfolded id] sample_invoice_pending(1)
      sample_invoice_storable sample_invoice_pending(2) pay sample_payment_settles] i(4)
  show ?thesis by (fastforce simp: sample_invoice_def sample_payment_def)
qed

lemma settles_sku: "settles p (i\<lparr>inv_sku := sku\<rparr>) t = settles p i t"
  by (simp add: settles_def inv_memo_def cong: option.case_cong)

lemma no_leading_zero: "show_nat n \<noteq> ''01''"
proof
  assume n: "show_nat n = ''01''"
  have "nat_of_digits 0 ''01'' = 1" by code_simp
  then have "n = 1" using nat_of_show_nat [of n] n by simp
  moreover have "show_nat 1 \<noteq> ''01''" by code_simp
  ultimately show False using n by simp
qed

theorem confirm_unknown_product_loses_payment_witness:
  "\<exists>w1. confirm sample_service ''cz01'' (invoice_world (sample_invoice\<lparr>inv_sku := ''x402''\<rparr>))
       = (Inl (UnknownProductError ''x402''), w1)
     \<and> db_entries w1 = []
     \<and> (let w2 = snd (reconcile sample_service 10 w1)
        in confirm sample_service ''cz01'' w2 = (Inr (inv_paid (sample_invoice\<lparr>inv_sku := ''x402''\<rparr>) ''ab'' ''GB''), w2))"
proof -
  let ?i = "sample_invoice\<lparr>inv_sku := ''x402''\<rparr>"
  have st: "storable_invoice ?i" using sample_invoice_storable by (simp add: storable_invoice_def)
  note i = invoice_world_facts [OF st]
  have id: "inv_id ?i = ''cz01''" "inv_status ?i \<noteq> INV_PAID" "inv_sku ?i = ''x402''"
    by (simp_all add: sample_invoice_def)
  have pay: "net_payment_for (bs_network sample_service) (w_tick (invoice_world ?i)) ?i
      = Inr (Some (sample_payment ''80.0000000''))"
    by (simp add: sample_service_def sample_network_def)
  have settles: "settles (sample_payment ''80.0000000'') ?i TOLERANCE_BPS = Inr True"
    using sample_payment_settles by (simp add: settles_sku)
  have unknown: "catalog_product (bs_catalog sample_service) (inv_sku ?i) = Inl (UnknownProductError (inv_sku ?i))"
    by (simp add: catalog_product_def sample_service_def default_catalog_def FREE_PLAN_ID_def)
  have ids: "\<forall>n\<ge>w_tick (invoice_world ?i). new_invoice_id (w_hex (invoice_world ?i) n) \<noteq> ''cz01''"
    using no_leading_zero by (simp add: invoice_world_def sample_world_def new_invoice_id_def)
  obtain res w1 where first: "confirm sample_service ''cz01'' (invoice_world ?i) = (res, w1)" by fastforce
  have later: "(call_but_credit sample_service (''invoice:'' @ ''cz01''))\<^sup>*\<^sup>* w1 (snd (reconcile sample_service 10 w1))"
    by (rule r_into_rtranclp) (rule call_but_credit.intros)
  from confirm_unknown_product_loses_payment [OF i(1) sample_service_chain_ok i(2) [unfolded id(1)] id(2) st pay settles unknown _ ids first later] i(4) first id(3)
  show ?thesis by (auto simp: sample_payment_def Let_def)
qed

end
