(* ===== verification/Billing_Periods.thy ===== *)
theory Billing_Periods
  imports Billing_Guarantees
begin

text \<open>
  What the billing service does with periods and runs: the free week begins once and renews without
  rolling over, a run is authorised against the balance and charged once, and what happens when two
  accounts share the key of a period, which does not name the account.
\<close>

section \<open>Rows written with the next token\<close>

text \<open>An append whose id is a token not drawn before lands, or finds its reference taken.\<close>

lemma append_drawn:
  fixes w :: "'z world_scheme"
  assumes ok: "db_ok w" "ids_fresh w" and e: "le_id e = w_hex w t" "w_tick w \<le> t" "storable e"
    and ref: "le_reference e \<notin> le_reference ` set (db_entries w)"
  shows "\<exists>w'. store_append e (w\<lparr>w_tick := n\<rparr>) = (Inr e, w') \<and> db_ok w' \<and> db_entries w' = db_entries w @ [e]
     \<and> db_invoice w' = db_invoice w \<and> db_subscription w' = db_subscription w
     \<and> w_clock w' = w_clock w \<and> w_hex w' = w_hex w \<and> w_tick w' = n"
proof -
  let ?w = "w\<lparr>w_tick := n\<rparr>"
  have "le_id e \<notin> le_id ` set (db_entries ?w)" using ok(2) e(1,2) by (simp add: ids_fresh_def)
  moreover have "db_ok ?w" "le_reference e \<notin> le_reference ` set (db_entries ?w)" using ok(1) ref by simp_all
  ultimately obtain w' where w': "store_append e ?w = (Inr e, w')" "db_ok w'"
      "db_entries w' = db_entries ?w @ [e]" "db_invoice w' = db_invoice ?w"
      "db_subscription w' = db_subscription ?w" "db.more w' = db.more ?w"
    using sqlite.append_new [of ?w e] e(3) by blast
  then show ?thesis using more_fields [OF w'(6)] by simp
qed

lemma fresh_after_append:
  assumes "ids_fresh w" "w_hex w' = w_hex w" "db_entries w' = db_entries w @ [e]" "le_id e = w_hex w t" "t < w_tick w'"
    and "w_tick w \<le> w_tick w'"
  shows "ids_fresh w'"
  using assms by (auto simp: ids_fresh_def dest: injD)

section \<open>Charging a run\<close>

definition charge_row :: "string \<Rightarrow> string \<Rightarrow> usage \<Rightarrow> int \<Rightarrow> 'z world_scheme \<Rightarrow> ledger_entry" where
  "charge_row account run_id u tokens w =
     \<lparr>le_id = w_hex w (w_tick w), le_account = account, le_kind = USAGE, le_tokens = - tokens,
      le_at = w_clock w (w_tick w + 1), le_amount = use_cost u, le_reference = ''run:'' @ run_id,
      le_memo = show_commas (use_tokens u) @ '' tokens '' @ utf8_middle_dot @ '' ''
        @ show_int (use_calls u) @ '' calls''\<rparr>"

lemma charge_appends:
  "billable (cat_pricing (bs_catalog bs)) u = Inr n \<Longrightarrow> 0 < n \<Longrightarrow>
   charge bs a r u w = bind_gw (store_append (charge_row a r u n w)) (\<lambda>e. return_gw (Some e)) (w\<lparr>w_tick := w_tick w + 2\<rparr>)"
  by (simp add: charge_def charge_row_def entry_id_def token_hex_def now_utc_def tick_def gw_simps)

lemma clock_dt: "clock_ok w \<Longrightarrow> dt_ok (w_clock w t)"
  by (rule time_ok_now) (simp add: clock_ok_def time_ok_def)

text \<open>C34. A run is debited once. Charging a run that was not charged writes one USAGE row of exactly the
  billable tokens on its account and on no other; charging the same run again, with whatever usage,
  answers with that row and writes nothing.\<close>

theorem charge_debits_once:
  fixes w :: "'z world_scheme"
  assumes ok: "billing_ok w" "ids_fresh w"
    and n: "billable (cat_pricing (bs_catalog bs)) u = Inr n" "0 < n" "sqlite_int n" "sqlite_int (micros (use_cost u))"
    and ref: "''run:'' @ r \<notin> le_reference ` set (db_entries w)"
    and n': "billable (cat_pricing (bs_catalog bs)) u' = Inr n'" "0 < n'" "sqlite_int n'" "sqlite_int (micros (use_cost u'))"
  shows "\<exists>e w'. charge bs a r u w = (Inr (Some e), w')
     \<and> account_ledger w' a = account_ledger w a @ [e] \<and> le_kind e = USAGE \<and> le_tokens e = - n
     \<and> (\<forall>b. b \<noteq> a \<longrightarrow> account_ledger w' b = account_ledger w b)
     \<and> token_sum (account_ledger w' a) = token_sum (account_ledger w a) - n
     \<and> charge bs a r u' w' = (Inr (Some e), w'\<lparr>w_tick := w_tick w' + 2\<rparr>)"
proof -
  have db: "db_ok w" and clock: "clock_ok w" using ok(1) by (simp_all add: billing_ok_def)
  let ?e = "charge_row a r u n w"
  have neg: "sqlite_int (- k)" if "0 < k" "sqlite_int k" for k using that by (simp add: sqlite_int_def)
  have "storable ?e" using n neg clock_dt [OF clock] by (simp add: storable_def charge_row_def)
  then obtain w' where w': "store_append ?e (w\<lparr>w_tick := w_tick w + 2\<rparr>) = (Inr ?e, w')" "db_ok w'"
      "db_entries w' = db_entries w @ [?e]" "w_clock w' = w_clock w"
    using append_drawn [OF db ok(2), of ?e "w_tick w" "w_tick w + 2"] ref by (auto simp: charge_row_def)
  have first: "charge bs a r u w = (Inr (Some ?e), w')"
    using charge_appends [OF n(1,2), of a r w] w'(1) by (simp add: bind_gw_def return_gw_def)
  let ?e' = "charge_row a r u' n' w'"
  have "clock_ok w'" using clock w'(4) by (simp add: clock_ok_def)
  then have "storable ?e'" using n' neg clock_dt [of w'] by (simp add: storable_def charge_row_def)
  then have "store_append ?e' (w'\<lparr>w_tick := w_tick w' + 2\<rparr>) = (Inr ?e, w'\<lparr>w_tick := w_tick w' + 2\<rparr>)"
    using w'(2,3) by (intro sqlite.append_known) (simp_all add: charge_row_def)
  then have "charge bs a r u' w' = (Inr (Some ?e), w'\<lparr>w_tick := w_tick w' + 2\<rparr>)"
    using charge_appends [OF n'(1,2), of a r w'] by (simp add: bind_gw_def return_gw_def)
  with first w'(3) show ?thesis
    by (intro exI [of _ ?e] exI [of _ w']) (simp add: account_ledger_def charge_row_def token_sum_def)
qed

definition sample_usage :: usage where
  "sample_usage = \<lparr>use_tokens = 1200, use_calls = 3, use_cost = Money 0, use_simulated = False\<rparr>"

lemma sample_usage_billable:
  "billable (cat_pricing (bs_catalog sample_service)) sample_usage = Inr (max (minimum_charge default_pricing) 1200)"
  by (simp add: billable_def sample_usage_def usage_is_empty_def money_is_zero_def sample_service_def default_catalog_def)

theorem charge_debits_once_witness:
  "\<exists>e w'. charge sample_service ''GA'' ''r1'' sample_usage sample_world = (Inr (Some e), w')
     \<and> account_ledger w' ''GA'' = [e]
     \<and> charge sample_service ''GA'' ''r1'' sample_usage w' = (Inr (Some e), w'\<lparr>w_tick := w_tick w' + 2\<rparr>)"
proof -
  have n: "0 < max (minimum_charge default_pricing) 1200" "sqlite_int (max (minimum_charge default_pricing) 1200)"
      "sqlite_int (micros (use_cost sample_usage))"
    by (simp_all add: default_pricing_def sqlite_int_def sample_usage_def)
  have "''run:'' @ ''r1'' \<notin> le_reference ` set (db_entries sample_world)"
      "account_ledger sample_world ''GA'' = []"
    by (simp_all add: sample_world_def db_entries_def account_ledger_def)
  with charge_debits_once [OF sample_world_ok sample_world_fresh sample_usage_billable n _ sample_usage_billable n,
      of "''r1''" "''GA''"]
  show ?thesis by auto
qed

section \<open>Authorising a run\<close>

lemma settle_keeps_ok:
  assumes "billing_ok w" "chain_ok bs" "settle_period bs a w = (r, w1)"
  shows "billing_ok w1"
  using keepsD [OF keeps_settle_period [OF assms(2)], of "[]" w a] assms(1,3) by (simp add: billing_from_def)

lemma authorize_settled:
  fixes w :: "'z world_scheme"
  assumes "billing_ok w" "chain_ok bs" "settle_period bs a w = (Inr s, w1)" "0 < bs_reserve bs"
  shows "authorize bs a needed w =
     (if max needed (bs_reserve bs) \<le> token_sum (account_ledger w1 a)
      then (Inr (balance_of a (account_ledger w1 a)), w1)
      else (Inl (InsufficientFundsError (max needed (bs_reserve bs)) (max 0 (token_sum (account_ledger w1 a)))), w1))"
proof -
  have ok: "db_ok w1" "ledger_ok w1" using settle_keeps_ok [OF assms(1-3)] by (simp_all add: billing_ok_def)
  then have total: "bal_total (balance_of a (account_ledger w1 a)) = max 0 (token_sum (account_ledger w1 a))"
    by (intro total_is_sum) (simp_all add: ledger_ok_def)
  have "authorize bs a needed w =
      bind_gw (billing_balance a) (\<lambda>balance.
        let required = max needed (bs_reserve bs)
        in if \<not> can_afford balance required then raise_gw (InsufficientFundsError required (bal_total balance))
           else return_gw balance) w1"
    using assms(3) by (simp add: authorize_def then_gw_def bind_gw_def)
  with total assms(4) show ?thesis
    by (auto simp: bind_balance [OF ok(1)] can_afford_def Let_def raise_gw_def return_gw_def)
qed

text \<open>A run may start exactly when, with the account's period brought up to date, the sum of its rows
  reaches the reserve and what was asked for; otherwise the call raises \<^verbatim>\<open>InsufficientFundsError\<close> with both
  numbers. Either way it debits nothing.\<close>

theorem authorize_decides:
  fixes w :: "'z world_scheme"
  assumes "billing_ok w" "chain_ok bs" "settle_period bs a w = (Inr s, w1)" "0 < bs_reserve bs"
  shows "authorize bs a needed w =
     (if max needed (bs_reserve bs) \<le> token_sum (account_ledger w1 a)
      then (Inr (balance_of a (account_ledger w1 a)), w1)
      else (Inl (InsufficientFundsError (max needed (bs_reserve bs)) (max 0 (token_sum (account_ledger w1 a)))), w1))"
  using assms by (rule authorize_settled)

section \<open>The free week\<close>

lemma sub_writes:
  fixes w :: "'z world_scheme"
  assumes "db_ok w" "storable_subscription x"
  obtains w' where "store_put_subscription x w = (Inr x, w')" "db_ok w'" "db_entries w' = db_entries w"
    "db_invoice w' = db_invoice w" "db_subscription w' = (db_subscription w)(sub_account x \<mapsto> x)"
    "w_clock w' = w_clock w" "w_hex w' = w_hex w" "w_tick w' = w_tick w"
proof -
  from sqlite.put_subscription_writes [OF assms] obtain w' where
    "store_put_subscription x w = (Inr x, w')" "db_ok w'" "db_entries w' = db_entries w"
    "db_invoice w' = db_invoice w" "db_subscription w' = (db_subscription w)(sub_account x \<mapsto> x)"
    "db.more w' = db.more w" by blast
  with more_fields [of w' w] that show thesis by blast
qed

text \<open>Putting an account on a plan and granting its tokens: the two writes of \<^verbatim>\<open>_begin_free\<close> and of a renewal.\<close>

lemma put_and_grant:
  fixes w :: "'z world_scheme"
  assumes ok: "billing_ok w" "ids_fresh w" and s: "storable_subscription s" "sub_account s = a"
    and p: "0 \<le> plan_tokens p" "sqlite_int (plan_tokens p)"
    and ref: "''grant:'' @ period_key s \<notin> le_reference ` set (db_entries w)"
  shows "\<exists>e w'. bind_gw (store_put_subscription s) (\<lambda>x. then_gw (grant_period a p x) (return_gw (Some x))) w
       = (Inr (Some s), w')
     \<and> db_ok w' \<and> db_entries w' = db_entries w @ [e] \<and> db_subscription w' = (db_subscription w)(a \<mapsto> s)
     \<and> le_account e = a \<and> le_kind e = GRANT \<and> le_tokens e = plan_tokens p
     \<and> w_clock w' = w_clock w \<and> w_tick w' = w_tick w + 2"
proof -
  have "db_ok w" using ok(1) by (simp add: billing_ok_def)
  from sub_writes [OF this s(1)] obtain w1 where
    w1: "store_put_subscription s w = (Inr s, w1)" "db_ok w1" "db_entries w1 = db_entries w"
      "db_subscription w1 = (db_subscription w)(a \<mapsto> s)" "w_clock w1 = w_clock w" "w_hex w1 = w_hex w"
      "w_tick w1 = w_tick w"
    unfolding s(2) by blast
  have ok1: "billing_ok w1" "ids_fresh w1"
    using later_world_ok [OF ok(1) w1(2,3,5)] w1(7) by (auto intro: later_world_fresh [OF ok(2) w1(3,6)])
  have "sqlite_int (micros (Money 0))" by (simp add: sqlite_int_def)
  moreover have "''grant:'' @ period_key s \<notin> le_reference ` set (db_entries w1)" using ref w1(3) by simp
  ultimately show ?thesis
    using credit_new [OF ok1 p(1,2), of "Money 0" "''grant:'' @ period_key s" a GRANT
        "plan_name p @ '' '' @ utf8_middle_dot @ '' '' @ cadence_value (plan_cadence p)"] w1
    by (auto simp: grant_period_def bind_gw_def then_gw_def return_gw_def credit_row_def)
qed

lemma settle_without_chain:
  assumes "db_ok w" "\<not> ch_available (bs_chain bs)"
  shows "settle_period bs a w =
     (let now = w_clock w (w_tick w); w0 = w\<lparr>w_tick := w_tick w + 1\<rparr>
      in case db_subscription w a of
           None \<Rightarrow> begin_free bs a now w0
         | Some s \<Rightarrow> if \<not> sub_due s now then (Inr (Some s), w0) else settle_due bs a now s w0)"
  using assms sqlite.get_subscription_reads [of "w\<lparr>w_tick := w_tick w + 1\<rparr>" a]
  by (simp add: settle_period_def mirror_chain_def now_utc_def tick_def gw_simps Let_def split: option.splits)

lemma begin_free_effect:
  fixes w :: "'z world_scheme"
  assumes ok: "billing_ok w" "ids_fresh w" and chain: "\<not> ch_available (bs_chain bs)"
    and new: "db_subscription w a = None" and p: "free_plan bs = Some p" "0 \<le> plan_tokens p" "sqlite_int (plan_tokens p)"
    and s: "s = subscription_begin a p (w_clock w (w_tick w))"
    and ref: "''grant:'' @ period_key s \<notin> le_reference ` set (db_entries w)"
  shows "\<exists>e w'. settle_period bs a w = (Inr (Some s), w')
     \<and> db_ok w' \<and> db_entries w' = db_entries w @ [e] \<and> db_subscription w' = (db_subscription w)(a \<mapsto> s)
     \<and> le_account e = a \<and> le_kind e = GRANT \<and> le_tokens e = plan_tokens p
     \<and> w_clock w' = w_clock w \<and> w_tick w' = w_tick w + 3"
proof -
  have db: "db_ok w" and clock: "clock_ok w" using ok(1) by (simp_all add: billing_ok_def)
  let ?w = "w\<lparr>w_tick := w_tick w + 1\<rparr>"
  have "billing_ok ?w" using db by (intro later_world_ok [OF ok(1)]) simp_all
  moreover have "ids_fresh ?w" by (rule later_world_fresh [OF ok(2)]) simp_all
  moreover have "storable_subscription s" "sub_account s = a"
    using clock by (simp_all add: s storable_begin clock_ok_def time_ok_def) (simp add: subscription_begin_def)
  ultimately obtain e w' where
    "bind_gw (store_put_subscription s) (\<lambda>x. then_gw (grant_period a p x) (return_gw (Some x))) ?w = (Inr (Some s), w')"
    "db_ok w'" "db_entries w' = db_entries w @ [e]" "db_subscription w' = (db_subscription w)(a \<mapsto> s)"
    "le_account e = a" "le_kind e = GRANT" "le_tokens e = plan_tokens p" "w_clock w' = w_clock w"
    "w_tick w' = w_tick w + 3"
    using put_and_grant [of ?w s a p] p(2,3) ref by auto
  moreover from this have "settle_period bs a w = (Inr (Some s), w')"
    using settle_without_chain [OF db chain, of a] new p(1) s by (simp add: begin_free_def Let_def)
  ultimately show ?thesis by blast
qed

text \<open>An account that is seen for the first time is put on the free plan and granted its tokens, exactly
  once: until the period is over, settling again returns the same subscription and writes nothing.\<close>

theorem first_sight_grants_free_week_once:
  fixes w :: "'z world_scheme"
  assumes ok: "billing_ok w" "ids_fresh w" and chain: "\<not> ch_available (bs_chain bs)"
    and new: "db_subscription w a = None" "account_ledger w a = []"
    and p: "free_plan bs = Some p" "0 \<le> plan_tokens p" "sqlite_int (plan_tokens p)"
    and s: "s = subscription_begin a p (w_clock w (w_tick w))"
    and ref: "''grant:'' @ period_key s \<notin> le_reference ` set (db_entries w)"
    and clock: "w_clock w (w_tick w + 3) < w_clock w (w_tick w) + plan_period p"
  shows "\<exists>w'. settle_period bs a w = (Inr (Some s), w')
     \<and> balance_of a (account_ledger w' a) = \<lparr>bal_account = a, bal_granted = plan_tokens p, bal_purchased = 0\<rparr>
     \<and> settle_period bs a w' = (Inr (Some s), w'\<lparr>w_tick := w_tick w' + 1\<rparr>)"
proof -
  obtain e w' where w': "settle_period bs a w = (Inr (Some s), w')" "db_ok w'" "db_entries w' = db_entries w @ [e]"
      "db_subscription w' = (db_subscription w)(a \<mapsto> s)" "le_account e = a" "le_kind e = GRANT"
      "le_tokens e = plan_tokens p" "w_clock w' = w_clock w" "w_tick w' = w_tick w + 3"
    using begin_free_effect [OF ok chain new(1) p s ref] by blast
  have "account_ledger w' a = [e]" using new(2) w'(3,5) by (simp add: account_ledger_def)
  then have "balance_of a (account_ledger w' a) = \<lparr>bal_account = a, bal_granted = plan_tokens p, bal_purchased = 0\<rparr>"
    using w'(6,7) p(2) by (simp add: balance_of_def replay_def replay_step_def settle_pools_def)
  moreover have "\<not> sub_due s (w_clock w' (w_tick w'))"
    using clock w'(8,9) by (simp add: sub_due_def s subscription_begin_def)
  then have "settle_period bs a w' = (Inr (Some s), w'\<lparr>w_tick := w_tick w' + 1\<rparr>)"
    using settle_without_chain [OF w'(2) chain, of a] w'(4) by (simp add: Let_def)
  ultimately show ?thesis using w'(1) by blast
qed

definition weekly_plan :: plan where
  "weekly_plan = \<lparr>plan_id = ''free'', plan_name = ''Free'', plan_price = Money 0, plan_tokens = 833333,
     plan_cadence = WEEKLY, plan_description = [], plan_overage = False\<rparr>"

definition weekly_service :: billing_service where
  "weekly_service = sample_service\<lparr>bs_catalog :=
     \<lparr>cat_plans = [weekly_plan], cat_packs = [], cat_pricing = default_pricing\<rparr>\<rparr>"

lemma weekly_service_facts:
  "\<not> ch_available (bs_chain weekly_service)" "chain_ok weekly_service" "free_plan weekly_service = Some weekly_plan"
  "0 \<le> plan_tokens weekly_plan" "sqlite_int (plan_tokens weekly_plan)" "plan_period weekly_plan = WEEK"
  "catalog_plan (bs_catalog weekly_service) ''free'' = Inr weekly_plan" "plan_is_free weekly_plan"
  by (simp_all add: weekly_service_def sample_service_def no_subscriptions_def chain_ok_def free_plan_def
      weekly_plan_def plan_is_free_def money_is_zero_def sqlite_int_def plan_period_def PERIODS_def
      catalog_plan_def catalog_product_def)

lemma sample_world_empty:
  "db_subscription sample_world a = None" "account_ledger sample_world a = []" "db_entries sample_world = []"
  "w_clock sample_world = (\<lambda>t. int (t mod 1000000))" "w_tick sample_world = 0"
  by (simp_all add: sample_world_def db_subscription_def account_ledger_def db_entries_def)

theorem first_sight_grants_free_week_once_witness:
  "\<exists>w'. settle_period weekly_service ''GA'' sample_world = (Inr (Some (subscription_begin ''GA'' weekly_plan 0)), w')
     \<and> balance_of ''GA'' (account_ledger w' ''GA'') = \<lparr>bal_account = ''GA'', bal_granted = 833333, bal_purchased = 0\<rparr>
     \<and> settle_period weekly_service ''GA'' w' =
         (Inr (Some (subscription_begin ''GA'' weekly_plan 0)), w'\<lparr>w_tick := w_tick w' + 1\<rparr>)"
proof -
  have "w_clock sample_world (w_tick sample_world + 3) < w_clock sample_world (w_tick sample_world) + plan_period weekly_plan"
    by (simp add: sample_world_empty weekly_service_facts WEEK_def td_days_def)
  moreover have "plan_tokens weekly_plan = 833333" by (simp add: weekly_plan_def)
  ultimately show ?thesis
    using first_sight_grants_free_week_once [OF sample_world_ok sample_world_fresh weekly_service_facts(1)
        sample_world_empty(1,2) weekly_service_facts(3-5) refl, of "''GA''"]
    by (simp add: sample_world_empty)
qed

text \<open>Every world settles a new account, so the witness of the authorisation is one.\<close>

lemma weekly_settles:
  obtains s w1 where "settle_period weekly_service a sample_world = (Inr s, w1)" "token_sum (account_ledger w1 a) = 833333"
proof -
  obtain e w1 where w1: "settle_period weekly_service a sample_world =
        (Inr (Some (subscription_begin a weekly_plan (w_clock sample_world (w_tick sample_world)))), w1)"
      "db_entries w1 = db_entries sample_world @ [e]" "le_account e = a" "le_tokens e = plan_tokens weekly_plan"
    using begin_free_effect [OF sample_world_ok sample_world_fresh weekly_service_facts(1)
        sample_world_empty(1) weekly_service_facts(3-5) refl, of a] sample_world_empty(3) by auto
  moreover have "token_sum (account_ledger w1 a) = 833333"
    using w1(2-4) by (simp add: account_ledger_def sample_world_empty token_sum_def weekly_plan_def)
  ultimately show ?thesis using that by blast
qed

lemma weekly_reserve: "bs_reserve weekly_service = 50000"
  by (simp add: weekly_service_def sample_service_def DEFAULT_RESERVE_def)

theorem authorize_decides_witness:
  "\<exists>s w1. settle_period weekly_service ''GA'' sample_world = (Inr s, w1)
     \<and> authorize weekly_service ''GA'' 60000 sample_world = (Inr (balance_of ''GA'' (account_ledger w1 ''GA'')), w1)"
proof (rule weekly_settles [of "''GA''"])
  fix s w1
  assume "settle_period weekly_service ''GA'' sample_world = (Inr s, w1)" "token_sum (account_ledger w1 ''GA'') = 833333"
  then show ?thesis
    using authorize_decides [OF sample_world_ok weekly_service_facts(2), of "''GA''" s w1 60000] by (auto simp: weekly_reserve)
qed

section \<open>Renewal\<close>

lemma replay_grant:
  "le_kind e = GRANT \<Longrightarrow> replay (es @ [e]) = (fst (replay es) + le_tokens e, snd (replay es))"
  by (simp add: replay_snoc replay_step_def split: prod.splits)

lemma replay_expiry:
  "le_kind e = EXPIRY \<Longrightarrow> replay (es @ [e]) = (max 0 (fst (replay es) + le_tokens e), snd (replay es))"
  by (simp add: replay_snoc replay_step_def split: prod.splits)

lemma balance_of_no_debt:
  assumes "0 \<le> snd (replay es)" "0 \<le> fst (replay es)"
  shows "bal_granted (balance_of a es) = fst (replay es)" "bal_purchased (balance_of a es) = snd (replay es)"
  using assms by (auto simp: balance_of_def settle_pools_def Let_def split: prod.splits)

text \<open>What \<^verbatim>\<open>_expire_grant\<close> leaves behind on an account without debt: nothing granted, the rest as it was.\<close>

lemma expire_grant_effect:
  fixes w :: "'z world_scheme"
  assumes ok: "billing_ok w" "ids_fresh w" and now: "dt_ok now"
    and debt: "0 \<le> snd (replay (account_ledger w a))" and size: "fst (replay (account_ledger w a)) < 2 ^ 63"
    and ref: "''expiry:'' @ period_key s \<notin> le_reference ` set (db_entries w)"
  shows "\<exists>es w'. expire_grant a s now w = (Inr (), w') \<and> db_ok w' \<and> ids_fresh w'
     \<and> db_entries w' = db_entries w @ es \<and> set (map le_reference es) \<subseteq> {''expiry:'' @ period_key s}
     \<and> replay (account_ledger w' a) = (0, snd (replay (account_ledger w a)))
     \<and> db_subscription w' = db_subscription w \<and> w_clock w' = w_clock w"
proof -
  let ?es = "account_ledger w a"
  have db: "db_ok w" and signs: "list_all well_signed ?es" using ok(1) by (simp_all add: billing_ok_def ledger_ok_def)
  have pos: "0 \<le> fst (replay ?es)" by (rule replay_granted_nonneg [OF signs])
  have granted: "bal_granted (balance_of a ?es) = fst (replay ?es)" by (rule balance_of_no_debt(1) [OF debt pos])
  show ?thesis
  proof (cases "fst (replay ?es) \<le> 0")
    case True
    then have "expire_grant a s now w = (Inr (), w)"
      unfolding expire_grant_def bind_balance [OF db] granted by (simp add: return_gw_def)
    with True pos db ok(2) show ?thesis
      by (intro exI [of _ "[]"] exI [of _ w]) (simp add: prod_eq_iff)
  next
    case False
    let ?e = "\<lparr>le_id = w_hex w (w_tick w), le_account = a, le_kind = EXPIRY, le_tokens = - fst (replay ?es),
        le_at = now, le_amount = Money 0, le_reference = ''expiry:'' @ period_key s,
        le_memo = ''the period ended and its tokens did not roll over''\<rparr>"
    have "storable ?e" using now pos size by (simp add: storable_def sqlite_int_def)
    then obtain w' where w': "store_append ?e (w\<lparr>w_tick := w_tick w + 1\<rparr>) = (Inr ?e, w')" "db_ok w'"
        "db_entries w' = db_entries w @ [?e]" "db_subscription w' = db_subscription w" "w_clock w' = w_clock w"
        "w_hex w' = w_hex w" "w_tick w' = w_tick w + 1"
      using append_drawn [OF db ok(2), of ?e "w_tick w" "w_tick w + 1"] ref by auto
    have "expire_grant a s now w = (Inr (), w')"
      using False w'(1) unfolding expire_grant_def bind_balance [OF db] granted
      by (simp add: entry_id_def token_hex_def tick_def gw_simps)
    moreover have "ids_fresh w'"
      using w'(7) by (intro fresh_after_append [OF ok(2) w'(6,3), of "w_tick w"]) auto
    moreover have "account_ledger w' a = ?es @ [?e]" using w'(3) by (simp add: account_ledger_def)
    ultimately show ?thesis
      using w' by (intro exI [of _ "[?e]"] exI [of _ w']) (simp add: replay_expiry)
  qed
qed

lemma db_subscription_account: "db_ok w \<Longrightarrow> db_subscription w a = Some s \<Longrightarrow> sub_account s = a"
proof -
  assume ok: "db_ok w" and found: "db_subscription w a = Some s"
  then obtain r where r: "find (\<lambda>r. sr_account r = a) (db_subscriptions w) = Some r" "s = projr (subscription_of_row r)"
    by (auto simp: db_subscription_def)
  then have "sr_account r = a" "r \<in> set (db_subscriptions w)" by (auto dest: find_key_Some)
  moreover from this ok obtain x where "subscription_of_row r = Inr x"
    by (cases "subscription_of_row r") (auto simp: db_ok_def list_all_iff)
  ultimately show "sub_account s = a" using r(2)
    by (auto simp: subscription_of_row_def bind_sum_def split: sum.splits)
qed

text \<open>A free period that is over renews by itself and does not roll over: what is left of the old grant
  expires, the new one is granted in full, and what was bought is untouched. On an account without debt
  the granted balance afterwards is exactly the plan's tokens, whatever was left before.\<close>

theorem free_week_renews_without_rollover:
  fixes w :: "'z world_scheme"
  assumes ok: "billing_ok w" "ids_fresh w" and chain: "\<not> ch_available (bs_chain bs)"
    and s: "db_subscription w a = Some s" "sub_due s (w_clock w (w_tick w))"
    and p: "catalog_plan (bs_catalog bs) (sub_plan_id s) = Inr p" "plan_is_free p" "0 \<le> plan_tokens p"
      "sqlite_int (plan_tokens p)"
    and debt: "0 \<le> snd (replay (account_ledger w a))" and size: "fst (replay (account_ledger w a)) < 2 ^ 63"
    and ref: "''expiry:'' @ period_key s \<notin> le_reference ` set (db_entries w)"
      "''grant:'' @ period_key (sub_renewed s p (w_clock w (w_tick w))) \<notin> le_reference ` set (db_entries w)"
  shows "\<exists>w'. settle_period bs a w = (Inr (Some (sub_renewed s p (w_clock w (w_tick w)))), w')
     \<and> db_subscription w' a = Some (sub_renewed s p (w_clock w (w_tick w)))
     \<and> bal_granted (balance_of a (account_ledger w' a)) = plan_tokens p
     \<and> bal_purchased (balance_of a (account_ledger w' a)) = bal_purchased (balance_of a (account_ledger w a))"
proof -
  let ?now = "w_clock w (w_tick w)" and ?w = "w\<lparr>w_tick := w_tick w + 1\<rparr>"
  let ?r = "sub_renewed s p ?now"
  have db: "db_ok w" and now: "time_ok ?now" using ok(1) by (simp_all add: billing_ok_def clock_ok_def time_ok_def)
  have ok0: "billing_ok ?w" "ids_fresh ?w"
    using db by (auto intro: later_world_ok [OF ok(1)] later_world_fresh [OF ok(2)])
  obtain es w1 where w1: "expire_grant a s ?now ?w = (Inr (), w1)" "db_ok w1" "ids_fresh w1"
      "db_entries w1 = db_entries w @ es" "set (map le_reference es) \<subseteq> {''expiry:'' @ period_key s}"
      "replay (account_ledger w1 a) = (0, snd (replay (account_ledger w a)))"
    using expire_grant_effect [OF ok0 time_ok_now [OF now], of a s] debt size ref(1) by auto
  have "billing_ok w1"
    using keepsD [OF keeps_expire_grant [OF now], of "[]" ?w a s] ok0(1) w1(1) by (simp add: billing_from_def)
  moreover have "sub_account ?r = a" using db_subscription_account [OF db s(1)] by (simp add: sub_renewed_def)
  moreover have "''grant:'' @ period_key ?r \<notin> le_reference ` set (db_entries w1)"
    using ref(2) w1(4,5) by auto
  ultimately obtain e w' where w':
      "bind_gw (store_put_subscription ?r) (\<lambda>x. then_gw (grant_period a p x) (return_gw (Some x))) w1 = (Inr (Some ?r), w')"
      "db_entries w' = db_entries w1 @ [e]" "db_subscription w' = (db_subscription w1)(a \<mapsto> ?r)"
      "le_account e = a" "le_kind e = GRANT" "le_tokens e = plan_tokens p"
    using put_and_grant [of w1 ?r a p] w1(3) storable_renewed [OF now] p(3,4) by blast
  have "settle_period bs a w = (Inr (Some ?r), w')"
    using settle_without_chain [OF db chain, of a] s p(1,2) w1(1) w'(1)
    by (simp add: Let_def settle_due_def plan_or_none_def then_gw_def bind_gw_def return_gw_def)
  moreover have "account_ledger w' a = account_ledger w1 a @ [e]" using w'(2,4) by (simp add: account_ledger_def)
  then have "replay (account_ledger w' a) = (plan_tokens p, snd (replay (account_ledger w a)))"
    using w'(5,6) w1(6) by (simp add: replay_grant)
  moreover have "0 \<le> fst (replay (account_ledger w a))"
    using ok(1) by (intro replay_granted_nonneg) (simp add: billing_ok_def ledger_ok_def)
  ultimately show ?thesis
    using w'(3) debt p(3) by (auto simp: balance_of_no_debt intro!: exI [of _ w'])
qed

definition due_world :: world where
  "due_world = sample_world\<lparr>db_seq := 1, db_ledger := [row_of_entry 1 ((sample_entry GRANT 500)\<lparr>le_id := ''first''\<rparr>)],
     db_subscriptions := [row_of_subscription (sample_subscription\<lparr>sub_renews_at := 0\<rparr>)]\<rparr>"

lemma due_world_facts:
  "billing_ok due_world" "ids_fresh due_world"
  "db_entries due_world = [(sample_entry GRANT 500)\<lparr>le_id := ''first''\<rparr>]"
  "db_subscription due_world ''GA'' = Some (sample_subscription\<lparr>sub_renews_at := 0\<rparr>)"
  "w_clock due_world (w_tick due_world) = 0"
proof -
  let ?e = "(sample_entry GRANT 500)\<lparr>le_id := ''first''\<rparr>" and ?s = "sample_subscription\<lparr>sub_renews_at := 0\<rparr>"
  have e: "entry_of_row (row_of_entry 1 ?e) = Inr ?e"
    by (rule entry_row_roundtrip) (simp add: sample_entry_def dt_ok_small)
  have s: "subscription_of_row (row_of_subscription ?s) = Inr ?s"
    by (rule subscription_row_roundtrip) (simp_all add: sample_subscription_def dt_ok_small)
  show entries: "db_entries due_world = [?e]" using e by (simp add: due_world_def db_entries_def)
  show "db_subscription due_world ''GA'' = Some ?s"
    using s by (simp add: due_world_def db_subscription_def)
      (simp add: row_of_subscription_def sample_subscription_def)
  show "w_clock due_world (w_tick due_world) = 0" by (simp add: due_world_def sample_world_empty)
  have "db_ok due_world" using e s by (simp add: due_world_def db_ok_def sample_world_def) (simp add: row_of_entry_def)
  moreover have "clock_ok due_world"
    using sample_world_ok by (simp add: billing_ok_def clock_ok_def due_world_def)
  moreover have "ledger_ok due_world"
    using entries by (simp add: ledger_ok_def account_ledger_def sample_entry_def well_signed_def)
  ultimately show "billing_ok due_world" by (simp add: billing_ok_def)
  have "show_nat t \<noteq> ''first''" for t
    using show_nat_are_digits [of t] by (auto simp: is_digit_def byte_def)
  then show "ids_fresh due_world"
    using entries show_nat_injective by (simp add: ids_fresh_def due_world_def sample_world_def)
qed

theorem free_week_renews_without_rollover_witness:
  "\<exists>w'. settle_period weekly_service ''GA'' due_world =
       (Inr (Some (sub_renewed (sample_subscription\<lparr>sub_renews_at := 0\<rparr>) weekly_plan 0)), w')
     \<and> bal_granted (balance_of ''GA'' (account_ledger w' ''GA'')) = 833333"
proof -
  let ?s = "sample_subscription\<lparr>sub_renews_at := 0\<rparr>"
  have es: "account_ledger due_world ''GA'' = [(sample_entry GRANT 500)\<lparr>le_id := ''first''\<rparr>]"
    using due_world_facts(3) by (simp add: account_ledger_def sample_entry_def)
  have r: "replay (account_ledger due_world ''GA'') = (500, 0)"
    unfolding es by (simp add: replay_def replay_step_def sample_entry_def)
  have due: "sub_due ?s (w_clock due_world (w_tick due_world))" "sub_plan_id ?s = ''free''"
    by (simp_all add: due_world_facts(5) sub_due_def sample_subscription_def)
  have refs: "le_reference ` set (db_entries due_world) = {[]}"
    using due_world_facts(3) by (simp add: sample_entry_def)
  have "plan_tokens weekly_plan = 833333" by (simp add: weekly_plan_def)
  then show ?thesis
    using free_week_renews_without_rollover [OF due_world_facts(1,2) weekly_service_facts(1) due_world_facts(4)
        due(1) _ weekly_service_facts(8,4,5)] weekly_service_facts(7) due(2) r refs due_world_facts(5)
    by auto
qed

section \<open>Two accounts, one key\<close>

text \<open>C35. The key of an on-chain period names the plan and the second it started, and not the account, and the
  ledger refuses a reference it has seen. So a subscriber whose period started in the same second, on the
  same plan, as one already credited is mirrored as active and granted nothing: the rows of the account
  are what they were.\<close>

theorem namesake_period_is_not_granted:
  fixes w :: "'z world_scheme"
  assumes ok: "billing_ok w" "chain_ok bs" and chain: "ch_available (bs_chain bs)"
      "ch_subscription (bs_chain bs) (w_tick w + 1) b = Inr (Some oc)" "oc_active oc (w_clock w (w_tick w))"
    and p: "catalog_plan (bs_catalog bs) (oc_plan oc) = Inr p" "0 \<le> plan_tokens p" "sqlite_int (plan_tokens p)"
    and f: "f \<in> set (db_entries w)" "le_reference f = ''chain:'' @ oc_period_key oc"
  shows "\<exists>m w'. settle_period bs b w = (Inr (Some m), w') \<and> sub_plan_id m = plan_id p
     \<and> sub_is_active m (w_clock w (w_tick w)) \<and> db_entries w' = db_entries w"
proof -
  let ?m = "\<lparr>sub_account = b, sub_plan_id = plan_id p, sub_started_at = oc_started oc,
      sub_renews_at = oc_expires oc, sub_status = SUB_ACTIVE\<rparr>"
  let ?w = "w\<lparr>w_tick := w_tick w + 2\<rparr>"
  have db: "db_ok ?w" using ok(1) by (simp add: billing_ok_def)
  have "storable_subscription ?m" using ok(2) chain(2) by (auto simp: storable_subscription_def chain_ok_def)
  from sub_writes [OF db this] obtain w1 where w1: "store_put_subscription ?m ?w = (Inr ?m, w1)" "db_ok w1"
      "db_entries w1 = db_entries w" "w_clock w1 = w_clock w" by auto
  have "billing_ok w1" by (rule later_world_ok [OF ok(1) w1(2-4)])
  then have "credit b (plan_tokens p) GRANT (''chain:'' @ oc_period_key oc) (Money 0) memo w1
      = (Inr f, w1\<lparr>w_tick := w_tick w1 + 2\<rparr>)" for memo
    using p(2,3) f w1(3) by (intro credit_known) (simp_all add: sqlite_int_def)
  then have "settle_period bs b w = (Inr (Some ?m), w1\<lparr>w_tick := w_tick w1 + 2\<rparr>)"
    using chain p(1) w1(1)
    by (simp add: settle_period_def mirror_chain_def now_utc_def tick_def gw_simps Let_def)
  moreover have "sub_is_active ?m (w_clock w (w_tick w))" using chain(3) by (simp add: sub_is_active_def oc_active_def)
  ultimately show ?thesis using w1(3) by (intro exI [of _ ?m]) auto
qed

definition sample_oc :: onchain where
  "sample_oc = \<lparr>oc_plan = ''free'', oc_started = 5, oc_expires = 1000000000, oc_periods = 1\<rparr>"

definition chain_service :: billing_service where
  "chain_service = weekly_service\<lparr>bs_chain := \<lparr>ch_available = True, ch_contract_id = ''CA'',
     ch_subscription = \<lambda>_ _. Inr (Some sample_oc), ch_build_subscribe = None, ch_submit = None\<rparr>\<rparr>"

definition namesake_row :: ledger_entry where
  "namesake_row = (sample_entry GRANT 833333)\<lparr>le_id := ''first'', le_reference := ''chain:'' @ oc_period_key sample_oc\<rparr>"

definition namesake_world :: world where
  "namesake_world = sample_world\<lparr>db_seq := 1, db_ledger := [row_of_entry 1 namesake_row]\<rparr>"

lemma namesake_world_facts:
  "billing_ok namesake_world" "db_entries namesake_world = [namesake_row]" "w_tick namesake_world = 0"
  "w_clock namesake_world 0 = 0"
proof -
  have e: "entry_of_row (row_of_entry 1 namesake_row) = Inr namesake_row"
    by (rule entry_row_roundtrip) (simp add: namesake_row_def sample_entry_def dt_ok_small)
  show entries: "db_entries namesake_world = [namesake_row]" using e by (simp add: namesake_world_def db_entries_def)
  show "w_tick namesake_world = 0" "w_clock namesake_world 0 = 0" by (simp_all add: namesake_world_def sample_world_empty)
  have "db_ok namesake_world" using e by (simp add: namesake_world_def db_ok_def sample_world_def) (simp add: row_of_entry_def)
  moreover have "clock_ok namesake_world"
    using sample_world_ok by (simp add: billing_ok_def clock_ok_def namesake_world_def)
  moreover have "ledger_ok namesake_world"
    using entries by (simp add: ledger_ok_def account_ledger_def namesake_row_def sample_entry_def well_signed_def)
  ultimately show "billing_ok namesake_world" by (simp add: billing_ok_def)
qed

theorem namesake_period_is_not_granted_witness:
  "\<exists>m w'. settle_period chain_service ''GB'' namesake_world = (Inr (Some m), w') \<and> sub_plan_id m = ''free''
     \<and> sub_is_active m 0 \<and> account_ledger w' ''GB'' = []"
proof -
  have chain: "chain_ok chain_service" "ch_available (bs_chain chain_service)"
      "ch_subscription (bs_chain chain_service) (w_tick namesake_world + 1) ''GB'' = Inr (Some sample_oc)"
      "oc_active sample_oc (w_clock namesake_world (w_tick namesake_world))"
    by (simp_all add: chain_service_def chain_ok_def sample_oc_def dt_ok_small oc_active_def namesake_world_facts)
  have p: "catalog_plan (bs_catalog chain_service) (oc_plan sample_oc) = Inr weekly_plan"
    using weekly_service_facts(7) by (simp add: chain_service_def sample_oc_def)
  have f: "namesake_row \<in> set (db_entries namesake_world)" "le_reference namesake_row = ''chain:'' @ oc_period_key sample_oc"
    by (simp_all add: namesake_world_facts namesake_row_def)
  have "plan_id weekly_plan = ''free''" by (simp add: weekly_plan_def)
  with namesake_period_is_not_granted [OF namesake_world_facts(1) chain p weekly_service_facts(4,5) f]
  show ?thesis by (auto simp: account_ledger_def namesake_world_facts namesake_row_def sample_entry_def)
qed

end
