(* ===== verification/Runs.thy ===== *)
theory Runs
  imports Exceptions Json_Values "HOL-Library.Sublist"
begin

text \<open>
  A run of \<^verbatim>\<open>domain/runs.py\<close>: an immutable value, and one function per move.

  The readings of \<^verbatim>\<open>time.monotonic()\<close> are arguments, in an integer unit fine enough to compare; the random
  id is an argument of \<open>run_start\<close>. The plan and the questionnaire are what the agent sent, so they are
  JSON values. \<open>run_step\<close> is the relation of the moves, and \<open>run_trace\<close> its histories.
\<close>

type_synonym monotonic = int

definition MAX_ROUNDS :: int where "MAX_ROUNDS = 2"
definition MAX_IDEA_CHARS :: nat where "MAX_IDEA_CHARS = 4000"

record answer =
  ans_question_id :: string
  ans_value :: string

record run =
  run_id :: string
  run_idea :: string
  run_st :: run_state
  run_rounds :: int
  run_answers :: "answer list"
  run_plan :: "json option"
  run_summary :: string
  run_questionnaire :: "json option"
  run_artifact_id :: string
  run_error :: string
  run_account :: string
  run_charged :: int
  run_created_at :: monotonic
  run_updated_at :: monotonic

definition run_start :: "string \<Rightarrow> string \<Rightarrow> string \<Rightarrow> monotonic \<Rightarrow> monotonic \<Rightarrow> exn + run" where
  "run_start idea account token created updated =
     (let text = strip idea
      in if text = [] then Inl (ValueError ''a run needs an idea'')
         else if MAX_IDEA_CHARS < py_len text
           then Inl (ValueError (''the idea is longer than '' @ show_nat MAX_IDEA_CHARS @ '' characters''))
         else Inr \<lparr>run_id = token, run_idea = text, run_st = IDEA, run_rounds = 0, run_answers = [],
                run_plan = None, run_summary = [], run_questionnaire = None, run_artifact_id = [],
                run_error = [], run_account = account, run_charged = 0, run_created_at = created,
                run_updated_at = updated\<rparr>)"

definition billed :: "int \<Rightarrow> monotonic \<Rightarrow> run \<Rightarrow> run" where
  "billed tokens now r = r\<lparr>run_charged := tokens, run_updated_at := now\<rparr>"

section \<open>Moving\<close>

definition may :: "run \<Rightarrow> run_event \<Rightarrow> bool" where
  "may r event \<longleftrightarrow>
     (if event = FAIL then FAILABLE (run_st r) else event \<in> set (map fst (TRANSITIONS (run_st r))))"

text \<open>\<open>moved event changes now r\<close>: the keyword arguments are the function \<open>changes\<close>. A table that has the
  event has its target, so the last branch is the \<^verbatim>\<open>KeyError\<close> that \<^verbatim>\<open>may\<close> excludes.\<close>

definition moved :: "run_event \<Rightarrow> (run \<Rightarrow> run) \<Rightarrow> monotonic \<Rightarrow> run \<Rightarrow> exn + run" where
  "moved event changes now r =
     (if \<not> may r event then Inl (IllegalTransitionError (run_st r) event)
      else
        (case (if event = FAIL then Some FAILED else map_of (TRANSITIONS (run_st r)) event) of
           Some state \<Rightarrow> Inr (changes (r\<lparr>run_st := state, run_updated_at := now\<rparr>))
         | None \<Rightarrow> Inl (OtherException ''KeyError'')))"

definition describing :: "monotonic \<Rightarrow> run \<Rightarrow> exn + run" where
  "describing = moved DESCRIBE (\<lambda>r. r)"

definition asked :: "string \<Rightarrow> json \<Rightarrow> monotonic \<Rightarrow> run \<Rightarrow> exn + run" where
  "asked summary questionnaire now r =
     moved ASK
       (\<lambda>m. m\<lparr>run_summary := (if summary = [] then run_summary r else summary),
              run_questionnaire := Some questionnaire, run_rounds := run_rounds r + 1\<rparr>) now r"

text \<open>The dictionary keeps the position of the first answer to a question and the value of the last.\<close>

definition merge_answers :: "answer list \<Rightarrow> (string, answer) dict \<Rightarrow> (string, answer) dict" where
  "merge_answers answers d = fold (\<lambda>a. dict_set (ans_question_id a) a) answers d"

definition answering :: "answer list \<Rightarrow> monotonic \<Rightarrow> run \<Rightarrow> run" where
  "answering answers now r =
     r\<lparr>run_answers := map snd (merge_answers answers (merge_answers (run_answers r) [])),
       run_updated_at := now\<rparr>"

definition proposed :: "json \<Rightarrow> monotonic \<Rightarrow> run \<Rightarrow> exn + run" where
  "proposed p = moved PROPOSE (\<lambda>r. r\<lparr>run_plan := Some p, run_questionnaire := None\<rparr>)"

definition rejected :: "monotonic \<Rightarrow> run \<Rightarrow> exn + run" where
  "rejected = moved REJECT (\<lambda>r. r)"

definition revising :: "monotonic \<Rightarrow> run \<Rightarrow> exn + run" where
  "revising = moved REVISE (\<lambda>r. r)"

definition approved :: "monotonic \<Rightarrow> run \<Rightarrow> exn + run" where
  "approved = moved APPROVE (\<lambda>r. r)"

definition generating :: "monotonic \<Rightarrow> run \<Rightarrow> exn + run" where
  "generating = moved GENERATE (\<lambda>r. r)"

definition delivered :: "string \<Rightarrow> monotonic \<Rightarrow> run \<Rightarrow> exn + run" where
  "delivered artifact_id = moved DELIVER (\<lambda>r. r\<lparr>run_artifact_id := artifact_id\<rparr>)"

definition failed :: "string \<Rightarrow> monotonic \<Rightarrow> run \<Rightarrow> exn + run" where
  "failed error = moved FAIL (\<lambda>r. r\<lparr>run_error := error\<rparr>)"

definition rounds_left :: "run \<Rightarrow> int" where
  "rounds_left r = max 0 (MAX_ROUNDS - run_rounds r)"

definition may_generate :: "run \<Rightarrow> bool" where
  "may_generate r = may r GENERATE"

section \<open>Moves and histories\<close>

text \<open>Every method that returns a changed run; \<open>None\<close> labels the two that are not transitions.\<close>

inductive run_step :: "run \<Rightarrow> run_event option \<Rightarrow> run \<Rightarrow> bool" where
  "describing now r = Inr r' \<Longrightarrow> run_step r (Some DESCRIBE) r'"
| "asked summary q now r = Inr r' \<Longrightarrow> run_step r (Some ASK) r'"
| "proposed p now r = Inr r' \<Longrightarrow> run_step r (Some PROPOSE) r'"
| "rejected now r = Inr r' \<Longrightarrow> run_step r (Some REJECT) r'"
| "revising now r = Inr r' \<Longrightarrow> run_step r (Some REVISE) r'"
| "approved now r = Inr r' \<Longrightarrow> run_step r (Some APPROVE) r'"
| "generating now r = Inr r' \<Longrightarrow> run_step r (Some GENERATE) r'"
| "delivered artifact now r = Inr r' \<Longrightarrow> run_step r (Some DELIVER) r'"
| "failed error now r = Inr r' \<Longrightarrow> run_step r (Some FAIL) r'"
| "run_step r None (answering answers now r)"
| "run_step r None (billed tokens now r)"

inductive run_trace :: "run \<Rightarrow> run_event list \<Rightarrow> run \<Rightarrow> bool" where
  trace_start: "run_trace r [] r"
| trace_move: "run_trace r evs r' \<Longrightarrow> run_step r' (Some e) r'' \<Longrightarrow> run_trace r (evs @ [e]) r''"
| trace_other: "run_trace r evs r' \<Longrightarrow> run_step r' None r'' \<Longrightarrow> run_trace r evs r''"

lemmas move_defs = describing_def asked_def proposed_def rejected_def revising_def approved_def
  generating_def delivered_def failed_def

lemma transitions_total:
  "e \<in> set (map fst (TRANSITIONS s)) \<Longrightarrow> \<exists>s'. map_of (TRANSITIONS s) e = Some s'"
  by (cases s) (auto split: if_splits)

text \<open>A move happens exactly when the table allows it; refused, it names both ends.\<close>

lemma moved_cases:
  "moved e f now r =
     (if may r e
      then Inr (f (r\<lparr>run_st := (if e = FAIL then FAILED else the (map_of (TRANSITIONS (run_st r)) e)),
                     run_updated_at := now\<rparr>))
      else Inl (IllegalTransitionError (run_st r) e))"
proof (cases "may r e \<and> e \<noteq> FAIL")
  case True
  then obtain s where "map_of (TRANSITIONS (run_st r)) e = Some s"
    using transitions_total [of e "run_st r"] by (metis may_def)
  with True show ?thesis by (simp add: moved_def)
next
  case False
  then show ?thesis by (auto simp: moved_def)
qed

text \<open>What a transition keeps: who pays, the idea, the id.\<close>

definition same_run :: "run \<Rightarrow> run \<Rightarrow> bool" where
  "same_run r r' \<longleftrightarrow> run_id r' = run_id r \<and> run_idea r' = run_idea r \<and> run_account r' = run_account r
     \<and> run_created_at r' = run_created_at r"

text \<open>How a state is entered: the end of every history that leads to it.\<close>

fun entered_by :: "run_state \<Rightarrow> run_event list" where
  "entered_by PLAN_REVIEW = [PROPOSE]"
| "entered_by PLAN_REJECTED = [PROPOSE, REJECT]"
| "entered_by PM_REVISION = [PROPOSE, REJECT, REVISE]"
| "entered_by PLAN_APPROVED = [PROPOSE, APPROVE]"
| "entered_by BACKEND_GENERATION = [PROPOSE, APPROVE, GENERATE]"
| "entered_by ZIP_READY = [PROPOSE, APPROVE, GENERATE, DELIVER]"
| "entered_by FAILED = [FAIL]"
| "entered_by _ = []"

definition trace_inv :: "run \<Rightarrow> run_event list \<Rightarrow> run \<Rightarrow> bool" where
  "trace_inv r0 evs r \<longleftrightarrow> same_run r0 r \<and> suffix (entered_by (run_st r)) evs
     \<and> run_rounds r = run_rounds r0 + int (count_list evs ASK)
     \<and> (PROPOSE \<in> set (entered_by (run_st r)) \<longrightarrow> run_plan r \<noteq> None)"

lemma step_event:
  assumes "run_step r (Some e) r'"
  shows "may r e" "run_st r' = (if e = FAIL then FAILED else the (map_of (TRANSITIONS (run_st r)) e))"
    "same_run r r'" "run_rounds r' = run_rounds r + (if e = ASK then 1 else 0)"
    "run_plan r \<noteq> None \<longrightarrow> run_plan r' \<noteq> None" "e = PROPOSE \<longrightarrow> run_plan r' \<noteq> None"
  using assms
  by (cases rule: run_step.cases; auto simp: move_defs moved_cases same_run_def split: if_splits)+

lemma step_other:
  assumes "run_step r None r'"
  shows "run_st r' = run_st r" "same_run r r'" "run_rounds r' = run_rounds r" "run_plan r' = run_plan r"
  using assms by (cases rule: run_step.cases; simp add: answering_def billed_def same_run_def)+

lemma move_enters:
  assumes "may r e" "e \<noteq> FAIL" "e \<noteq> RESET" "suffix (entered_by (run_st r)) evs"
  shows "suffix (entered_by (the (map_of (TRANSITIONS (run_st r)) e))) (evs @ [e])"
  using assms by (cases "run_st r"; auto simp: may_def suffix_def split: if_splits)

lemma no_reset: "run_step r (Some e) r' \<Longrightarrow> e \<noteq> RESET"
  by (cases rule: run_step.cases) auto

lemma trace_keeps_inv: "run_trace r0 evs r \<Longrightarrow> entered_by (run_st r0) = [] \<Longrightarrow> trace_inv r0 evs r"
proof (induction rule: run_trace.induct)
  case (trace_start r)
  then show ?case by (simp add: trace_inv_def same_run_def)
next
  case (trace_move r evs r' e r'')
  note st = step_event [OF trace_move.hyps(2)] no_reset [OF trace_move.hyps(2)]
  from trace_move have inv: "trace_inv r evs r'" by simp
  have "suffix (entered_by (run_st r'')) (evs @ [e])"
    using st move_enters [of r' e evs] inv by (cases "e = FAIL") (auto simp: trace_inv_def)
  moreover have "PROPOSE \<in> set (entered_by (run_st r'')) \<longrightarrow> run_plan r'' \<noteq> None"
    using st inv by (cases "run_st r'"; cases e) (auto simp: trace_inv_def may_def)
  ultimately show ?case using st inv by (auto simp: trace_inv_def same_run_def)
next
  case (trace_other r evs r' r'')
  then show ?case using step_other [OF trace_other.hyps(2)] by (auto simp: trace_inv_def same_run_def)
qed

text \<open>Where the plan of a run comes from: the last proposal of its history, which the moves since have kept.\<close>

definition plan_proposed :: "run \<Rightarrow> run_event list \<Rightarrow> run_event list \<Rightarrow> run \<Rightarrow> bool" where
  "plan_proposed r0 evs rest r \<longleftrightarrow>
     (\<exists>pre before plan now after. evs = pre @ PROPOSE # rest \<and> run_trace r0 pre before \<and> proposed plan now before = Inr after
        \<and> run_trace after rest r \<and> run_plan r = Some plan)"

lemma step_plan:
  assumes "run_step r (Some e) r'"
  shows "e \<noteq> PROPOSE \<Longrightarrow> run_plan r' = run_plan r"
    and "e = PROPOSE \<Longrightarrow> \<exists>plan now. proposed plan now r = Inr r' \<and> run_plan r' = Some plan"
  using assms by (cases rule: run_step.cases; auto simp: move_defs moved_cases split: if_splits)+

lemma move_extends:
  assumes "may r e" "e \<notin> {FAIL, RESET, PROPOSE}" "entered_by (the (map_of (TRANSITIONS (run_st r)) e)) = PROPOSE # rest"
  obtains rest' where "entered_by (run_st r) = PROPOSE # rest'" "rest = rest' @ [e]"
  using assms by (cases "run_st r"; cases e) (auto simp: may_def)

lemma plan_proposed_move:
  assumes "plan_proposed r0 evs rest r" "run_step r (Some e) r'" "e \<noteq> PROPOSE"
  shows "plan_proposed r0 (evs @ [e]) (rest @ [e]) r'"
proof -
  from assms(1) obtain pre before plan now after where "evs = pre @ PROPOSE # rest" "run_trace r0 pre before"
    "proposed plan now before = Inr after" "run_trace after rest r" "run_plan r = Some plan" by (auto simp: plan_proposed_def)
  moreover from this have "run_trace after (rest @ [e]) r'" "run_plan r' = Some plan"
    using trace_move [OF _ assms(2)] step_plan(1) [OF assms(2,3)] by simp_all
  ultimately show ?thesis unfolding plan_proposed_def
    by (intro exI [of _ pre] exI [of _ before] exI [of _ plan] exI [of _ now] exI [of _ after]) simp
qed

lemma trace_keeps_plan:
  "run_trace r0 evs r \<Longrightarrow> entered_by (run_st r0) = [] \<Longrightarrow> entered_by (run_st r) = PROPOSE # rest \<Longrightarrow> plan_proposed r0 evs rest r"
proof (induction arbitrary: rest rule: run_trace.induct)
  case (trace_start r)
  then show ?case by simp
next
  case (trace_move r evs r' e r'')
  note st = step_event [OF trace_move.hyps(2)] no_reset [OF trace_move.hyps(2)]
  show ?case
  proof (cases "e = PROPOSE")
    case True
    then have "rest = []" using st(1,2) trace_move.prems(2) by (cases "run_st r'") (auto simp: may_def)
    moreover obtain plan now where "proposed plan now r' = Inr r''" "run_plan r'' = Some plan"
      using step_plan(2) [OF trace_move.hyps(2) True] by blast
    ultimately show ?thesis using trace_move.hyps(1) True run_trace.trace_start [of r'']
      unfolding plan_proposed_def by blast
  next
    case False
    have "e \<noteq> FAIL" using st(2) trace_move.prems(2) by auto
    with st False trace_move.prems(2) obtain rest' where "entered_by (run_st r') = PROPOSE # rest'" "rest = rest' @ [e]"
      using move_extends [of r' e rest] by auto
    with trace_move.IH [OF trace_move.prems(1)] plan_proposed_move [OF _ trace_move.hyps(2) False] show ?thesis by simp
  qed
next
  case (trace_other r evs r' r'')
  with step_other [OF trace_other.hyps(2)] have "plan_proposed r evs rest r'" "run_plan r'' = run_plan r'" by auto
  with run_trace.trace_other [OF _ trace_other.hyps(2)] show ?case unfolding plan_proposed_def by metis
qed

text \<open>C19. Nothing is generated without a plan that was proposed and approved. In every history of a run, from
  its start, the moves that end in the generation are a proposal, its approval and the start of the
  generation, in that order and with nothing in between; a run that is ready adds the delivery. The plan the run
  has is the very one of that proposal, and its id, its idea and the account that pays are the ones it started with.\<close>

theorem generation_needs_approved_plan:
  assumes "run_start idea account token t u = Inr r0" "run_trace r0 evs r"
    and "run_st r \<in> {BACKEND_GENERATION, ZIP_READY}" "since = [APPROVE, GENERATE] @ (if run_st r = ZIP_READY then [DELIVER] else [])"
  shows "(\<exists>pre before plan now after. evs = pre @ [PROPOSE] @ since \<and> run_trace r0 pre before
        \<and> proposed plan now before = Inr after \<and> run_trace after since r \<and> run_plan r = Some plan)
     \<and> run_id r = token \<and> run_idea r = strip idea \<and> run_account r = account"
proof -
  from assms(1) have r0: "run_st r0 = IDEA" "run_id r0 = token" "run_idea r0 = strip idea" "run_account r0 = account"
    by (auto simp: run_start_def Let_def split: if_splits)
  then have "trace_inv r0 evs r" by (intro trace_keeps_inv [OF assms(2)]) simp
  moreover have "plan_proposed r0 evs since r"
    using assms(3,4) r0(1) by (intro trace_keeps_plan [OF assms(2)]) auto
  ultimately show ?thesis using r0 by (auto simp: trace_inv_def same_run_def plan_proposed_def)
qed

text \<open>The rounds of a run are the questionnaires it served: in every history they are the number of ASK
  moves and nothing else changes them.\<close>

theorem rounds_count_questionnaires:
  assumes "run_start idea account token t u = Inr r0" "run_trace r0 evs r"
  shows "run_rounds r = int (count_list evs ASK)"
proof -
  from assms(1) have r0: "run_st r0 = IDEA" "run_rounds r0 = 0"
    by (auto simp: run_start_def Let_def split: if_splits)
  then have "trace_inv r0 evs r" by (intro trace_keeps_inv [OF assms(2)]) simp
  with r0 show ?thesis by (simp add: trace_inv_def)
qed

section \<open>Answers\<close>

definition latest :: "answer list \<Rightarrow> string \<Rightarrow> answer option" where
  "latest answers q = find (\<lambda>a. ans_question_id a = q) (rev answers)"

lemma find_append: "find P (xs @ ys) = (case find P xs of None \<Rightarrow> find P ys | Some x \<Rightarrow> Some x)"
  by (induction xs) auto

lemma map_of_merge_answers:
  "map_of (merge_answers answers d) q = (case latest answers q of None \<Rightarrow> map_of d q | Some a \<Rightarrow> Some a)"
proof (induction answers rule: rev_induct)
  case Nil
  then show ?case by (simp add: merge_answers_def latest_def)
next
  case (snoc a answers)
  then show ?case by (simp add: merge_answers_def latest_def dict_simps)
qed

lemma merge_answers_ok: "dict_ok d \<Longrightarrow> dict_ok (merge_answers answers d)"
  by (induction answers arbitrary: d) (simp_all add: merge_answers_def)

definition keyed :: "(string, answer) dict \<Rightarrow> bool" where
  "keyed d \<longleftrightarrow> list_all (\<lambda>(q, a). ans_question_id a = q) d"

lemma keyed_set: "keyed d \<Longrightarrow> keyed (dict_set (ans_question_id a) a d)"
  unfolding keyed_def by (induction "ans_question_id a" a d rule: dict_set.induct) auto

lemma keyed_merge: "keyed d \<Longrightarrow> keyed (merge_answers answers d)"
  by (induction answers arbitrary: d) (simp_all add: merge_answers_def keyed_set)

lemma keyed_ids: "keyed d \<Longrightarrow> map ans_question_id (map snd d) = dict_keys d"
  by (auto simp: keyed_def dict_keys_def list_all_iff)

lemma keyed_find: "keyed d \<Longrightarrow> find (\<lambda>a. ans_question_id a = q) (map snd d) = map_of d q"
  unfolding keyed_def by (induction d) auto

lemma answers_merge:
  "distinct (map ans_question_id (run_answers (answering answers now r)))"
  "find (\<lambda>a. ans_question_id a = q) (run_answers (answering answers now r)) =
     (case latest answers q of Some a \<Rightarrow> Some a | None \<Rightarrow> latest (run_answers r) q)"
proof -
  let ?d = "merge_answers answers (merge_answers (run_answers r) [])"
  have k: "keyed ?d" by (intro keyed_merge) (simp add: keyed_def)
  have ans: "run_answers (answering answers now r) = map snd ?d" by (simp add: answering_def)
  have "dict_ok ?d" by (intro merge_answers_ok) simp
  then show "distinct (map ans_question_id (run_answers (answering answers now r)))"
    unfolding ans keyed_ids [OF k] by (simp add: dict_ok_def)
  show "find (\<lambda>a. ans_question_id a = q) (run_answers (answering answers now r)) =
     (case latest answers q of Some a \<Rightarrow> Some a | None \<Rightarrow> latest (run_answers r) q)"
    unfolding ans keyed_find [OF k] by (simp add: map_of_merge_answers split: option.splits)
qed

text \<open>Answers are merged by question and never lost: afterwards every question has one answer, the last
  one given now or, for a question not answered now, the last one given before.\<close>

theorem answering_merges:
  "distinct (map ans_question_id (run_answers (answering answers now r)))
   \<and> (\<forall>q. find (\<lambda>a. ans_question_id a = q) (run_answers (answering answers now r)) =
        (case latest answers q of Some a \<Rightarrow> Some a | None \<Rightarrow> latest (run_answers r) q))"
  using answers_merge by blast

section \<open>A sample history\<close>

definition sample_run :: run where
  "sample_run = \<lparr>run_id = ''ab'', run_idea = ''shop'', run_st = IDEA, run_rounds = 0, run_answers = [],
     run_plan = None, run_summary = [], run_questionnaire = None, run_artifact_id = [], run_error = [],
     run_account = ''GA'', run_charged = 0, run_created_at = 1, run_updated_at = 1\<rparr>"

lemma sample_run_start: "run_start '' shop '' ''GA'' ''ab'' 1 1 = Inr sample_run"
  by code_simp

definition sample_asked :: run where
  "sample_asked = sample_run\<lparr>run_st := QUESTIONNAIRE, run_summary := ''s'', run_questionnaire := Some JNull,
     run_rounds := 1, run_updated_at := 3\<rparr>"

definition sample_generating :: run where
  "sample_generating = sample_asked\<lparr>run_st := BACKEND_GENERATION, run_plan := Some JNull, run_questionnaire := None,
     run_updated_at := 6\<rparr>"

lemma sample_trace_asked: "run_trace sample_run [DESCRIBE, ASK] sample_asked"
proof -
  have "run_step sample_run (Some DESCRIBE) (sample_run\<lparr>run_st := PM_ANALYSIS, run_updated_at := 2\<rparr>)"
    by (rule run_step.intros(1) [of 2]) (simp add: move_defs moved_def may_def sample_run_def)
  moreover have "run_step (sample_run\<lparr>run_st := PM_ANALYSIS, run_updated_at := 2\<rparr>) (Some ASK) sample_asked"
    by (rule run_step.intros(2) [of "''s''" JNull 3])
      (simp add: move_defs moved_def may_def sample_run_def sample_asked_def)
  ultimately show ?thesis
    using trace_move [OF trace_move [OF trace_start]] by (metis append_Cons append_Nil)
qed

lemma sample_trace_generating: "run_trace sample_run [DESCRIBE, ASK, PROPOSE, APPROVE, GENERATE] sample_generating"
proof -
  let ?p = "sample_asked\<lparr>run_st := PLAN_REVIEW, run_plan := Some JNull, run_questionnaire := None, run_updated_at := 4\<rparr>"
  have "run_step sample_asked (Some PROPOSE) ?p"
    by (rule run_step.intros(3) [of JNull 4]) (simp add: move_defs moved_def may_def sample_asked_def)
  moreover have "run_step ?p (Some APPROVE) (?p\<lparr>run_st := PLAN_APPROVED, run_updated_at := 5\<rparr>)"
    by (rule run_step.intros(6) [of 5]) (simp add: move_defs moved_def may_def)
  moreover have "run_step (?p\<lparr>run_st := PLAN_APPROVED, run_updated_at := 5\<rparr>) (Some GENERATE) sample_generating"
    by (rule run_step.intros(7) [of 6]) (simp add: move_defs moved_def may_def sample_generating_def)
  ultimately show ?thesis
    using trace_move [OF trace_move [OF trace_move [OF sample_trace_asked]]] by (metis append_Cons append_Nil)
qed

theorem generation_needs_approved_plan_witness:
  "(\<exists>before plan now after. run_trace sample_run [DESCRIBE, ASK] before \<and> proposed plan now before = Inr after
      \<and> run_trace after [APPROVE, GENERATE] sample_generating \<and> run_plan sample_generating = Some plan)
   \<and> run_account sample_generating = ''GA''"
proof -
  have st: "run_st sample_generating \<in> {BACKEND_GENERATION, ZIP_READY}" "[APPROVE, GENERATE] = [APPROVE, GENERATE] @ (if run_st sample_generating = ZIP_READY then [DELIVER] else [])"
    by (simp_all add: sample_generating_def)
  from generation_needs_approved_plan [OF sample_run_start sample_trace_generating st]
  obtain pre before plan now after where "[DESCRIBE, ASK, PROPOSE, APPROVE, GENERATE] = pre @ [PROPOSE] @ [APPROVE, GENERATE]"
    "run_trace sample_run pre before" "proposed plan now before = Inr after" "run_trace after [APPROVE, GENERATE] sample_generating"
    "run_plan sample_generating = Some plan" "run_account sample_generating = ''GA''" by blast
  moreover from this(1) have "pre = [DESCRIBE, ASK]"
    by (metis append.assoc append_Cons append_Nil append_same_eq)
  ultimately show ?thesis by blast
qed

theorem rounds_count_questionnaires_witness: "run_rounds sample_asked = int (count_list [DESCRIBE, ASK] ASK)"
  by (rule rounds_count_questionnaires [OF sample_run_start sample_trace_asked])

end
