(* ===== verification/Run_Store.thy ===== *)
theory Run_Store
  imports Runs
begin

text \<open>
  \<^verbatim>\<open>infrastructure/runs.py\<close>: runs kept in this process, expiring and bounded.

  The dictionary is in insertion order, which the eviction relies on. Each operation runs under the lock
  from its first statement to its last, so one operation is one step; the reading of the monotonic clock
  that \<^verbatim>\<open>_sweep\<close> takes is an argument.
\<close>

definition RUN_TTL_SECONDS :: int where "RUN_TTL_SECONDS = 60 * 60"
definition MAX_RUNS :: int where "MAX_RUNS = 500"

record run_store =
  rs_runs :: "(string, run) dict"
  rs_ttl :: int
  rs_max :: int

definition sweep :: "monotonic \<Rightarrow> run_store \<Rightarrow> run_store" where
  "sweep now s =
     (let cutoff = now - rs_ttl s;
          expired = [k. (k, r) \<leftarrow> rs_runs s, run_updated_at r < cutoff]
      in s\<lparr>rs_runs := fold dict_pop expired (rs_runs s)\<rparr>)"

text \<open>\<^verbatim>\<open>while len(self._runs) > self._max: self._runs.pop(next(iter(self._runs)))\<close>; with a negative bound the
  iterator of the empty dictionary raises, which a coroutine turns into \<^verbatim>\<open>RuntimeError\<close>.\<close>

fun evict :: "int \<Rightarrow> (string, run) dict \<Rightarrow> (exn + unit) \<times> (string, run) dict" where
  "evict bound [] = (if 0 \<le> bound then (Inr (), []) else (Inl (RuntimeError ''coroutine raised StopIteration''), []))"
| "evict bound (kv # runs) =
     (if int (length (kv # runs)) \<le> bound then (Inr (), kv # runs) else evict bound runs)"

definition run_store_put :: "run \<Rightarrow> monotonic \<Rightarrow> (run_store, exn, run) gw" where
  "run_store_put r now = (\<lambda>s.
     let s1 = sweep now s;
         runs = dict_set (run_id r) r (rs_runs s1);
         runs' = dict_pop (run_id r) runs @ [(run_id r, r)]
     in case evict (rs_max s1) runs' of
          (Inl e, left) \<Rightarrow> (Inl e, s1\<lparr>rs_runs := left\<rparr>)
        | (Inr _, left) \<Rightarrow> (Inr r, s1\<lparr>rs_runs := left\<rparr>))"

definition run_store_get :: "string \<Rightarrow> monotonic \<Rightarrow> (run_store, exn, run) gw" where
  "run_store_get k now = (\<lambda>s.
     let s1 = sweep now s
     in case map_of (rs_runs s1) k of
          None \<Rightarrow> (Inl (RunNotFoundError k), s1)
        | Some r \<Rightarrow> (Inr r, s1))"

definition run_store_len :: "run_store \<Rightarrow> nat" where
  "run_store_len s = length (rs_runs s)"

section \<open>The store as a list of the most recently written runs\<close>

definition run_store_ok :: "run_store \<Rightarrow> bool" where
  "run_store_ok s \<longleftrightarrow> dict_ok (rs_runs s) \<and> list_all (\<lambda>(k, r). run_id r = k) (rs_runs s)
     \<and> int (length (rs_runs s)) \<le> rs_max s"

text \<open>The specification: the runs still alive, in the order they were last written.\<close>

definition alive :: "monotonic \<Rightarrow> run_store \<Rightarrow> run list" where
  "alive now s = filter (\<lambda>r. \<not> run_updated_at r < now - rs_ttl s) (map snd (rs_runs s))"

lemma fold_dict_pop: "fold dict_pop ks d = filter (\<lambda>p. fst p \<notin> set ks) d"
  by (induction ks arbitrary: d) (auto simp: dict_pop_def intro: filter_cong)

lemma sweep_runs:
  assumes "dict_ok (rs_runs s)"
  shows "rs_runs (sweep now s) = filter (\<lambda>p. \<not> run_updated_at (snd p) < now - rs_ttl s) (rs_runs s)"
proof -
  let ?old = "\<lambda>r. run_updated_at r < now - rs_ttl s"
  let ?expired = "[k. (k, r) \<leftarrow> rs_runs s, ?old r]"
  have exp: "fst p \<in> set ?expired \<longleftrightarrow> ?old (snd p)" if p: "p \<in> set (rs_runs s)" for p
  proof -
    have "(fst p, r) \<in> set (rs_runs s) \<Longrightarrow> r = snd p" for r
      using assms p eq_key_imp_eq_value [of "rs_runs s" "fst p"] by (auto simp: dict_ok_def dict_keys_def)
    with p show ?thesis by auto
  qed
  have "rs_runs (sweep now s) = filter (\<lambda>p. fst p \<notin> set ?expired) (rs_runs s)"
    unfolding sweep_def Let_def fold_dict_pop by simp
  also have "\<dots> = filter (\<lambda>p. \<not> ?old (snd p)) (rs_runs s)"
    by (rule filter_cong [OF refl]) (simp only: exp not_False_eq_True)
  finally show ?thesis .
qed

lemma sweep_fields [simp]: "rs_ttl (sweep now s) = rs_ttl s" "rs_max (sweep now s) = rs_max s"
  by (simp_all add: sweep_def Let_def)

lemma sweep_ok:
  assumes "run_store_ok s"
  shows "run_store_ok (sweep now s)"
proof -
  have d: "dict_ok (rs_runs s)" using assms by (simp add: run_store_ok_def)
  have "int (length (filter P (rs_runs s))) \<le> rs_max s" for P
    using assms length_filter_le [of P "rs_runs s"] unfolding run_store_ok_def by linarith
  moreover have "distinct (map fst (filter P (rs_runs s)))" for P
    using d by (simp add: dict_ok_def dict_keys_def distinct_map_filter)
  ultimately show ?thesis
    using assms unfolding run_store_ok_def sweep_runs [OF d]
    by (auto simp: dict_ok_def dict_keys_def list_all_iff)
qed

lemma sweep_alive: "dict_ok (rs_runs s) \<Longrightarrow> map snd (rs_runs (sweep now s)) = alive now s"
  by (simp add: sweep_runs alive_def filter_map comp_def split_beta)

lemma evict_keeps_last:
  "0 \<le> bound \<Longrightarrow> evict bound runs = (Inr (), keep_last (nat bound) runs)"
proof (induction bound runs rule: evict.induct)
  case (1 bound)
  then show ?case by (simp add: keep_last_def)
next
  case (2 bound kv runs)
  then show ?case by (auto simp: keep_last_def Suc_diff_le)
qed

lemma put_runs:
  assumes "run_store_ok s" "1 \<le> rs_max s"
  shows "run_store_put r now s = (Inr r, (sweep now s)\<lparr>rs_runs :=
     keep_last (nat (rs_max s)) (dict_pop (run_id r) (rs_runs (sweep now s)) @ [(run_id r, r)])\<rparr>)"
proof -
  have pop: "dict_pop k (dict_set k v d) = dict_pop k d" for k and v :: run and d
    by (induction k v d rule: dict_set.induct) (auto simp: dict_pop_def)
  show ?thesis using assms(2) by (simp add: run_store_put_def Let_def evict_keeps_last pop)
qed

lemma dict_ok_keep_last: "dict_ok d \<Longrightarrow> dict_ok (keep_last n d)"
  by (simp add: dict_ok_def dict_keys_def keep_last_def distinct_drop drop_map [symmetric])

lemma put_ok:
  assumes ok: "run_store_ok s" "1 \<le> rs_max s"
  shows "run_store_ok (snd (run_store_put r now s))"
proof -
  let ?d = "dict_pop (run_id r) (rs_runs (sweep now s))"
  have "run_store_ok (sweep now s)" by (rule sweep_ok [OF ok(1)])
  then have d: "dict_ok ?d" "list_all (\<lambda>(k, r). run_id r = k) ?d"
    by (auto simp: run_store_ok_def dict_pop_def list_all_iff dict_ok_def dict_keys_def distinct_map_filter)
  have "run_id r \<notin> set (dict_keys ?d)" by (simp add: dict_simps)
  with d(1) have "dict_ok (?d @ [(run_id r, r)])" by (simp add: dict_ok_def) (simp add: dict_keys_def)
  moreover have "list_all (\<lambda>(k, r). run_id r = k) (keep_last n (?d @ [(run_id r, r)]))" for n
    using d(2) by (auto simp: list_all_iff keep_last_def dest!: in_set_dropD)
  moreover have "length (keep_last n xs) \<le> n" for n and xs :: "(string \<times> run) list" by (simp add: keep_last_def)
  then have "int (length (keep_last (nat (rs_max s)) xs)) \<le> rs_max s" for xs :: "(string \<times> run) list"
    using ok(2) by (metis (no_types, lifting) int_nat_eq of_nat_mono order_trans zero_le_one)
  ultimately show ?thesis
    unfolding put_runs [OF ok] by (simp add: run_store_ok_def dict_ok_keep_last)
qed

section \<open>What the store guarantees\<close>

lemma keyed_pop:
  "list_all (\<lambda>(k, r). run_id r = k) d \<Longrightarrow> map snd (dict_pop k d) = filter (\<lambda>x. run_id x \<noteq> k) (map snd d)"
  by (induction d) (auto simp: dict_pop_def)

lemma keep_last_map: "keep_last n (map f xs) = map f (keep_last n xs)"
  by (simp add: keep_last_def drop_map)

text \<open>C31. The store is the list of the runs last written, most recent last: writing a run drops what expired,
  moves the run to the end, and keeps the last \<^verbatim>\<open>max_runs\<close>; so what is evicted is always the run written
  longest ago, never the new one, and the store stays bounded and keyed by run id.\<close>

theorem run_store_put_is_lru:
  assumes "run_store_ok s" "1 \<le> rs_max s"
  shows "\<exists>s'. run_store_put r now s = (Inr r, s') \<and> run_store_ok s'
     \<and> map snd (rs_runs s') = keep_last (nat (rs_max s)) (filter (\<lambda>x. run_id x \<noteq> run_id r) (alive now s) @ [r])"
proof -
  let ?s = "sweep now s"
  have d: "dict_ok (rs_runs s)" and keyed: "list_all (\<lambda>(k, r). run_id r = k) (rs_runs ?s)"
    using assms(1) sweep_ok [OF assms(1), of now] by (simp_all add: run_store_ok_def)
  have "map snd (dict_pop (run_id r) (rs_runs ?s)) = filter (\<lambda>x. run_id x \<noteq> run_id r) (map snd (rs_runs ?s))"
    using keyed_pop [OF keyed] .
  then have "map snd (dict_pop (run_id r) (rs_runs ?s) @ [(run_id r, r)]) =
      filter (\<lambda>x. run_id x \<noteq> run_id r) (alive now s) @ [r]"
    by (simp add: sweep_alive [OF d])
  then have "map snd (keep_last n (dict_pop (run_id r) (rs_runs ?s) @ [(run_id r, r)])) =
      keep_last n (filter (\<lambda>x. run_id x \<noteq> run_id r) (alive now s) @ [r])" for n
    using keep_last_map [of n snd] by metis
  then show ?thesis using put_runs [OF assms] put_ok [OF assms, of r now] by simp
qed

text \<open>Where a run is: with fewer than \<open>n\<close> runs after it.\<close>

definition recent :: "run \<Rightarrow> nat \<Rightarrow> run_store \<Rightarrow> bool" where
  "recent r n s \<longleftrightarrow> (\<exists>pre post. rs_runs s = pre @ (run_id r, r) # post \<and> length post \<le> n)"

lemma keep_last_middle:
  assumes "length post < n"
  shows "\<exists>pre'. keep_last n (pre @ x # post) = pre' @ x # post"
proof -
  have "length (pre @ x # post) - n \<le> length pre" using assms by simp
  then show ?thesis by (auto simp: keep_last_def)
qed

lemma filter_middle:
  assumes "xs = pre @ x # post" "P x"
  shows "\<exists>pre' post'. filter P xs = pre' @ x # post' \<and> length post' \<le> length post"
  using assms by (intro exI [of _ "filter P pre"] exI [of _ "filter P post"]) simp

lemma recent_sweep:
  assumes "run_store_ok s" "recent r n s" "\<not> run_updated_at r < now - rs_ttl s"
  shows "recent r n (sweep now s)"
proof -
  from assms(2) obtain pre post where "rs_runs s = pre @ (run_id r, r) # post" "length post \<le> n"
    by (auto simp: recent_def)
  with filter_middle [of "rs_runs s" pre "(run_id r, r)" post "\<lambda>p. \<not> run_updated_at (snd p) < now - rs_ttl s"] assms(3)
  have "\<exists>pre' post'. filter (\<lambda>p. \<not> run_updated_at (snd p) < now - rs_ttl s) (rs_runs s) = pre' @ (run_id r, r) # post'
      \<and> length post' \<le> n" by (simp only: snd_conv) (meson order_trans)
  then show ?thesis using assms(1) by (simp only: recent_def run_store_ok_def sweep_runs)
qed

lemma recent_put:
  assumes ok: "run_store_ok s" "1 \<le> rs_max s" and r: "recent r n s" "\<not> run_updated_at r < now - rs_ttl s"
    and other: "run_id x \<noteq> run_id r" and room: "int n + 1 < rs_max s"
  shows "recent r (Suc n) (snd (run_store_put x now s))"
proof -
  from recent_sweep [OF ok(1) r] obtain pre post where
    "rs_runs (sweep now s) = pre @ (run_id r, r) # post" "length post \<le> n" by (auto simp: recent_def)
  with filter_middle [of "rs_runs (sweep now s)" pre "(run_id r, r)" post "\<lambda>p. fst p \<noteq> run_id x"] other
  obtain pre' post' where p: "dict_pop (run_id x) (rs_runs (sweep now s)) = pre' @ (run_id r, r) # post'"
      "length post' \<le> n" by (auto simp: dict_pop_def)
  then have "length (post' @ [(run_id x, x)]) < nat (rs_max s)" using room by simp
  from keep_last_middle [OF this, of pre' "(run_id r, r)"] p obtain pre'' where
    "keep_last (nat (rs_max s)) (dict_pop (run_id x) (rs_runs (sweep now s)) @ [(run_id x, x)]) =
       pre'' @ (run_id r, r) # post' @ [(run_id x, x)]" by auto
  moreover have "length (post' @ [(run_id x, x)]) \<le> Suc n" using p(2) by simp
  ultimately have "rs_runs (snd (run_store_put x now s)) = pre'' @ (run_id r, r) # (post' @ [(run_id x, x)])
      \<and> length (post' @ [(run_id x, x)]) \<le> Suc n" unfolding put_runs [OF ok] by simp
  then show ?thesis unfolding recent_def by blast
qed

lemma recent_get:
  assumes "run_store_ok s" "recent r n s" "\<not> run_updated_at r < now - rs_ttl s"
  shows "run_store_get (run_id r) now s = (Inr r, sweep now s)"
proof -
  have "(run_id r, r) \<in> set (rs_runs (sweep now s))" using recent_sweep [OF assms] by (auto simp: recent_def)
  moreover have "distinct (map fst (rs_runs (sweep now s)))"
    using sweep_ok [OF assms(1), of now] by (simp add: run_store_ok_def dict_ok_def dict_keys_def)
  ultimately have "map_of (rs_runs (sweep now s)) (run_id r) = Some r" by simp
  then show ?thesis by (simp add: run_store_get_def)
qed

definition put_all :: "(run \<times> monotonic) list \<Rightarrow> run_store \<Rightarrow> run_store" where
  "put_all ps s = fold (\<lambda>(x, now) s. snd (run_store_put x now s)) ps s"

lemma put_all_keeps:
  assumes "run_store_ok s" "1 \<le> rs_max s" "recent r n s" "int (n + length ps) < rs_max s"
    and "list_all (\<lambda>(x, t). run_id x \<noteq> run_id r \<and> \<not> run_updated_at r < t - rs_ttl s) ps"
  shows "run_store_ok (put_all ps s) \<and> recent r (n + length ps) (put_all ps s)
     \<and> rs_ttl (put_all ps s) = rs_ttl s"
  using assms
proof (induction ps arbitrary: s n)
  case Nil
  then show ?case by (simp add: put_all_def)
next
  case (Cons p ps)
  obtain x t where p: "p = (x, t)" by fastforce
  let ?s = "snd (run_store_put x t s)"
  have same: "rs_ttl ?s = rs_ttl s" "rs_max ?s = rs_max s" using put_runs [OF Cons.prems(1,2)] by simp_all
  have "run_store_ok ?s" by (rule put_ok [OF Cons.prems(1,2)])
  moreover have "recent r (Suc n) ?s" using Cons.prems p by (intro recent_put) auto
  ultimately show ?case using Cons.IH [of ?s "Suc n"] Cons.prems same p by (simp add: put_all_def)
qed

lemma recent_after_put:
  assumes "run_store_ok s" "1 \<le> rs_max s"
  shows "recent r 0 (snd (run_store_put r now s))"
proof -
  have "length ([] :: (string \<times> run) list) < nat (rs_max s)" using assms(2) by simp
  from keep_last_middle [OF this, of _ "(run_id r, r)"] show ?thesis
    unfolding put_runs [OF assms] recent_def by auto
qed

text \<open>A run that was written is read back, as it was written, for as long as it has not expired and fewer
  than \<^verbatim>\<open>max_runs\<close> other runs were written since: neither the sweeps nor the evictions the other requests
  cause can lose it.\<close>

theorem run_survives_other_writes:
  assumes "run_store_ok s" "1 \<le> rs_max s" "int (length ps) < rs_max s"
    and "list_all (\<lambda>(x, t). run_id x \<noteq> run_id r \<and> \<not> run_updated_at r < t - rs_ttl s) ps"
    and "\<not> run_updated_at r < later - rs_ttl s"
  shows "fst (run_store_get (run_id r) later (put_all ps (snd (run_store_put r now s)))) = Inr r"
proof -
  let ?s = "snd (run_store_put r now s)"
  have same: "rs_ttl ?s = rs_ttl s" "rs_max ?s = rs_max s" using put_runs [OF assms(1,2)] by simp_all
  have "run_store_ok (put_all ps ?s) \<and> recent r (0 + length ps) (put_all ps ?s) \<and> rs_ttl (put_all ps ?s) = rs_ttl ?s"
    using assms same by (intro put_all_keeps put_ok recent_after_put) simp_all
  then show ?thesis using recent_get [of "put_all ps ?s" r "length ps" later] assms(5) same by simp
qed

definition sample_store :: run_store where
  "sample_store = \<lparr>rs_runs = [(''ab'', sample_run)], rs_ttl = RUN_TTL_SECONDS, rs_max = 2\<rparr>"

lemma sample_store_ok: "run_store_ok sample_store" "1 \<le> rs_max sample_store"
  by (simp_all add: run_store_ok_def sample_store_def dict_ok_def dict_keys_def sample_run_def)

theorem run_store_put_is_lru_witness:
  "\<exists>s'. run_store_put (sample_run\<lparr>run_id := ''cd''\<rparr>) 5 sample_store = (Inr (sample_run\<lparr>run_id := ''cd''\<rparr>), s')
     \<and> run_store_ok s' \<and> map snd (rs_runs s') = [sample_run, sample_run\<lparr>run_id := ''cd''\<rparr>]"
  using run_store_put_is_lru [OF sample_store_ok, of "sample_run\<lparr>run_id := ''cd''\<rparr>" 5]
  by (simp add: sample_store_def alive_def keep_last_def sample_run_def RUN_TTL_SECONDS_def)

theorem run_survives_other_writes_witness:
  "fst (run_store_get ''ab'' 9 (put_all [(sample_run\<lparr>run_id := ''cd''\<rparr>, 7)]
      (snd (run_store_put sample_run 5 sample_store)))) = Inr sample_run"
  using run_survives_other_writes [OF sample_store_ok, of "[(sample_run\<lparr>run_id := ''cd''\<rparr>, 7)]" sample_run 9 5]
  by (simp add: sample_store_def sample_run_def RUN_TTL_SECONDS_def)

end
