(* ===== verification/Run_Log.thy ===== *)
theory Run_Log
  imports Exceptions Json_Values "HOL-Library.Sublist"
begin

text \<open>
  \<^verbatim>\<open>infrastructure/run_log.py\<close>: what a run has already said, appended on one side and followed on the other.

  A reader keeps a reference to the list of chunks it found, and the writer mutates that list, so lists
  are objects: the dictionary holds addresses and the heap holds the lists. An \<^verbatim>\<open>asyncio.Event\<close> is a number,
  and \<open>rl_set\<close> are the events that were set. \<^verbatim>\<open>follow\<close> is an asynchronous generator; it is the step function
  of a reader, which may stop at every \<^verbatim>\<open>yield\<close> and at \<^verbatim>\<open>wait()\<close> and lets writers run in between.
\<close>

definition MAX_BYTES :: int where "MAX_BYTES = 256 * 1024"
definition MAX_LOGS :: int where "MAX_LOGS = 200"

record run_log =
  rl_heap :: "nat \<Rightarrow> string list"
  rl_alloc :: nat
  rl_chunks :: "(string, nat) dict"
  rl_sizes :: "(string, int) dict"
  rl_ended :: "(string, bool) dict"
  rl_woken :: "(string, nat) dict"
  rl_events :: nat
  rl_set :: "nat set"
  rl_max_bytes :: int
  rl_max_runs :: int

definition new_run_log :: "int \<Rightarrow> int \<Rightarrow> run_log" where
  "new_run_log max_bytes max_runs =
     \<lparr>rl_heap = \<lambda>_. [], rl_alloc = 0, rl_chunks = [], rl_sizes = [], rl_ended = [], rl_woken = [],
      rl_events = 0, rl_set = {}, rl_max_bytes = max_bytes, rl_max_runs = max_runs\<rparr>"

section \<open>Housekeeping\<close>

definition wake :: "string \<Rightarrow> run_log \<Rightarrow> run_log" where
  "wake k l =
     (let fired = (case map_of (rl_woken l) k of Some ev \<Rightarrow> {ev} | None \<Rightarrow> {})
      in l\<lparr>rl_set := rl_set l \<union> fired, rl_woken := dict_set k (rl_events l) (rl_woken l),
           rl_events := rl_events l + 1\<rparr>)"

definition forget :: "string \<Rightarrow> run_log \<Rightarrow> run_log" where
  "forget k l =
     (let fired = (case map_of (rl_woken l) k of Some ev \<Rightarrow> {ev} | None \<Rightarrow> {})
      in l\<lparr>rl_chunks := dict_pop k (rl_chunks l), rl_sizes := dict_pop k (rl_sizes l),
           rl_ended := dict_pop k (rl_ended l), rl_woken := dict_pop k (rl_woken l),
           rl_set := rl_set l \<union> fired\<rparr>)"

lemma forget_chunks [simp]: "rl_chunks (forget k l) = dict_pop k (rl_chunks l)"
  by (simp add: forget_def Let_def)

lemma forget_max [simp]: "rl_max_runs (forget k l) = rl_max_runs l" "rl_max_bytes (forget k l) = rl_max_bytes l"
  by (simp_all add: forget_def Let_def)

text \<open>\<^verbatim>\<open>next(iter(...))\<close> of an empty dictionary raises \<^verbatim>\<open>StopIteration\<close>: a bound below one.\<close>

function log_evict :: "run_log \<Rightarrow> (exn + unit) \<times> run_log" where
  "log_evict l =
     (if int (length (rl_chunks l)) < rl_max_runs l then (Inr (), l)
      else
        (case rl_chunks l of
           [] \<Rightarrow> (Inl (OtherException ''StopIteration''), l)
         | (oldest, _) # _ \<Rightarrow> log_evict (forget oldest l)))"
  by pat_completeness auto
termination
  by (relation "measure (\<lambda>l. length (rl_chunks l))") (auto simp: dict_pop_def le_imp_less_Suc)

declare log_evict.simps [simp del]

section \<open>Writing\<close>

definition log_start :: "string \<Rightarrow> (run_log, exn, unit) gw" where
  "log_start k = (\<lambda>l.
     case log_evict l of
       (Inl e, l1) \<Rightarrow> (Inl e, l1)
     | (Inr _, l1) \<Rightarrow>
         (Inr (), l1\<lparr>rl_heap := (rl_heap l1)(rl_alloc l1 := []), rl_alloc := rl_alloc l1 + 1,
            rl_chunks := dict_set k (rl_alloc l1) (rl_chunks l1), rl_sizes := dict_set k 0 (rl_sizes l1),
            rl_ended := dict_set k False (rl_ended l1), rl_woken := dict_set k (rl_events l1) (rl_woken l1),
            rl_events := rl_events l1 + 1\<rparr>))"

text \<open>\<^verbatim>\<open>while size > max_bytes and len(chunks) > 1: size -= len(chunks.pop(0))\<close>\<close>

fun trim :: "int \<Rightarrow> int \<Rightarrow> string list \<Rightarrow> int \<times> string list" where
  "trim max_bytes bytes (c # d # cs) =
     (if max_bytes < bytes then trim max_bytes (bytes - int (length c)) (d # cs) else (bytes, c # d # cs))"
| "trim max_bytes bytes cs = (bytes, cs)"

definition append_chunk :: "string \<Rightarrow> string \<Rightarrow> (run_log, exn, unit) gw" where
  "append_chunk k chunk = (\<lambda>l.
     case (map_of (rl_chunks l) k, map_of (rl_sizes l) k) of
       (Some a, Some bytes) \<Rightarrow>
         (case trim (rl_max_bytes l) (bytes + int (length chunk)) (rl_heap l a @ [chunk]) of
            (bytes', cs) \<Rightarrow>
              (Inr (), wake k (l\<lparr>rl_heap := (rl_heap l)(a := cs), rl_sizes := dict_set k bytes' (rl_sizes l)\<rparr>)))
     | _ \<Rightarrow> (Inl (OtherException ''KeyError''), l))"

definition log_append :: "string \<Rightarrow> string \<Rightarrow> (run_log, exn, unit) gw" where
  "log_append k chunk =
     then_gw (\<lambda>l. if map_of (rl_chunks l) k = None then log_start k l else (Inr (), l)) (append_chunk k chunk)"

definition log_end :: "string \<Rightarrow> run_log \<Rightarrow> run_log" where
  "log_end k l =
     (if map_of (rl_ended l) k \<noteq> None then wake k (l\<lparr>rl_ended := dict_set k True (rl_ended l)\<rparr>) else l)"

section \<open>Reading\<close>

definition log_has :: "string \<Rightarrow> run_log \<Rightarrow> bool" where
  "log_has k l \<longleftrightarrow> map_of (rl_chunks l) k \<noteq> None"

definition log_ended :: "string \<Rightarrow> run_log \<Rightarrow> bool" where
  "log_ended k l = (case map_of (rl_ended l) k of Some b \<Rightarrow> b | None \<Rightarrow> True)"

text \<open>Where a reader is: at the top of the loop with its cursor, in the middle of the copy \<^verbatim>\<open>chunks[cursor:]\<close>
  (with the list the copy was taken from), waiting for an event, or returned.\<close>

datatype reader = Top nat | Sending nat "string list" | Waiting nat nat | Returned

text \<open>One step: what is yielded, and where the reader goes.\<close>

fun follow_step :: "run_log \<Rightarrow> string \<Rightarrow> reader \<Rightarrow> string list \<times> reader" where
  "follow_step l k (Top cursor) =
     (case map_of (rl_chunks l) k of
        None \<Rightarrow> ([], Returned)
      | Some a \<Rightarrow>
          if cursor < length (rl_heap l a) then ([], Sending a (drop cursor (rl_heap l a)))
          else if log_ended k l then ([], Returned)
          else (case map_of (rl_woken l) k of None \<Rightarrow> ([], Returned) | Some ev \<Rightarrow> ([], Waiting cursor ev)))"
| "follow_step l k (Sending a (c # cs)) = ([c], Sending a cs)"
| "follow_step l k (Sending a []) = ([], Top (length (rl_heap l a)))"
| "follow_step l k (Waiting cursor ev) = (if ev \<in> rl_set l then ([], Top cursor) else ([], Waiting cursor ev))"
| "follow_step l k Returned = ([], Returned)"

text \<open>A reader left to run on a log nobody writes to.\<close>

fun follow :: "nat \<Rightarrow> run_log \<Rightarrow> string \<Rightarrow> reader \<Rightarrow> string list \<times> reader" where
  "follow 0 l k r = ([], r)"
| "follow (Suc fuel) l k r =
     (case follow_step l k r of (out, r') \<Rightarrow>
        (case follow fuel l k r' of (out', r'') \<Rightarrow> (out @ out', r'')))"

section \<open>The log stays bounded and consistent\<close>

definition log_ok :: "run_log \<Rightarrow> bool" where
  "log_ok l \<longleftrightarrow> dict_ok (rl_chunks l)
     \<and> dict_keys (rl_sizes l) = dict_keys (rl_chunks l) \<and> dict_keys (rl_ended l) = dict_keys (rl_chunks l)
     \<and> dict_keys (rl_woken l) = dict_keys (rl_chunks l)
     \<and> distinct (map snd (rl_chunks l)) \<and> list_all (\<lambda>(k, a). a < rl_alloc l) (rl_chunks l)
     \<and> int (length (rl_chunks l)) \<le> rl_max_runs l
     \<and> (\<forall>k a. map_of (rl_chunks l) k = Some a \<longrightarrow>
          map_of (rl_sizes l) k = Some (int (length (concat (rl_heap l a))))
          \<and> (int (length (concat (rl_heap l a))) \<le> rl_max_bytes l \<or> length (rl_heap l a) \<le> 1))"

lemma trim_keeps:
  assumes "trim max_bytes bytes cs = (bytes', cs')" "bytes = int (length (concat cs))"
  shows "suffix cs' cs" "bytes' = int (length (concat cs'))" "bytes' \<le> max_bytes \<or> length cs' \<le> 1" "cs \<noteq> [] \<Longrightarrow> cs' \<noteq> []"
  using assms
  by (induction max_bytes bytes cs rule: trim.induct) (auto simp: suffix_Cons split: if_splits)

lemma map_of_inj:
  assumes "distinct (map snd d)" "map_of d k = Some a" "map_of d k' = Some a"
  shows "k = k'"
proof -
  have "(k, a) \<in> set d" "(k', a) \<in> set d" using assms(2,3) by (auto dest: map_of_SomeD)
  with assms(1) show ?thesis by (metis distinct_map inj_onD prod.inject snd_conv)
qed

lemma dict_set_values: "set (map snd (dict_set k v d)) \<subseteq> insert v (set (map snd d))"
  by (induction k v d rule: dict_set.induct) auto

lemma distinct_set_values: "distinct (map snd d) \<Longrightarrow> v \<notin> set (map snd d) \<Longrightarrow> distinct (map snd (dict_set k v d))"
  by (induction k v d rule: dict_set.induct) (use dict_set_values in \<open>force+\<close>)

lemma list_all_dict_set: "list_all P d \<Longrightarrow> P (k, v) \<Longrightarrow> list_all P (dict_set k v d)"
  by (induction k v d rule: dict_set.induct) auto

lemma length_dict_set: "length (dict_set k v d) \<le> Suc (length d)"
  by (induction k v d rule: dict_set.induct) auto

lemma keys_dict_set_eq:
  "dict_keys d = dict_keys e \<Longrightarrow> dict_keys (dict_set k v d) = dict_keys (dict_set k u e)"
proof (cases "k \<in> set (dict_keys e)")
  case True
  assume "dict_keys d = dict_keys e"
  with True show ?thesis by (simp add: keys_dict_set_present)
next
  case False
  assume "dict_keys d = dict_keys e"
  with False show ?thesis by (simp add: dict_set_fresh) (simp add: dict_keys_def)
qed

lemma key_present: "map_of d k \<noteq> None \<longleftrightarrow> k \<in> set (dict_keys d)"
  by (simp add: dict_keys_def map_of_eq_None_iff)

lemma wake_ok: "log_ok l \<Longrightarrow> k \<in> set (dict_keys (rl_chunks l)) \<Longrightarrow> log_ok (wake k l)"
  by (simp add: log_ok_def wake_def Let_def keys_dict_set_present)

lemma forget_ok:
  assumes "log_ok l"
  shows "log_ok (forget k l)"
proof -
  have "distinct (map snd (dict_pop k (rl_chunks l)))" "list_all (\<lambda>(k, a). a < rl_alloc l) (dict_pop k (rl_chunks l))"
    using assms by (auto simp: log_ok_def dict_pop_def distinct_map_filter list_all_iff)
  moreover have "int (length (dict_pop k (rl_chunks l))) \<le> rl_max_runs l"
    using assms length_filter_le [of "\<lambda>p. fst p \<noteq> k" "rl_chunks l"] unfolding log_ok_def dict_pop_def by linarith
  moreover have "map_of (dict_pop k (rl_chunks l)) j = Some a \<Longrightarrow>
      map_of (dict_pop k (rl_sizes l)) j = Some (int (length (concat (rl_heap l a))))
      \<and> (int (length (concat (rl_heap l a))) \<le> rl_max_bytes l \<or> length (rl_heap l a) \<le> 1)" for j a
    using assms by (simp add: log_ok_def map_of_dict_pop split: if_splits)
  moreover have "dict_keys (dict_pop k d) = dict_keys (dict_pop k (rl_chunks l))"
    if "dict_keys d = dict_keys (rl_chunks l)" for d :: "(string, 'v) dict"
    using that by (simp add: keys_dict_pop)
  ultimately show ?thesis
    using assms unfolding log_ok_def forget_def Let_def by (simp add: keys_dict_pop)
qed

lemma evict_ok:
  "log_ok l \<Longrightarrow> 1 \<le> rl_max_runs l \<Longrightarrow>
   \<exists>l'. log_evict l = (Inr (), l') \<and> log_ok l' \<and> int (length (rl_chunks l')) < rl_max_runs l'
      \<and> rl_max_runs l' = rl_max_runs l \<and> rl_max_bytes l' = rl_max_bytes l \<and> rl_heap l' = rl_heap l
      \<and> rl_alloc l' = rl_alloc l \<and> rl_events l' = rl_events l \<and> rl_set l \<subseteq> rl_set l'"
proof (induction l rule: log_evict.induct)
  case (1 l)
  show ?case
  proof (cases "int (length (rl_chunks l)) < rl_max_runs l")
    case True
    with 1 show ?thesis by (simp add: log_evict.simps)
  next
    case False
    with 1 obtain k a rest where c: "rl_chunks l = (k, a) # rest" by (cases "rl_chunks l") auto
    have same: "rl_heap (forget k l) = rl_heap l" "rl_alloc (forget k l) = rl_alloc l"
        "rl_events (forget k l) = rl_events l" "rl_set l \<subseteq> rl_set (forget k l)"
      by (auto simp: forget_def Let_def)
    have "log_evict l = log_evict (forget k l)" using False c by (subst log_evict.simps) simp
    with "1.IH" [OF False c refl forget_ok [OF "1.prems"(1)]] "1.prems"(2) same show ?thesis by auto
  qed
qed

lemma start_ok:
  assumes ok: "log_ok l" "1 \<le> rl_max_runs l"
  shows "\<exists>l' a. log_start k l = (Inr (), l') \<and> log_ok l' \<and> map_of (rl_chunks l') k = Some a \<and> rl_heap l' a = []
     \<and> map_of (rl_sizes l') k = Some 0 \<and> \<not> log_ended k l'
     \<and> rl_max_bytes l' = rl_max_bytes l \<and> rl_max_runs l' = rl_max_runs l \<and> rl_set l \<subseteq> rl_set l'"
proof -
  obtain l1 where l1: "log_evict l = (Inr (), l1)" "log_ok l1" "int (length (rl_chunks l1)) < rl_max_runs l1"
      "rl_max_runs l1 = rl_max_runs l" "rl_max_bytes l1 = rl_max_bytes l" "rl_set l \<subseteq> rl_set l1"
    using evict_ok [OF ok] by blast
  let ?a = "rl_alloc l1"
  define l' where "l' = l1\<lparr>rl_heap := (rl_heap l1)(?a := []), rl_alloc := ?a + 1,
      rl_chunks := dict_set k ?a (rl_chunks l1), rl_sizes := dict_set k 0 (rl_sizes l1),
      rl_ended := dict_set k False (rl_ended l1), rl_woken := dict_set k (rl_events l1) (rl_woken l1),
      rl_events := rl_events l1 + 1\<rparr>"
  have keys: "dict_keys (rl_sizes l1) = dict_keys (rl_chunks l1)" "dict_keys (rl_ended l1) = dict_keys (rl_chunks l1)"
      "dict_keys (rl_woken l1) = dict_keys (rl_chunks l1)" "dict_ok (rl_chunks l1)" "distinct (map snd (rl_chunks l1))"
      and below: "list_all (\<lambda>(k, a). a < ?a) (rl_chunks l1)"
    using l1(2) by (simp_all add: log_ok_def)
  have fresh: "?a \<notin> set (map snd (rl_chunks l1))" using below by (auto simp: list_all_iff)
  have sizes: "map_of (rl_chunks l1) j = Some b \<Longrightarrow> map_of (rl_sizes l1) j = Some (int (length (concat (rl_heap l1 b))))
      \<and> (int (length (concat (rl_heap l1 b))) \<le> rl_max_bytes l1 \<or> length (rl_heap l1 b) \<le> 1) \<and> b \<noteq> ?a" for j b
    using l1(2) below by (auto simp: log_ok_def list_all_iff dest: map_of_SomeD)
  have "list_all (\<lambda>(k, a). a < ?a + 1) (dict_set k ?a (rl_chunks l1))"
    using below by (intro list_all_dict_set) (auto simp: list_all_iff)
  moreover have "int (length (dict_set k ?a (rl_chunks l1))) \<le> rl_max_runs l1"
    using l1(3) length_dict_set [of k ?a "rl_chunks l1"] by linarith
  moreover have "distinct (map snd (dict_set k ?a (rl_chunks l1)))" by (rule distinct_set_values [OF keys(5) fresh])
  ultimately have "log_ok l'"
    unfolding log_ok_def l'_def
    using keys sizes by (auto simp: map_of_dict_set keys_dict_set_eq split: if_splits)
  moreover have "log_start k l = (Inr (), l')" using l1(1) by (simp add: log_start_def l'_def)
  moreover have "map_of (rl_chunks l') k = Some ?a" "rl_heap l' ?a = []" "map_of (rl_sizes l') k = Some 0"
      "\<not> log_ended k l'" "rl_max_bytes l' = rl_max_bytes l" "rl_max_runs l' = rl_max_runs l" "rl_set l \<subseteq> rl_set l'"
    using l1(4-6) by (simp_all add: l'_def map_of_dict_set log_ended_def)
  ultimately show ?thesis by blast
qed

lemma append_chunk_ok:
  assumes ok: "log_ok l" and a: "map_of (rl_chunks l) k = Some a"
  shows "\<exists>l'. append_chunk k chunk l = (Inr (), l') \<and> log_ok l' \<and> rl_chunks l' = rl_chunks l
     \<and> suffix (rl_heap l' a) (rl_heap l a @ [chunk]) \<and> rl_heap l' a \<noteq> []
     \<and> (\<forall>b. b \<noteq> a \<longrightarrow> rl_heap l' b = rl_heap l b) \<and> rl_ended l' = rl_ended l
     \<and> (\<forall>ev. map_of (rl_woken l) k = Some ev \<longrightarrow> ev \<in> rl_set l') \<and> rl_set l \<subseteq> rl_set l'
     \<and> rl_max_bytes l' = rl_max_bytes l \<and> rl_max_runs l' = rl_max_runs l"
proof -
  have n: "map_of (rl_sizes l) k = Some (int (length (concat (rl_heap l a))))" using ok a by (simp add: log_ok_def)
  obtain bytes' cs where t: "trim (rl_max_bytes l) (int (length (concat (rl_heap l a))) + int (length chunk))
      (rl_heap l a @ [chunk]) = (bytes', cs)" by fastforce
  have trimmed: "suffix cs (rl_heap l a @ [chunk])" "bytes' = int (length (concat cs))"
      "bytes' \<le> rl_max_bytes l \<or> length cs \<le> 1" "cs \<noteq> []"
    using trim_keeps [OF t] by auto
  define m where "m = l\<lparr>rl_heap := (rl_heap l)(a := cs), rl_sizes := dict_set k bytes' (rl_sizes l)\<rparr>"
  have k: "k \<in> set (dict_keys (rl_chunks l))" using a key_present by fastforce
  then have keys: "dict_keys (dict_set k bytes' (rl_sizes l)) = dict_keys (rl_chunks l)"
    using ok by (simp add: log_ok_def keys_dict_set_present)
  have "map_of (rl_chunks l) j = Some b \<Longrightarrow> j \<noteq> k \<Longrightarrow> b \<noteq> a" for j b
    using map_of_inj [of "rl_chunks l" j a k] ok a by (auto simp: log_ok_def)
  then have "log_ok m"
    using ok a keys trimmed(2,3) by (auto simp: log_ok_def m_def map_of_dict_set split: if_splits)
  moreover have "rl_chunks m = rl_chunks l" by (simp add: m_def)
  ultimately have "log_ok (wake k m)" using k by (intro wake_ok) auto
  moreover have "append_chunk k chunk l = (Inr (), wake k m)" using a n t by (simp add: append_chunk_def m_def)
  moreover have "rl_heap (wake k m) = (rl_heap l)(a := cs)" "rl_chunks (wake k m) = rl_chunks l"
      "rl_ended (wake k m) = rl_ended l" "rl_max_bytes (wake k m) = rl_max_bytes l"
      "rl_max_runs (wake k m) = rl_max_runs l" "rl_set l \<subseteq> rl_set (wake k m)"
      "\<forall>ev. map_of (rl_woken l) k = Some ev \<longrightarrow> ev \<in> rl_set (wake k m)"
    by (simp_all add: wake_def m_def Let_def)
  ultimately show ?thesis using trimmed(1,4) by auto
qed

lemma end_ok: "log_ok l \<Longrightarrow> log_ok (log_end k l)"
proof -
  assume ok: "log_ok l"
  show ?thesis
  proof (cases "map_of (rl_ended l) k")
    case None
    with ok show ?thesis by (simp add: log_end_def)
  next
    case (Some b)
    then have k: "k \<in> set (dict_keys (rl_chunks l))"
      using ok dict_get_in [of "rl_ended l" k b] by (simp add: log_ok_def)
    then have "log_ok (l\<lparr>rl_ended := dict_set k True (rl_ended l)\<rparr>)"
      using ok by (simp add: log_ok_def keys_dict_set_present)
    with Some k show ?thesis by (simp add: log_end_def wake_ok)
  qed
qed

text \<open>C32. Appending never fails and keeps the log bounded: it holds at most \<^verbatim>\<open>max_runs\<close> runs, each within
  \<^verbatim>\<open>max_bytes\<close> unless it is one chunk alone. What a run keeps is the end of what it said, the new chunk
  included, so only the oldest chunks go; and every reader waiting on the run is released.\<close>

theorem log_append_bounded:
  assumes "log_ok l" "1 \<le> rl_max_runs l"
  shows "\<exists>l' a old. log_append k chunk l = (Inr (), l') \<and> log_ok l' \<and> map_of (rl_chunks l') k = Some a
     \<and> old = (case map_of (rl_chunks l) k of Some b \<Rightarrow> rl_heap l b | None \<Rightarrow> [])
     \<and> suffix (rl_heap l' a) (old @ [chunk]) \<and> rl_heap l' a \<noteq> []
     \<and> (\<forall>ev. map_of (rl_chunks l) k \<noteq> None \<and> map_of (rl_woken l) k = Some ev \<longrightarrow> ev \<in> rl_set l')"
proof (cases "map_of (rl_chunks l) k")
  case (Some b)
  from append_chunk_ok [OF assms(1) Some, of chunk] Some show ?thesis
    by (auto simp: log_append_def then_gw_def bind_gw_def)
next
  case None
  obtain l1 a where l1: "log_start k l = (Inr (), l1)" "log_ok l1" "map_of (rl_chunks l1) k = Some a" "rl_heap l1 a = []"
    using start_ok [OF assms, of k] by blast
  from append_chunk_ok [OF l1(2,3), of chunk] l1 None show ?thesis
    by (auto simp: log_append_def then_gw_def bind_gw_def suffix_Cons)
qed

lemma new_run_log_ok: "0 \<le> max_runs \<Longrightarrow> log_ok (new_run_log max_bytes max_runs)"
  by (simp add: log_ok_def new_run_log_def dict_keys_def)

theorem log_append_bounded_witness:
  "\<exists>l' a. log_append ''r'' ''abc'' (new_run_log 2 1) = (Inr (), l') \<and> log_ok l' \<and> map_of (rl_chunks l') ''r'' = Some a
     \<and> rl_heap l' a = [''abc'']"
proof -
  have "log_ok (new_run_log 2 1)" "1 \<le> rl_max_runs (new_run_log 2 1)"
    by (simp_all add: new_run_log_ok) (simp add: new_run_log_def)
  moreover have "map_of (rl_chunks (new_run_log 2 1)) ''r'' = None" by (simp add: new_run_log_def)
  ultimately show ?thesis
    using log_append_bounded [of "new_run_log 2 1" "''r''" "''abc''"] by (auto simp: suffix_Cons)
qed

section \<open>Following\<close>

lemma follow_add: "follow (m + n) l k r =
   (case follow m l k r of (out, r') \<Rightarrow> (case follow n l k r' of (out', r'') \<Rightarrow> (out @ out', r'')))"
  by (induction m arbitrary: r) (auto split: prod.splits)

lemma follow_sending: "follow (length cs) l k (Sending a cs) = (cs, Sending a [])"
  by (induction cs) auto

lemma follow_returned: "follow n l k Returned = ([], Returned)"
  by (induction n) auto

lemma follow_ended:
  assumes "map_of (rl_chunks l) k = Some a" "log_ended k l" "length (rl_heap l a) + 3 \<le> fuel"
  shows "follow fuel l k (Top 0) = (rl_heap l a, Returned)"
proof (cases "rl_heap l a")
  case Nil
  from assms(3) obtain n where "fuel = Suc n" by (cases fuel) auto
  with assms Nil show ?thesis by (simp add: follow_returned)
next
  case (Cons c cs)
  let ?xs = "rl_heap l a"
  from assms(3) obtain n where fuel: "fuel = Suc (length ?xs + Suc (Suc n))"
    using le_Suc_ex [OF assms(3)] by auto
  have "follow (Suc (Suc n)) l k (Sending a []) = ([], Returned)"
    using assms(1,2) by (simp add: follow_returned)
  then have "follow (length ?xs + Suc (Suc n)) l k (Sending a ?xs) = (?xs, Returned)"
    unfolding follow_add follow_sending by simp
  moreover have "follow_step l k (Top 0) = ([], Sending a ?xs)" using assms(1) Cons by simp
  ultimately show ?thesis unfolding fuel by simp
qed

text \<open>C33. A tab that comes back after the generation is over gets everything the log kept, in order, and the
  stream ends: following a run that ended yields its chunks and returns, within a number of steps that is
  the number of chunks plus three.\<close>

theorem follow_replays_ended_run:
  assumes "map_of (rl_chunks l) k = Some a" "log_ended k l" "length (rl_heap l a) + 3 \<le> fuel"
  shows "follow fuel l k (Top 0) = (rl_heap l a, Returned)"
  using assms by (rule follow_ended)

definition ended_log :: run_log where
  "ended_log = (new_run_log 100 5)\<lparr>rl_heap := (\<lambda>_. [''a'', ''b'']), rl_alloc := 1, rl_chunks := [(''r'', 0)],
     rl_sizes := [(''r'', 2)], rl_ended := [(''r'', True)], rl_woken := [(''r'', 0)], rl_events := 1\<rparr>"

theorem follow_replays_ended_run_witness: "follow 5 ended_log ''r'' (Top 0) = ([''a'', ''b''], Returned)"
  using follow_replays_ended_run [of ended_log "''r''" 0 5] by (simp add: ended_log_def log_ended_def)

text \<open>A chunk that is appended while a reader is still sending what it found is skipped. The reader copied
  the list, and afterwards puts its cursor at the end of the list as it is by then: the chunk is in the
  log, the reader goes on to the end of the run, and never yields it.\<close>

theorem chunk_appended_while_sending_is_skipped:
  assumes "log_ok l" "map_of (rl_chunks l) k = Some a" "rl_heap l a = sent @ pending"
    and "log_append k chunk l = (Inr (), l1)" "l2 = log_end k l1" "length pending + 3 \<le> fuel"
  shows "follow fuel l2 k (Sending a pending) = (pending, Returned)"
proof -
  obtain l1' where l1': "append_chunk k chunk l = (Inr (), l1')" "log_ok l1'" "rl_chunks l1' = rl_chunks l"
      "rl_ended l1' = rl_ended l"
    using append_chunk_ok [OF assms(1,2)] by blast
  then have l1: "l1 = l1'" using assms(2,4) by (simp add: log_append_def then_gw_def bind_gw_def)
  have "k \<in> set (dict_keys (rl_ended l))"
    using assms(1) dict_get_in [OF assms(2)] by (simp add: log_ok_def)
  then have "map_of (rl_ended l1) k \<noteq> None" using l1 l1'(4) key_present by fastforce
  then have l2: "map_of (rl_chunks l2) k = Some a" "log_ended k l2"
    using assms(2,5) l1 l1'(3) by (simp_all add: log_end_def wake_def Let_def log_ended_def map_of_dict_set)
  from assms(6) obtain n where fuel: "fuel = length pending + Suc (Suc n)"
    using le_Suc_ex [OF assms(6)] by auto
  have "follow (Suc (Suc n)) l2 k (Sending a []) = ([], Returned)" using l2 by (simp add: follow_returned)
  then show ?thesis unfolding fuel follow_add follow_sending by simp
qed

definition live_log :: run_log where
  "live_log = (new_run_log 100 5)\<lparr>rl_heap := (\<lambda>_. [''a'', ''b'']), rl_alloc := 1, rl_chunks := [(''r'', 0)],
     rl_sizes := [(''r'', 2)], rl_ended := [(''r'', False)], rl_woken := [(''r'', 0)], rl_events := 1\<rparr>"

theorem chunk_appended_while_sending_is_skipped_witness:
  "\<exists>l1. log_append ''r'' ''c'' live_log = (Inr (), l1) \<and> rl_heap l1 0 = [''a'', ''b'', ''c'']
     \<and> follow 4 (log_end ''r'' l1) ''r'' (Sending 0 [''b'']) = ([''b''], Returned)"
proof -
  have ok: "log_ok live_log" by (simp add: log_ok_def live_log_def new_run_log_def dict_ok_def dict_keys_def)
  have a: "map_of (rl_chunks live_log) ''r'' = Some 0" "rl_heap live_log 0 = [''a''] @ [''b'']"
    by (simp_all add: live_log_def)
  have "\<exists>l1. log_append ''r'' ''c'' live_log = (Inr (), l1) \<and> rl_heap l1 0 = [''a'', ''b'', ''c'']"
    by (simp add: log_append_def then_gw_def bind_gw_def append_chunk_def live_log_def new_run_log_def wake_def Let_def)
  then obtain l1 where l1: "log_append ''r'' ''c'' live_log = (Inr (), l1)" "rl_heap l1 0 = [''a'', ''b'', ''c'']" by blast
  with chunk_appended_while_sending_is_skipped [OF ok a l1(1) refl, of 4] show ?thesis by simp
qed

end
