(* ===== verification/Gateway_Models.thy ===== *)
theory Gateway_Models
  imports Exceptions Json_Values
begin

text \<open>
  \<^verbatim>\<open>domain/models.py\<close> and \<^verbatim>\<open>infrastructure/registry.py\<close>: services, their instances, requests, responses and the
  registry.

  The id of an instance is the first eight hex digits of a SHA-256 digest; the digest is an argument of
  the constructor (\<open>sha256\<close>), and everything holds for any function in its place. Seconds are integers in
  some unit. A response and a stream are one record: what the resilience layers read of either is the
  status, and a body that is still open is a connection number, which \<^verbatim>\<open>aclose\<close> releases.
\<close>

type_synonym headers = "(string \<times> string) list"

definition IDEMPOTENT_METHODS :: "string list" where
  "IDEMPOTENT_METHODS = [''GET'', ''HEAD'', ''OPTIONS'', ''PUT'', ''DELETE'']"

definition in_quotes :: "string \<Rightarrow> string" where
  "in_quotes s = [char_of (39::nat)] @ s @ [char_of (39::nat)]"

section \<open>Services\<close>

record service_instance =
  si_base_url :: string
  si_id :: string

definition new_instance :: "(string \<Rightarrow> string) \<Rightarrow> string \<Rightarrow> service_instance" where
  "new_instance sha256 base_url = \<lparr>si_base_url = base_url, si_id = take 8 (sha256 base_url)\<rparr>"

record service_definition =
  sd_name :: string
  sd_base_urls :: "string list"
  sd_timeout :: int
  sd_health_path :: string
  sd_read_timeout :: "int option"
  sd_headers :: headers
  sd_instances :: "service_instance list"

definition read_timeout :: "service_definition \<Rightarrow> int" where
  "read_timeout s = (case sd_read_timeout s of None \<Rightarrow> sd_timeout s | Some t \<Rightarrow> t)"

definition new_service ::
  "(string \<Rightarrow> string) \<Rightarrow> string \<Rightarrow> string list \<Rightarrow> int \<Rightarrow> string \<Rightarrow> int option \<Rightarrow> headers \<Rightarrow> exn + service_definition" where
  "new_service sha256 name base_urls timeout health_path gap hs =
     (let instances = map (new_instance sha256) base_urls
      in if instances = [] then Inl (ValueError (''Service '' @ in_quotes name @ '' needs at least one base URL''))
         else if card (set (map si_id instances)) \<noteq> length instances
           then Inl (ValueError (''Service '' @ in_quotes name @ '' lists the same base URL twice''))
         else Inr \<lparr>sd_name = name, sd_base_urls = base_urls, sd_timeout = timeout, sd_health_path = health_path,
                sd_read_timeout = gap, sd_headers = hs, sd_instances = instances\<rparr>)"

definition service_instance_named :: "service_definition \<Rightarrow> string \<Rightarrow> exn + service_instance" where
  "service_instance_named s i =
     (case find (\<lambda>x. si_id x = i) (sd_instances s) of
        Some x \<Rightarrow> Inr x
      | None \<Rightarrow> Inl (InstanceNotFoundError (sd_name s) i))"

section \<open>Requests\<close>

record inbound_request =
  in_method :: string
  in_path :: string
  in_headers :: headers
  in_query_params :: headers
  in_body :: string
  in_client_host :: "string option"
  in_scheme :: string
  in_host :: "string option"
  in_request_id :: "string option"

record outbound_request =
  ob_service :: service_definition
  ob_method :: string
  ob_path :: string
  ob_headers :: headers
  ob_query_params :: headers
  ob_body :: string
  ob_instance :: "service_instance option"

definition target :: "outbound_request \<Rightarrow> string" where
  "target r =
     (case ob_instance r of
        Some i \<Rightarrow> sd_name (ob_service r) @ ''@'' @ si_id i
      | None \<Rightarrow> sd_name (ob_service r))"

definition is_idempotent :: "outbound_request \<Rightarrow> bool" where
  "is_idempotent r \<longleftrightarrow> upper (ob_method r) \<in> set IDEMPOTENT_METHODS"

definition resolved_instance :: "outbound_request \<Rightarrow> exn + service_instance" where
  "resolved_instance r =
     (case ob_instance r of
        Some i \<Rightarrow> Inr i
      | None \<Rightarrow>
          (case sd_instances (ob_service r) of
             [i] \<Rightarrow> Inr i
           | _ \<Rightarrow> Inl (RuntimeError (''No instance of '' @ in_quotes (sd_name (ob_service r))
                    @ '' was chosen for this request''))))"

text \<open>\<^verbatim>\<open>urllib.parse.quote\<close>: letters, digits, \<^verbatim>\<open>_.-~\<close> and the safe characters stay, any other byte of the UTF-8
  text becomes \<^verbatim>\<open>%XX\<close>.\<close>

definition PATH_SAFE_CHARS :: string where
  "PATH_SAFE_CHARS = ''/:@!$&'' @ [char_of (39::nat)] @ ''()*+,;=-._~''"

definition is_alnum :: "char \<Rightarrow> bool" where
  "is_alnum c \<longleftrightarrow> is_digit c \<or> (65 \<le> byte c \<and> byte c \<le> 90) \<or> (97 \<le> byte c \<and> byte c \<le> 122)"

definition hex_upper :: "nat \<Rightarrow> char" where
  "hex_upper d = (if d < 10 then char_of (48 + d) else char_of (55 + d))"

definition quote_char :: "char \<Rightarrow> string" where
  "quote_char c =
     (if is_alnum c \<or> c \<in> set ''_.-~'' \<or> c \<in> set PATH_SAFE_CHARS then [c]
      else [CHR ''%'', hex_upper (byte c div 16), hex_upper (byte c mod 16)])"

definition quote :: "string \<Rightarrow> string" where
  "quote s = concat (map quote_char s)"

definition url :: "outbound_request \<Rightarrow> exn + string" where
  "url r =
     (case resolved_instance r of
        Inl e \<Rightarrow> Inl e
      | Inr i \<Rightarrow>
          Inr (rev (dropWhile (\<lambda>c. c = CHR ''/'') (rev (si_base_url i))) @ ''/''
               @ quote (dropWhile (\<lambda>c. c = CHR ''/'') (ob_path r))))"

section \<open>Responses\<close>

record upstream_outcome =
  uo_status :: int
  uo_headers :: headers
  uo_body :: string
  uo_connection :: "nat option"
  uo_instance_id :: "string option"

section \<open>Health\<close>

datatype health_status = UP | DEGRADED | DOWN

record instance_health =
  ih_id :: string
  ih_status :: health_status
  ih_latency :: "int option"
  ih_detail :: "string option"

record service_health =
  sh_name :: string
  sh_instances :: "instance_health list"

definition service_status :: "service_health \<Rightarrow> health_status" where
  "service_status s =
     (let up = length (filter (\<lambda>i. ih_status i = UP) (sh_instances s))
      in if up = length (sh_instances s) then UP else if up \<noteq> 0 then DEGRADED else DOWN)"

definition report_is_healthy :: "service_health list \<Rightarrow> bool" where
  "report_is_healthy services = list_all (\<lambda>s. service_status s = UP) services"

section \<open>The registry\<close>

type_synonym registry = "(string, service_definition) dict"

fun registry_of :: "registry \<Rightarrow> service_definition list \<Rightarrow> exn + registry" where
  "registry_of d [] = Inr d"
| "registry_of d (s # ss) =
     (if map_of d (sd_name s) \<noteq> None then Inl (DuplicateServiceError (sd_name s))
      else registry_of (dict_set (sd_name s) s d) ss)"

definition registry_get :: "registry \<Rightarrow> string \<Rightarrow> exn + service_definition" where
  "registry_get d name =
     (case map_of d name of Some s \<Rightarrow> Inr s | None \<Rightarrow> Inl (ServiceNotFoundError name))"

definition registry_all :: "registry \<Rightarrow> service_definition list" where
  "registry_all d = map snd d"

section \<open>Facts\<close>

lemma registry_of_all:
  "registry_of d ss = Inr d' \<Longrightarrow>
     d' = d @ map (\<lambda>s. (sd_name s, s)) ss \<and> distinct (map sd_name ss)
     \<and> set (map sd_name ss) \<inter> set (dict_keys d) = {}"
proof (induction d ss arbitrary: d' rule: registry_of.induct)
  case (1 d)
  then show ?case by simp
next
  case (2 d s ss)
  from "2.prems" have new: "map_of d (sd_name s) = None" and rest: "registry_of (dict_set (sd_name s) s d) ss = Inr d'"
    by (auto split: if_splits)
  then have fresh: "sd_name s \<notin> set (dict_keys d)" by (simp add: dict_keys_def map_of_eq_None_iff)
  then have "dict_set (sd_name s) s d = d @ [(sd_name s, s)]" by (rule dict_set_fresh)
  with "2.IH" [OF _ rest] new fresh show ?case by (auto simp: dict_keys_def)
qed

text \<open>The registry holds exactly the configured services, in order, and refuses two with one name: when it
  is built, \<^verbatim>\<open>get\<close> finds each service under its own name and nothing under any other.\<close>

theorem registry_is_the_configuration:
  assumes "registry_of [] services = Inr d"
  shows "registry_all d = services \<and> distinct (map sd_name services)
     \<and> (\<forall>s \<in> set services. registry_get d (sd_name s) = Inr s)
     \<and> (\<forall>name. name \<notin> set (map sd_name services) \<longrightarrow> registry_get d name = Inl (ServiceNotFoundError name))"
proof -
  from registry_of_all [OF assms] have d: "d = map (\<lambda>s. (sd_name s, s)) services" "distinct (map sd_name services)" by simp_all
  then have "s \<in> set services \<Longrightarrow> map_of d (sd_name s) = Some s" for s
    by (intro map_of_is_SomeI) (auto simp: comp_def)
  moreover have "name \<notin> set (map sd_name services) \<Longrightarrow> map_of d name = None" for name
    using d(1) by (auto simp: map_of_eq_None_iff)
  moreover have "registry_all d = services" using d(1) by (simp add: registry_all_def comp_def)
  ultimately show ?thesis using d(2) by (simp add: registry_get_def)
qed

definition sample_service_a :: service_definition where
  "sample_service_a = \<lparr>sd_name = ''pm'', sd_base_urls = [''http://a''], sd_timeout = 5, sd_health_path = ''/health'',
     sd_read_timeout = None, sd_headers = [], sd_instances = [\<lparr>si_base_url = ''http://a'', si_id = ''00000001''\<rparr>,
       \<lparr>si_base_url = ''http://b'', si_id = ''00000002''\<rparr>]\<rparr>"

theorem registry_is_the_configuration_witness:
  "registry_of [] [sample_service_a] = Inr [(''pm'', sample_service_a)]
   \<and> registry_get [(''pm'', sample_service_a)] ''pm'' = Inr sample_service_a
   \<and> registry_get [(''pm'', sample_service_a)] ''x'' = Inl (ServiceNotFoundError ''x'')"
proof -
  have r: "registry_of [] [sample_service_a] = Inr [(''pm'', sample_service_a)]" by (simp add: sample_service_a_def)
  have n: "sd_name sample_service_a = ''pm''" by (simp add: sample_service_a_def)
  from registry_is_the_configuration [OF r] r n show ?thesis by simp
qed

text \<open>What a server makes of an escaped path.\<close>

definition hex_value :: "char \<Rightarrow> nat" where
  "hex_value c = (if is_digit c then byte c - 48 else byte c - 55)"

fun unquote :: "string \<Rightarrow> string" where
  "unquote (CHR ''%'' # a # b # s) = char_of (16 * hex_value a + hex_value b) # unquote s"
| "unquote (c # s) = c # unquote s"
| "unquote [] = []"

lemma hex_value_upper: "d < 16 \<Longrightarrow> hex_value (hex_upper d) = d"
  by (auto simp: hex_value_def hex_upper_def is_digit_def)

lemma hex_upper_alnum: "d < 16 \<Longrightarrow> is_alnum (hex_upper d)"
  by (auto simp: hex_upper_def is_alnum_def is_digit_def)

lemma percent_not_safe: "\<not> is_alnum (CHR ''%'')" "CHR ''%'' \<notin> set ''_.-~''" "CHR ''%'' \<notin> set PATH_SAFE_CHARS"
  by (simp_all add: is_alnum_def is_digit_def byte_def PATH_SAFE_CHARS_def char_of_def)

lemma unquote_plain: "c \<noteq> CHR ''%'' \<Longrightarrow> unquote (c # s) = c # unquote s"
  by (cases "(c # s)" rule: unquote.cases) auto

text \<open>Escaping a path loses nothing and lets nothing through: what the server decodes is the path the client
  asked for, byte for byte, and the escaped text has only letters, digits, the percent sign and the
  characters a path may hold, so no query, fragment, space or control character can be smuggled in.\<close>

theorem quote_is_faithful_and_safe:
  "unquote (quote s) = s
   \<and> list_all (\<lambda>c. is_alnum c \<or> c = CHR ''%'' \<or> c \<in> set PATH_SAFE_CHARS) (quote s)"
proof (induction s)
  case Nil
  then show ?case by (simp add: quote_def)
next
  case (Cons c s)
  have eq: "quote (c # s) = quote_char c @ quote s" by (simp add: quote_def)
  show ?case
  proof (cases "is_alnum c \<or> c \<in> set ''_.-~'' \<or> c \<in> set PATH_SAFE_CHARS")
    case True
    then have "c \<noteq> CHR ''%''" using percent_not_safe by blast
    moreover have "is_alnum c \<or> c \<in> set PATH_SAFE_CHARS"
      using True by (auto simp: PATH_SAFE_CHARS_def is_alnum_def is_digit_def byte_def)
    ultimately show ?thesis using Cons.IH True by (simp add: eq quote_char_def unquote_plain)
  next
    case False
    have b: "byte c div 16 < 16" "byte c mod 16 < 16" using byte_bound [of c] by auto
    have "16 * (byte c div 16) + byte c mod 16 = byte c" by simp
    then have "char_of (16 * (byte c div 16) + byte c mod 16) = c" by (simp only: char_of_byte)
    then show ?thesis
      using Cons.IH False b by (simp add: eq quote_char_def hex_value_upper hex_upper_alnum)
  qed
qed

end
