(* ===== verification/Http_Transport.thy ===== *)
theory Http_Transport
  imports Gateway_Models
begin

text \<open>
  \<^verbatim>\<open>infrastructure/httpx_client.py\<close>, and the state that the upstream clients share.

  A client is an operation on one state: the breakers, the turns of the load balancer, the clock, and the
  wire. The wire stands for the \<^verbatim>\<open>httpx.AsyncClient\<close> and for everything behind it. It keeps the log of what
  happened on it, and what it answers to a call is an arbitrary function of that log and of the call
  (\<open>ws_reply\<close>), so the theorems hold whatever the network does, including when it answers the same call
  differently the next time. A sleep ends, or the task is cancelled in it (\<open>ws_cancelled\<close>). Closing a response may
  fail as well (\<open>ws_closing\<close>), with an exception of httpx that nothing translates, or because the task is cancelled;
  a connection counts as given back once its close was called, however the call ended.
\<close>

section \<open>What the layers share\<close>

datatype circuit_state = CLOSED | OPEN | HALF_OPEN

record breaker =
  br_threshold :: int
  br_recovery :: int
  br_state :: circuit_state
  br_failures :: int
  br_opened_at :: int
  br_probe :: bool

text \<open>The exceptions of httpx that the code tells apart; what is not a \<^verbatim>\<open>TransportError\<close> is not translated.\<close>

datatype http_failure =
    ConnectTimeout | PoolTimeout | ReadTimeout | WriteTimeout
  | ConnectError | OtherTransportError
  | Cancelled | OtherFailure string

record http_timeout =
  ht_connect :: int
  ht_read :: int
  ht_write :: int
  ht_pool :: int

record http_call =
  hc_method :: string
  hc_url :: string
  hc_params :: headers
  hc_headers :: headers
  hc_content :: string
  hc_timeout :: http_timeout
  hc_stream :: bool

record http_response =
  hr_status :: int
  hr_headers :: headers
  hr_content :: string

datatype wire_event = Sent http_call "http_failure + http_response" | Closed nat | Slept int

record client_state =
  cs_breakers :: "(string, breaker) dict"
  cs_turns :: "(string, nat) dict"
  cs_clock :: "nat \<Rightarrow> int"
  cs_tick :: nat
  ws_log :: "wire_event list"
  ws_reply :: "wire_event list \<Rightarrow> http_call \<Rightarrow> http_failure + http_response"
  ws_cancelled :: "wire_event list \<Rightarrow> bool"
  ws_closing :: "wire_event list \<Rightarrow> http_failure option"

type_synonym 's client = "outbound_request \<Rightarrow> ('s client_state_scheme, exn, upstream_outcome) gw"

definition read_clock :: "('s client_state_scheme, exn, int) gw" where
  "read_clock = (\<lambda>s. (Inr (cs_clock s (cs_tick s)), s\<lparr>cs_tick := cs_tick s + 1\<rparr>))"

section \<open>The wire\<close>

text \<open>One exchange. The number of events before it names the connection a streamed response keeps open.\<close>

definition exchange :: "http_call \<Rightarrow> ('s client_state_scheme, http_failure, nat \<times> http_response) gw" where
  "exchange c = (\<lambda>s.
     let reply = ws_reply s (ws_log s) c;
         s' = s\<lparr>ws_log := ws_log s @ [Sent c reply]\<rparr>
     in case reply of Inl f \<Rightarrow> (Inl f, s') | Inr resp \<Rightarrow> (Inr (length (ws_log s), resp), s'))"

text \<open>An exception of httpx that no \<^verbatim>\<open>except\<close> of the gateway meets: it is none of the gateway's own.\<close>

fun untranslated :: "http_failure \<Rightarrow> exn" where
  "untranslated Cancelled = CancelledError"
| "untranslated (OtherFailure what) = OtherException what"
| "untranslated ConnectTimeout = OtherException ''ConnectTimeout''"
| "untranslated PoolTimeout = OtherException ''PoolTimeout''"
| "untranslated ReadTimeout = OtherException ''ReadTimeout''"
| "untranslated WriteTimeout = OtherException ''WriteTimeout''"
| "untranslated ConnectError = OtherException ''ConnectError''"
| "untranslated OtherTransportError = OtherException ''TransportError''"

lemma untranslated_is_foreign [simp]: "\<not> is_gateway_error (untranslated f)" "\<not> is_upstream_error (untranslated f)" "untranslated f \<noteq> GeneratorExit"
  by (cases f; simp)+

definition close_connection :: "nat \<Rightarrow> ('s client_state_scheme, exn, unit) gw" where
  "close_connection n = (\<lambda>s.
     (case ws_closing s (ws_log s) of None \<Rightarrow> Inr () | Some f \<Rightarrow> Inl (untranslated f), s\<lparr>ws_log := ws_log s @ [Closed n]\<rparr>))"

definition sleep :: "int \<Rightarrow> ('s client_state_scheme, exn, unit) gw" where
  "sleep d = (\<lambda>s.
     (if ws_cancelled s (ws_log s) then Inl CancelledError else Inr (), s\<lparr>ws_log := ws_log s @ [Slept d]\<rparr>))"

text \<open>\<^verbatim>\<open>aclose\<close> of a response or of a stream: a buffered body owns no connection.\<close>

definition aclose :: "upstream_outcome \<Rightarrow> ('s client_state_scheme, exn, unit) gw" where
  "aclose u = (case uo_connection u of None \<Rightarrow> return_gw () | Some n \<Rightarrow> close_connection n)"

section \<open>The httpx client\<close>

definition timeout_of :: "outbound_request \<Rightarrow> http_timeout" where
  "timeout_of r =
     (let service = ob_service r
      in \<lparr>ht_connect = sd_timeout service, ht_read = read_timeout service,
          ht_write = sd_timeout service, ht_pool = sd_timeout service\<rparr>)"

fun as_domain_error :: "outbound_request \<Rightarrow> http_failure \<Rightarrow> exn" where
  "as_domain_error r ConnectTimeout = UpstreamTimeoutError (sd_name (ob_service r)) False"
| "as_domain_error r PoolTimeout = UpstreamTimeoutError (sd_name (ob_service r)) False"
| "as_domain_error r ReadTimeout = UpstreamTimeoutError (sd_name (ob_service r)) True"
| "as_domain_error r WriteTimeout = UpstreamTimeoutError (sd_name (ob_service r)) True"
| "as_domain_error r ConnectError = UpstreamConnectionError (sd_name (ob_service r)) False"
| "as_domain_error r OtherTransportError = UpstreamConnectionError (sd_name (ob_service r)) True"
| "as_domain_error r Cancelled = CancelledError"
| "as_domain_error r (OtherFailure what) = OtherException what"

definition http_call_of :: "bool \<Rightarrow> outbound_request \<Rightarrow> string \<Rightarrow> http_call" where
  "http_call_of streamed r u =
     \<lparr>hc_method = ob_method r, hc_url = u, hc_params = ob_query_params r, hc_headers = ob_headers r,
      hc_content = ob_body r, hc_timeout = timeout_of r, hc_stream = streamed\<rparr>"

definition httpx_send :: "'s client" where
  "httpx_send r =
     bind_gw (lift_gw (url r)) (\<lambda>u. \<lambda>s.
       case exchange (http_call_of False r u) s of
         (Inl f, s') \<Rightarrow> (Inl (as_domain_error r f), s')
       | (Inr (_, resp), s') \<Rightarrow>
           (Inr \<lparr>uo_status = hr_status resp, uo_headers = hr_headers resp, uo_body = hr_content resp,
                 uo_connection = None, uo_instance_id = None\<rparr>, s'))"

definition httpx_stream :: "'s client" where
  "httpx_stream r =
     bind_gw (lift_gw (url r)) (\<lambda>u. \<lambda>s.
       case exchange (http_call_of True r u) s of
         (Inl f, s') \<Rightarrow> (Inl (as_domain_error r f), s')
       | (Inr (n, resp), s') \<Rightarrow>
           (Inr \<lparr>uo_status = hr_status resp, uo_headers = hr_headers resp, uo_body = hr_content resp,
                 uo_connection = Some n, uo_instance_id = None\<rparr>, s'))"

text \<open>The body of a stream: the chunks that arrive, and then its end or the failure that cut it.\<close>

definition translated_chunks :: "outbound_request \<Rightarrow> string list \<times> http_failure option \<Rightarrow> string list \<times> exn option" where
  "translated_chunks r = (\<lambda>(chunks, failure). (chunks, map_option (as_domain_error r) failure))"

section \<open>Facts\<close>

text \<open>A call was delivered unless the failure says that not a byte of it left.\<close>

fun delivered_event :: "wire_event \<Rightarrow> bool" where
  "delivered_event (Sent c (Inl f)) \<longleftrightarrow> f \<notin> {ConnectTimeout, PoolTimeout, ConnectError}"
| "delivered_event (Sent c (Inr resp)) \<longleftrightarrow> True"
| "delivered_event _ \<longleftrightarrow> False"

fun is_sent :: "wire_event \<Rightarrow> bool" where
  "is_sent (Sent _ _) = True"
| "is_sent _ = False"

definition deliveries :: "wire_event list \<Rightarrow> nat" where
  "deliveries evs = length (filter delivered_event evs)"

definition calls :: "wire_event list \<Rightarrow> nat" where
  "calls evs = length (filter is_sent evs)"

lemma deliveries_append [simp]: "deliveries (xs @ ys) = deliveries xs + deliveries ys"
  by (simp add: deliveries_def)

lemma calls_append [simp]: "calls (xs @ ys) = calls xs + calls ys"
  by (simp add: calls_def)

lemma deliveries_simps [simp]:
  "deliveries [] = 0" "deliveries (Slept d # evs) = deliveries evs" "deliveries (Closed n # evs) = deliveries evs"
  "deliveries (Sent c (Inr resp) # evs) = Suc (deliveries evs)"
  by (simp_all add: deliveries_def)

lemma calls_simps [simp]:
  "calls [] = 0" "calls (Slept d # evs) = calls evs" "calls (Closed n # evs) = calls evs" "calls (Sent c x # evs) = Suc (calls evs)"
  by (simp_all add: calls_def)

end
