(* ===== verification/Circuit_Breaker.thy ===== *)
theory Circuit_Breaker
  imports Http_Transport
begin

text \<open>
  \<^verbatim>\<open>infrastructure/resilience/circuit_breaker.py\<close>.

  A layer is a function from clients to clients (\<open>Http_Transport\<close> has the state they share). While a call is awaited other requests run and may move the same
  breaker, so after the call the breaker is read again: the call is an arbitrary operation on the whole
  state, which covers every interleaving of the others with it.
\<close>

definition new_breaker :: "int \<Rightarrow> int \<Rightarrow> exn + breaker" where
  "new_breaker failure_threshold recovery_timeout =
     (if failure_threshold < 1 then Inl (ValueError ''failure_threshold must be at least 1'')
      else if recovery_timeout \<le> 0 then Inl (ValueError ''recovery_timeout_seconds must be positive'')
      else Inr \<lparr>br_threshold = failure_threshold, br_recovery = recovery_timeout, br_state = CLOSED,
             br_failures = 0, br_opened_at = 0, br_probe = False\<rparr>)"

definition try_acquire :: "int \<Rightarrow> breaker \<Rightarrow> bool \<times> breaker" where
  "try_acquire now b =
     (if br_state b = OPEN \<and> now - br_opened_at b < br_recovery b then (False, b)
      else
        let b1 = (if br_state b = OPEN then b\<lparr>br_state := HALF_OPEN\<rparr> else b)
        in if br_state b1 = HALF_OPEN then
             (if br_probe b1 then (False, b1) else (True, b1\<lparr>br_probe := True\<rparr>))
           else (True, b1))"

definition on_success :: "breaker \<Rightarrow> breaker" where
  "on_success b =
     (let b1 = (if br_state b = HALF_OPEN then b\<lparr>br_state := CLOSED, br_probe := False\<rparr> else b)
      in b1\<lparr>br_failures := 0\<rparr>)"

definition trip :: "int \<Rightarrow> breaker \<Rightarrow> breaker" where
  "trip now b = b\<lparr>br_state := OPEN, br_opened_at := now, br_failures := 0, br_probe := False\<rparr>"

definition on_failure :: "int \<Rightarrow> breaker \<Rightarrow> breaker" where
  "on_failure now b =
     (if br_state b = HALF_OPEN then trip now b
      else if br_state b = CLOSED then
        (let b1 = b\<lparr>br_failures := br_failures b + 1\<rparr>
         in if br_threshold b1 \<le> br_failures b1 then trip now b1 else b1)
      else b)"

definition on_abort :: "breaker \<Rightarrow> breaker" where
  "on_abort b = b\<lparr>br_probe := False\<rparr>"

section \<open>The guarded client\<close>

definition breaker_for :: "exn + breaker \<Rightarrow> string \<Rightarrow> ('s client_state_scheme, exn, breaker) gw" where
  "breaker_for factory t = (\<lambda>s.
     case map_of (cs_breakers s) t of
       Some b \<Rightarrow> (Inr b, s)
     | None \<Rightarrow>
         (case factory of
            Inl e \<Rightarrow> (Inl e, s)
          | Inr b \<Rightarrow> (Inr b, s\<lparr>cs_breakers := dict_set t b (cs_breakers s)\<rparr>)))"

text \<open>A change of the breaker a call already holds.\<close>

definition update_breaker :: "string \<Rightarrow> (breaker \<Rightarrow> breaker) \<Rightarrow> ('s client_state_scheme, exn, unit) gw" where
  "update_breaker t f = modify_gw (\<lambda>s.
     case map_of (cs_breakers s) t of
       Some b \<Rightarrow> s\<lparr>cs_breakers := dict_set t (f b) (cs_breakers s)\<rparr>
     | None \<Rightarrow> s)"

definition acquire :: "exn + breaker \<Rightarrow> string \<Rightarrow> ('s client_state_scheme, exn, bool) gw" where
  "acquire factory t =
     bind_gw (breaker_for factory t) (\<lambda>b.
     bind_gw read_clock (\<lambda>now.
     then_gw (update_breaker t (\<lambda>_. snd (try_acquire now b))) (return_gw (fst (try_acquire now b)))))"

definition failure_verdict :: "string \<Rightarrow> ('s client_state_scheme, exn, unit) gw" where
  "failure_verdict t = bind_gw read_clock (\<lambda>now. update_breaker t (on_failure now))"

definition guarded :: "exn + breaker \<Rightarrow> int set \<Rightarrow> 's client \<Rightarrow> 's client" where
  "guarded factory failure_status_codes call r =
     bind_gw (acquire factory (target r)) (\<lambda>ok.
       if \<not> ok then raise_gw (CircuitOpenError (sd_name (ob_service r)))
       else
         bind_gw
           (catch_gw (call r)
              (\<lambda>e. if is_upstream_error e then then_gw (failure_verdict (target r)) (raise_gw e)
                   else then_gw (update_breaker (target r) on_abort) (raise_gw e)))
           (\<lambda>outcome.
              then_gw
                (if uo_status outcome \<in> failure_status_codes then failure_verdict (target r)
                 else update_breaker (target r) on_success)
                (return_gw outcome)))"

definition state_of :: "exn + breaker \<Rightarrow> string \<Rightarrow> ('s client_state_scheme, exn, circuit_state) gw" where
  "state_of factory t = bind_gw (breaker_for factory t) (\<lambda>b. return_gw (br_state b))"

section \<open>The invariant of a breaker\<close>

definition breaker_ok :: "breaker \<Rightarrow> bool" where
  "breaker_ok b \<longleftrightarrow> 1 \<le> br_threshold b \<and> 0 < br_recovery b \<and> 0 \<le> br_failures b \<and> br_failures b < br_threshold b
     \<and> (br_state b \<noteq> CLOSED \<longrightarrow> br_failures b = 0) \<and> (br_probe b \<longrightarrow> br_state b = HALF_OPEN)"

lemma new_breaker_ok: "new_breaker n t = Inr b \<Longrightarrow> breaker_ok b"
  by (auto simp: new_breaker_def breaker_ok_def split: if_splits)

lemma try_acquire_ok: "breaker_ok b \<Longrightarrow> breaker_ok (snd (try_acquire now b))"
  by (auto simp: try_acquire_def breaker_ok_def Let_def)

lemma on_success_ok: "breaker_ok b \<Longrightarrow> breaker_ok (on_success b)"
  by (auto simp: on_success_def breaker_ok_def Let_def)

lemma on_failure_ok: "breaker_ok b \<Longrightarrow> breaker_ok (on_failure now b)"
  by (auto simp: on_failure_def trip_def breaker_ok_def Let_def)

lemma on_abort_ok: "breaker_ok b \<Longrightarrow> breaker_ok (on_abort b)"
  by (auto simp: on_abort_def breaker_ok_def)

lemmas breaker_ops_ok = try_acquire_ok on_success_ok on_failure_ok on_abort_ok

section \<open>When it opens\<close>

text \<open>The verdicts of calls, in the order they arrive: \<open>True\<close> is a success.\<close>

definition verdict :: "int \<times> bool \<Rightarrow> breaker \<Rightarrow> breaker" where
  "verdict = (\<lambda>(now, good) b. if good then on_success b else on_failure now b)"

definition closed_after :: "breaker \<Rightarrow> (int \<times> bool) list \<Rightarrow> bool" where
  "closed_after b vs \<longleftrightarrow> br_state (fold verdict vs b) = CLOSED"

definition failure_run :: "nat \<Rightarrow> (int \<times> bool) list \<Rightarrow> bool" where
  "failure_run n vs \<longleftrightarrow> (\<exists>pre run post. vs = pre @ run @ post \<and> length run = n \<and> (\<forall>v \<in> set run. \<not> snd v))"

definition trailing_failures :: "(int \<times> bool) list \<Rightarrow> nat" where
  "trailing_failures vs = length (takeWhile (\<lambda>v. \<not> snd v) (rev vs))"

lemma trailing_snoc: "trailing_failures (vs @ [v]) = (if snd v then 0 else Suc (trailing_failures vs))"
  by (simp add: trailing_failures_def)

lemma failure_run_snoc:
  assumes "0 < n"
  shows "failure_run n (vs @ [v]) \<longleftrightarrow> failure_run n vs \<or> n \<le> trailing_failures (vs @ [v])"
proof
  assume "failure_run n (vs @ [v])"
  then obtain pre run post where r: "vs @ [v] = pre @ run @ post" "length run = n" "\<forall>x \<in> set run. \<not> snd x"
    by (auto simp: failure_run_def)
  show "failure_run n vs \<or> n \<le> trailing_failures (vs @ [v])"
  proof (cases post rule: rev_cases)
    case Nil
    then have "rev (vs @ [v]) = rev run @ rev pre" using r(1) by simp
    then have "trailing_failures (vs @ [v]) = length run + length (takeWhile (\<lambda>v. \<not> snd v) (rev pre))"
      using r(3) takeWhile_append2 [of "rev run" "\<lambda>v. \<not> snd v" "rev pre"] by (simp add: trailing_failures_def)
    with r(2) show ?thesis by simp
  next
    case (snoc ys y)
    with r(1) have "vs = pre @ run @ ys" by simp
    with r(2,3) show ?thesis by (auto simp: failure_run_def)
  qed
next
  assume "failure_run n vs \<or> n \<le> trailing_failures (vs @ [v])"
  then show "failure_run n (vs @ [v])"
  proof
    assume "failure_run n vs"
    then show ?thesis unfolding failure_run_def by (metis append.assoc)
  next
    let ?t = "takeWhile (\<lambda>v. \<not> snd v) (rev (vs @ [v]))" and ?d = "dropWhile (\<lambda>v. \<not> snd v) (rev (vs @ [v]))"
    assume "n \<le> trailing_failures (vs @ [v])"
    then have n: "n \<le> length ?t" by (simp add: trailing_failures_def)
    have "vs @ [v] = rev ?d @ rev ?t" by (metis rev_append rev_rev_ident takeWhile_dropWhile_id)
    also have "rev ?t = rev (drop n ?t) @ rev (take n ?t)" by (metis append_take_drop_id rev_append)
    finally have "vs @ [v] = (rev ?d @ rev (drop n ?t)) @ rev (take n ?t) @ []" by simp
    moreover have "length (rev (take n ?t)) = n" using n by simp
    moreover have "\<forall>x \<in> set (rev (take n ?t)). \<not> snd x" by (auto dest!: in_set_takeD set_takeWhileD)
    ultimately show ?thesis unfolding failure_run_def by blast
  qed
qed

lemma verdicts:
  assumes "br_state b = CLOSED" "br_failures b = 0" "breaker_ok b"
  shows "br_threshold (fold verdict vs b) = br_threshold b
     \<and> (if failure_run (nat (br_threshold b)) vs then br_state (fold verdict vs b) = OPEN
        else br_state (fold verdict vs b) = CLOSED \<and> br_failures (fold verdict vs b) = int (trailing_failures vs))"
proof (induction vs rule: rev_induct)
  case Nil
  have "\<not> failure_run (nat (br_threshold b)) []" using assms(3) by (auto simp: failure_run_def breaker_ok_def)
  with assms show ?case by (simp add: trailing_failures_def)
next
  case (snoc v vs)
  obtain now good where v: "v = (now, good)" by fastforce
  have n: "0 < nat (br_threshold b)" using assms(3) by (simp add: breaker_ok_def)
  have run: "failure_run (nat (br_threshold b)) (vs @ [v]) \<longleftrightarrow>
      failure_run (nat (br_threshold b)) vs \<or> (\<not> good \<and> nat (br_threshold b) \<le> Suc (trailing_failures vs))"
    using failure_run_snoc [OF n, of vs v] n by (auto simp: trailing_snoc v)
  show ?case
  proof (cases "failure_run (nat (br_threshold b)) vs")
    case True
    with snoc.IH run show ?thesis by (auto simp: v verdict_def on_success_def on_failure_def Let_def)
  next
    case False
    with snoc.IH have ih: "br_threshold (fold verdict vs b) = br_threshold b" "br_state (fold verdict vs b) = CLOSED"
        "br_failures (fold verdict vs b) = int (trailing_failures vs)" by auto
    with False run show ?thesis
      by (auto simp: v verdict_def on_success_def on_failure_def trip_def Let_def trailing_snoc nat_le_iff)
  qed
qed

text \<open>C39. A closed breaker opens exactly when \<^verbatim>\<open>failure_threshold\<close> calls in a row fail: it is still closed after a
  sequence of verdicts if and only if the sequence has no such run of failures, and a success anywhere
  in between starts the count again.\<close>

theorem opens_exactly_on_consecutive_failures:
  assumes "new_breaker threshold recovery = Inr b"
  shows "closed_after b verdicts \<longleftrightarrow> \<not> failure_run (nat threshold) verdicts"
proof -
  have "br_state b = CLOSED" "br_failures b = 0" "br_threshold b = threshold"
    using assms by (auto simp: new_breaker_def split: if_splits)
  with verdicts [of b verdicts] new_breaker_ok [OF assms] show ?thesis by (simp add: closed_after_def split: if_splits)
qed

theorem opens_exactly_on_consecutive_failures_witness:
  "\<exists>b. new_breaker 2 30 = Inr b \<and> closed_after b [(1, False), (2, True), (3, False)]
     \<and> \<not> failure_run (nat 2) [(1, False), (2, True), (3, False)]"
proof -
  obtain b where b: "new_breaker 2 30 = Inr b" by (simp add: new_breaker_def)
  then have "closed_after b [(1, False), (2, True), (3, False)]"
    by (auto simp: new_breaker_def closed_after_def verdict_def on_success_def on_failure_def Let_def)
  with opens_exactly_on_consecutive_failures [OF b] b show ?thesis by blast
qed

text \<open>An open breaker lets nothing through before the recovery time; after it, it lets one call through, the
  probe, and refuses every other until the probe's verdict: a success closes it, a failure opens it again
  from that moment.\<close>

theorem half_open_admits_one_probe:
  assumes "breaker_ok b" "br_state b = OPEN"
  shows "(now - br_opened_at b < br_recovery b \<longrightarrow> try_acquire now b = (False, b))
     \<and> (\<not> now - br_opened_at b < br_recovery b \<longrightarrow>
          (\<exists>p. try_acquire now b = (True, p) \<and> br_state p = HALF_OPEN
            \<and> (\<forall>later. try_acquire later p = (False, p))
            \<and> br_state (on_success p) = CLOSED \<and> fst (try_acquire later (on_success p))
            \<and> br_state (on_failure t p) = OPEN \<and> br_opened_at (on_failure t p) = t))"
  using assms
  by (auto simp: breaker_ok_def try_acquire_def on_success_def on_failure_def trip_def Let_def)

definition open_breaker :: breaker where
  "open_breaker = \<lparr>br_threshold = 1, br_recovery = 30, br_state = OPEN, br_failures = 0, br_opened_at = 100, br_probe = False\<rparr>"

theorem half_open_admits_one_probe_witness:
  "try_acquire 110 open_breaker = (False, open_breaker) \<and> (\<exists>p. try_acquire 130 open_breaker = (True, p) \<and> br_state p = HALF_OPEN)"
proof -
  have "breaker_ok open_breaker" "br_state open_breaker = OPEN" "br_opened_at open_breaker = 100" "br_recovery open_breaker = 30"
    by (simp_all add: open_breaker_def breaker_ok_def)
  then show ?thesis
    using half_open_admits_one_probe [of open_breaker 110 0 0] half_open_admits_one_probe [of open_breaker 130 0 0] by auto
qed

text \<open>Two probes can be in flight at once. A call that was let through before the breaker opened, and is
  cancelled after the probe started, frees the probe's slot: \<^verbatim>\<open>on_abort\<close> does not ask whose slot it is, so the
  next call is let through too while the probe is still out.\<close>

theorem abort_of_another_call_frees_the_probe:
  "\<exists>closed opened probing freed.
     new_breaker 1 30 = Inr closed \<and> fst (try_acquire 0 closed)
     \<and> opened = on_failure 5 closed \<and> try_acquire 40 opened = (True, probing) \<and> br_state probing = HALF_OPEN
     \<and> freed = on_abort probing \<and> fst (try_acquire 41 freed) \<and> br_state freed = HALF_OPEN"
  by (simp add: new_breaker_def try_acquire_def on_failure_def trip_def on_abort_def Let_def)

end
