(* ===== verification/Header_Policy.thy ===== *)
theory Header_Policy
  imports Gateway_Models
begin

text \<open>
  \<^verbatim>\<open>application/header_policy.py\<close>: which headers cross the gateway in each direction. Names are compared in
  lower case and kept as they were written.
\<close>

definition HOP_BY_HOP_HEADERS :: "string list" where
  "HOP_BY_HOP_HEADERS = [''connection'', ''keep-alive'', ''proxy-authenticate'', ''proxy-authorization'', ''te'',
     ''trailer'', ''trailers'', ''transfer-encoding'', ''upgrade'']"

definition RECOMPUTED_REQUEST_HEADERS :: "string list" where
  "RECOMPUTED_REQUEST_HEADERS = [''host'', ''content-length'']"

definition FORWARDING_HEADERS :: "string list" where
  "FORWARDING_HEADERS = [''x-forwarded-for'', ''x-forwarded-proto'', ''x-forwarded-host'', ''x-request-id'']"

definition STALE_RESPONSE_HEADERS :: "string list" where
  "STALE_RESPONSE_HEADERS = [''content-encoding'', ''content-length'']"

definition connection_tokens :: "headers \<Rightarrow> string list" where
  "connection_tokens hs =
     [lower (strip token). (name, v) \<leftarrow> hs, lower name = ''connection'',
        token \<leftarrow> split_on (CHR '','') v, strip token \<noteq> []]"

text \<open>\<^verbatim>\<open>if inbound.host\<close>: neither \<^verbatim>\<open>None\<close> nor the empty text.\<close>

definition given :: "string option \<Rightarrow> string list" where
  "given x = (case x of None \<Rightarrow> [] | Some s \<Rightarrow> if s = [] then [] else [s])"

definition forwarding_headers :: "inbound_request \<Rightarrow> headers" where
  "forwarding_headers inbound =
     (let chain = [v. (name, v) \<leftarrow> in_headers inbound, lower name = ''x-forwarded-for'']
                  @ given (in_client_host inbound)
      in [(''x-forwarded-proto'', in_scheme inbound)]
         @ (if chain \<noteq> [] then [(''x-forwarded-for'', join '', '' chain)] else [])
         @ map (\<lambda>h. (''x-forwarded-host'', h)) (given (in_host inbound))
         @ map (\<lambda>r. (''x-request-id'', r)) (given (in_request_id inbound)))"

definition without :: "string list \<Rightarrow> headers \<Rightarrow> headers" where
  "without dropped hs = filter (\<lambda>(name, _). lower name \<notin> set dropped) hs"

definition for_upstream :: "inbound_request \<Rightarrow> headers \<Rightarrow> headers" where
  "for_upstream inbound service_headers =
     (let dropped = HOP_BY_HOP_HEADERS @ RECOMPUTED_REQUEST_HEADERS @ FORWARDING_HEADERS
            @ connection_tokens (in_headers inbound) @ map (\<lambda>(name, _). lower name) service_headers
      in without dropped (in_headers inbound) @ forwarding_headers inbound @ service_headers)"

definition for_client :: "headers \<Rightarrow> headers" where
  "for_client hs = without (HOP_BY_HOP_HEADERS @ STALE_RESPONSE_HEADERS @ connection_tokens hs) hs"

section \<open>Facts\<close>

text \<open>The values sent under a name, in any case.\<close>

definition values_of :: "string \<Rightarrow> headers \<Rightarrow> string list" where
  "values_of name hs = map snd (filter (\<lambda>(n, _). lower n = lower name) hs)"

lemma values_of_append [simp]: "values_of n (xs @ ys) = values_of n xs @ values_of n ys"
  by (simp add: values_of_def)

lemma values_of_without: "lower n \<in> set dropped \<Longrightarrow> values_of n (without dropped hs) = []"
  by (auto simp: values_of_def without_def filter_empty_conv)

lemma values_of_without_kept: "lower n \<notin> set dropped \<Longrightarrow> values_of n (without dropped hs) = values_of n hs"
  by (induction hs) (auto simp: values_of_def without_def)

lemma forwarding_names:
  "(n, v) \<in> set (forwarding_headers inbound) \<Longrightarrow> n \<in> set FORWARDING_HEADERS"
  by (auto simp: forwarding_headers_def FORWARDING_HEADERS_def given_def Let_def split: option.splits if_splits)

lemma forwarding_lower: "n \<in> set FORWARDING_HEADERS \<Longrightarrow> lower n = n"
proof -
  have "list_all (\<lambda>n. lower n = n) FORWARDING_HEADERS" by code_simp
  then show "n \<in> set FORWARDING_HEADERS \<Longrightarrow> lower n = n" by (simp add: list_all_iff)
qed

lemma values_of_forwarding_none:
  "lower n \<notin> set FORWARDING_HEADERS \<Longrightarrow> values_of n (forwarding_headers inbound) = []"
  unfolding values_of_def map_is_Nil_conv filter_empty_conv
  by (auto dest!: forwarding_names) (metis forwarding_lower)

lemma forwarding_values:
  "values_of ''x-forwarded-proto'' (forwarding_headers inbound) = [in_scheme inbound]"
  "values_of ''x-forwarded-host'' (forwarding_headers inbound) = given (in_host inbound)"
  "values_of ''x-request-id'' (forwarding_headers inbound) = given (in_request_id inbound)"
  "in_client_host inbound = Some h \<Longrightarrow> h \<noteq> [] \<Longrightarrow>
     values_of ''x-forwarded-for'' (forwarding_headers inbound) =
       [join '', '' (values_of ''x-forwarded-for'' (in_headers inbound) @ [h])]"
proof -
  have names: "lower ''x-forwarded-for'' = ''x-forwarded-for''" "lower ''x-forwarded-proto'' = ''x-forwarded-proto''"
      "lower ''x-forwarded-host'' = ''x-forwarded-host''" "lower ''x-request-id'' = ''x-request-id''"
    by code_simp+
  have chain: "[v. (name, v) \<leftarrow> hs, lower name = ''x-forwarded-for''] = values_of ''x-forwarded-for'' hs" for hs
    by (induction hs) (auto simp: values_of_def names)
  have pairs: "values_of n ((m, v) # hs) = (if lower m = lower n then [v] else []) @ values_of n hs"
      "values_of n [] = []" "values_of n (map (Pair m) vs) = (if lower m = lower n then vs else [])" for n m v hs vs
    by (simp_all add: values_of_def filter_map comp_def)
  show "values_of ''x-forwarded-proto'' (forwarding_headers inbound) = [in_scheme inbound]"
    "values_of ''x-forwarded-host'' (forwarding_headers inbound) = given (in_host inbound)"
    "values_of ''x-request-id'' (forwarding_headers inbound) = given (in_request_id inbound)"
    unfolding forwarding_headers_def Let_def chain by (simp_all add: pairs names)
  show "in_client_host inbound = Some h \<Longrightarrow> h \<noteq> [] \<Longrightarrow>
     values_of ''x-forwarded-for'' (forwarding_headers inbound) =
       [join '', '' (values_of ''x-forwarded-for'' (in_headers inbound) @ [h])]"
    unfolding forwarding_headers_def Let_def chain by (simp add: pairs names) (simp add: given_def)
qed

text \<open>A client can neither override nor add to a credential the gateway injects: under the name of a
  configured header (in any case, unless it is one of the four forwarding headers) the service receives
  the configured values and nothing else, whatever the client sent.\<close>

theorem service_credentials_cannot_be_overridden:
  assumes "lower n \<in> set (map (\<lambda>(name, _). lower name) service_headers)" "lower n \<notin> set FORWARDING_HEADERS"
  shows "values_of n (for_upstream inbound service_headers) = values_of n service_headers"
  using assms by (simp add: for_upstream_def Let_def values_of_without values_of_forwarding_none)

text \<open>A client cannot forge where a request came from: unless the service is configured with such a header,
  the scheme, host and request id the service reads are the ones the gateway saw, at most once each; the
  address chain ends with the address the connection came from.\<close>

theorem forwarding_headers_cannot_be_forged:
  assumes "set (map (\<lambda>(name, _). lower name) service_headers) \<inter> set FORWARDING_HEADERS = {}"
  shows "values_of ''x-forwarded-proto'' (for_upstream inbound service_headers) = [in_scheme inbound]
     \<and> values_of ''x-forwarded-host'' (for_upstream inbound service_headers) = given (in_host inbound)
     \<and> values_of ''x-request-id'' (for_upstream inbound service_headers) = given (in_request_id inbound)
     \<and> (\<forall>h. in_client_host inbound = Some h \<and> h \<noteq> [] \<longrightarrow>
          values_of ''x-forwarded-for'' (for_upstream inbound service_headers) =
            [join '', '' (values_of ''x-forwarded-for'' (in_headers inbound) @ [h])])"
proof -
  have low: "lower n = n" if "n \<in> set FORWARDING_HEADERS" for n using that by (rule forwarding_lower)
  have "values_of n (for_upstream inbound service_headers) = values_of n (forwarding_headers inbound)"
    if n: "n \<in> set FORWARDING_HEADERS" for n
  proof -
    have "values_of n service_headers = []"
      unfolding values_of_def map_is_Nil_conv filter_empty_conv
      using assms n low [OF n] by (auto simp: disjoint_iff)
    then show ?thesis using n low [OF n] by (simp add: for_upstream_def Let_def values_of_without)
  qed
  moreover have "''x-forwarded-proto'' \<in> set FORWARDING_HEADERS" "''x-forwarded-host'' \<in> set FORWARDING_HEADERS"
      "''x-request-id'' \<in> set FORWARDING_HEADERS" "''x-forwarded-for'' \<in> set FORWARDING_HEADERS"
    by (simp_all add: FORWARDING_HEADERS_def)
  ultimately show ?thesis using forwarding_values by simp
qed

definition sample_inbound :: inbound_request where
  "sample_inbound = \<lparr>in_method = ''POST'', in_path = ''/a'', in_headers = [(''X-Secret'', ''mine''),
     (''X-Forwarded-For'', ''1.1.1.1''), (''X-Forwarded-Proto'', ''gopher''), (''Accept'', ''*'')], in_query_params = [],
     in_body = [], in_client_host = Some ''2.2.2.2'', in_scheme = ''https'', in_host = None, in_request_id = Some ''r''\<rparr>"

theorem service_credentials_cannot_be_overridden_witness:
  "values_of ''x-secret'' (for_upstream sample_inbound [(''x-secret'', ''ours'')]) = [''ours'']"
proof -
  have "lower ''x-secret'' = ''x-secret''" by code_simp
  then show ?thesis
    using service_credentials_cannot_be_overridden [of "''x-secret''" "[(''x-secret'', ''ours'')]" sample_inbound]
    by (simp add: values_of_def FORWARDING_HEADERS_def)
qed

theorem forwarding_headers_cannot_be_forged_witness:
  "values_of ''x-forwarded-proto'' (for_upstream sample_inbound []) = [''https'']
   \<and> values_of ''x-forwarded-for'' (for_upstream sample_inbound []) = [''1.1.1.1, 2.2.2.2'']"
proof -
  have "join '', '' (values_of ''x-forwarded-for'' (in_headers sample_inbound) @ [''2.2.2.2'']) = ''1.1.1.1, 2.2.2.2''"
    by code_simp
  then show ?thesis
    using forwarding_headers_cannot_be_forged [of "[]" sample_inbound] by (simp add: sample_inbound_def)
qed

text \<open>Nothing that belongs to one connection crosses the gateway, in either direction: no hop-by-hop header
  and no header the peer named in \<^verbatim>\<open>Connection\<close> reaches the other side, unless the service is configured
  with it; every other response header reaches the client with all its values, in order.\<close>

theorem hop_by_hop_headers_stop_here:
  "(\<forall>n. lower n \<in> set (HOP_BY_HOP_HEADERS @ connection_tokens (in_headers inbound)) - set FORWARDING_HEADERS
        \<and> lower n \<notin> set (map (\<lambda>(name, _). lower name) service_headers) \<longrightarrow>
      values_of n (for_upstream inbound service_headers) = [])
   \<and> (\<forall>n. lower n \<in> set (HOP_BY_HOP_HEADERS @ connection_tokens hs) \<longrightarrow> values_of n (for_client hs) = [])
   \<and> (\<forall>n. lower n \<notin> set (HOP_BY_HOP_HEADERS @ STALE_RESPONSE_HEADERS @ connection_tokens hs) \<longrightarrow>
      values_of n (for_client hs) = values_of n hs)"
proof -
  have none: "lower n \<notin> set (map (\<lambda>(name, _). lower name) service_headers) \<Longrightarrow> values_of n service_headers = []" for n
    unfolding values_of_def map_is_Nil_conv filter_empty_conv by force
  show ?thesis
    by (auto simp: for_upstream_def for_client_def Let_def values_of_without values_of_without_kept
        values_of_forwarding_none none)
qed

theorem hop_by_hop_headers_stop_here_witness:
  "values_of ''TE'' (for_client [(''TE'', ''x''), (''Connection'', ''X-Hop''), (''x-hop'', ''1'')]) = []
   \<and> values_of ''x-hop'' (for_client [(''TE'', ''x''), (''Connection'', ''X-Hop''), (''x-hop'', ''1'')]) = []"
proof -
  let ?hs = "[(''TE'', ''x''), (''Connection'', ''X-Hop''), (''x-hop'', ''1'')]"
  have "strip ''X-Hop'' = ''X-Hop''" by (rule strip_visible) (simp_all add: byte_def)
  moreover have "lower ''TE'' = ''te''" "lower ''X-Hop'' = ''x-hop''" "lower ''x-hop'' = ''x-hop''"
      "lower ''Connection'' = ''connection''" by code_simp+
  ultimately have "lower ''TE'' \<in> set (HOP_BY_HOP_HEADERS @ connection_tokens ?hs)"
      "lower ''x-hop'' \<in> set (HOP_BY_HOP_HEADERS @ connection_tokens ?hs)"
    by (simp_all add: HOP_BY_HOP_HEADERS_def connection_tokens_def)
  then show ?thesis using hop_by_hop_headers_stop_here [of sample_inbound "[]" ?hs] by blast
qed

end
