(* ===== verification/Retry.thy ===== *)
theory Retry
  imports Http_Transport
begin

text \<open>
  \<^verbatim>\<open>infrastructure/resilience/retry.py\<close>.

  Delays are floats in the source, and the only arithmetic on them is a multiplication by a power of two
  and a minimum. Both are exact, so a delay is an integer here: a number of the smallest units a float
  has. \<^verbatim>\<open>2.0 ** n\<close> overflows from 1024 on.
\<close>

record retry_policy =
  rp_max_attempts :: int
  rp_base_delay :: int
  rp_max_delay :: int
  rp_retry_on_status :: "int set"

definition new_retry_policy :: "int \<Rightarrow> int \<Rightarrow> int \<Rightarrow> int set \<Rightarrow> exn + retry_policy" where
  "new_retry_policy max_attempts base_delay max_delay retry_on =
     (if max_attempts < 1 then Inl (ValueError ''max_attempts must be at least 1'')
      else if base_delay < 0 \<or> max_delay < 0 then Inl (ValueError ''delays cannot be negative'')
      else Inr \<lparr>rp_max_attempts = max_attempts, rp_base_delay = base_delay, rp_max_delay = max_delay,
             rp_retry_on_status = retry_on\<rparr>)"

definition delay_for :: "retry_policy \<Rightarrow> int \<Rightarrow> exn + int" where
  "delay_for p attempt =
     (if 1024 \<le> attempt - 1 then Inl OverflowError
      else Inr (min (rp_base_delay p * 2 ^ nat (attempt - 1)) (rp_max_delay p)))"

definition should_retry_status :: "retry_policy \<Rightarrow> int \<Rightarrow> bool" where
  "should_retry_status p status_code \<longleftrightarrow> status_code \<in> rp_retry_on_status p"

text \<open>\<^verbatim>\<open>except _RETRYABLE_ERRORS\<close>.\<close>

fun is_retryable :: "exn \<Rightarrow> bool" where
  "is_retryable (UpstreamConnectionError _ _) = True"
| "is_retryable (UpstreamTimeoutError _ _) = True"
| "is_retryable _ = False"

text \<open>What happens between two attempts: the delay, the log line, which prints the URL and so raises when
  the request has none, and the wait.\<close>

definition back_off :: "retry_policy \<Rightarrow> outbound_request \<Rightarrow> int \<Rightarrow> ('s client_state_scheme, exn, unit) gw" where
  "back_off p r attempt =
     bind_gw (lift_gw (delay_for p attempt)) (\<lambda>delay. bind_gw (lift_gw (url r)) (\<lambda>_. sleep delay))"

function attempts ::
  "retry_policy \<Rightarrow> 's client \<Rightarrow> outbound_request \<Rightarrow> int \<Rightarrow> 's client_state_scheme \<Rightarrow> (exn + upstream_outcome) \<times> 's client_state_scheme" where
  "attempts p call r attempt s =
     (case call r s of
        (Inl e, s1) \<Rightarrow>
          if \<not> is_retryable e \<or> rp_max_attempts p \<le> attempt then (Inl e, s1)
          else (case back_off p r attempt s1 of
                  (Inl e2, s2) \<Rightarrow> (Inl e2, s2)
                | (Inr _, s2) \<Rightarrow> attempts p call r (attempt + 1) s2)
      | (Inr outcome, s1) \<Rightarrow>
          if rp_max_attempts p \<le> attempt \<or> \<not> should_retry_status p (uo_status outcome) then (Inr outcome, s1)
          else (case then_gw (aclose outcome) (back_off p r attempt) s1 of
                  (Inl e2, s2) \<Rightarrow> (Inl e2, s2)
                | (Inr _, s2) \<Rightarrow> attempts p call r (attempt + 1) s2))"
  by pat_completeness auto
termination
  by (relation "measure (\<lambda>(p, call, r, attempt, s). nat (rp_max_attempts p - attempt))") auto

declare attempts.simps [simp del]

definition retrying :: "retry_policy \<Rightarrow> 's client \<Rightarrow> 's client" where
  "retrying p call r = (\<lambda>s. if \<not> is_idempotent r then call r s else attempts p call r 1 s)"

end
