(* ===== verification/Load_Balancer.thy ===== *)
theory Load_Balancer
  imports Http_Transport
begin

text \<open>
  \<^verbatim>\<open>infrastructure/resilience/load_balancer.py\<close>: the turns of each service, the failover from one instance to
  the next, and which failures allow it.
\<close>

definition send_to :: "service_instance \<Rightarrow> outbound_request \<Rightarrow> 's client \<Rightarrow> ('s client_state_scheme, exn, upstream_outcome) gw" where
  "send_to i r call =
     bind_gw (call (r\<lparr>ob_instance := Some i\<rparr>)) (\<lambda>outcome. return_gw (outcome\<lparr>uo_instance_id := Some (si_id i)\<rparr>))"

text \<open>\<^verbatim>\<open>% len(instances)\<close> raises when there is none; \<open>new_service\<close> rules that out.\<close>

definition rotation :: "service_definition \<Rightarrow> ('s client_state_scheme, exn, service_instance list) gw" where
  "rotation service = (\<lambda>s.
     let instances = sd_instances service;
         start = (case map_of (cs_turns s) (sd_name service) of None \<Rightarrow> 0 | Some n \<Rightarrow> n)
     in if instances = [] then (Inl (OtherException ''ZeroDivisionError''), s)
        else (Inr (drop start instances @ take start instances),
              s\<lparr>cs_turns := dict_set (sd_name service) ((start + 1) mod length instances) (cs_turns s)\<rparr>))"

definition can_fail_over :: "outbound_request \<Rightarrow> exn \<Rightarrow> bool" where
  "can_fail_over r e \<longleftrightarrow> is_idempotent r \<or> \<not> request_sent e"

fun is_circuit_open :: "exn \<Rightarrow> bool" where
  "is_circuit_open (CircuitOpenError _) = True"
| "is_circuit_open _ = False"

text \<open>\<^verbatim>\<open>raise (tried or errors)[-1]\<close>.\<close>

definition last_error :: "exn list \<Rightarrow> exn" where
  "last_error errors =
     (let tried = filter is_upstream_error errors
      in if tried \<noteq> [] then last tried else if errors \<noteq> [] then last errors else OtherException ''IndexError'')"

fun try_instances ::
  "'s client \<Rightarrow> outbound_request \<Rightarrow> exn list \<Rightarrow> service_instance list \<Rightarrow> ('s client_state_scheme, exn, upstream_outcome) gw" where
  "try_instances call r errors [] s = (Inl (last_error errors), s)"
| "try_instances call r errors (i # rest) s =
     (case send_to i r call s of
        (Inr outcome, s1) \<Rightarrow> (Inr outcome, s1)
      | (Inl e, s1) \<Rightarrow>
          if is_circuit_open e then try_instances call r (errors @ [e]) rest s1
          else if is_upstream_error e then
            (if \<not> can_fail_over r e then (Inl e, s1) else try_instances call r (errors @ [e]) rest s1)
          else (Inl e, s1))"

definition balanced :: "'s client \<Rightarrow> 's client" where
  "balanced call r =
     (case ob_instance r of
        Some i \<Rightarrow> send_to i r call
      | None \<Rightarrow> bind_gw (rotation (ob_service r)) (try_instances call r []))"

section \<open>Whose turn it is\<close>

definition turn :: "service_definition \<Rightarrow> 's client_state_scheme \<Rightarrow> nat" where
  "turn service s = (case map_of (cs_turns s) (sd_name service) of None \<Rightarrow> 0 | Some n \<Rightarrow> n)"

definition turn_ok :: "service_definition \<Rightarrow> 's client_state_scheme \<Rightarrow> bool" where
  "turn_ok service s \<longleftrightarrow> sd_instances service \<noteq> [] \<and> turn service s < length (sd_instances service)"

lemma rotation_rotates:
  assumes "turn_ok service s"
  shows "fst (rotation service s) = Inr (rotate (turn service s) (sd_instances service))"
    and "turn service (snd (rotation service s)) = Suc (turn service s) mod length (sd_instances service)"
    and "turn_ok service (snd (rotation service s))"
  using assms by (auto simp: rotation_def turn_def turn_ok_def Let_def rotate_drop_take dict_simps)

text \<open>The first instances of \<open>k\<close> requests in a row.\<close>

fun first_choices :: "nat \<Rightarrow> service_definition \<Rightarrow> 's client_state_scheme \<Rightarrow> service_instance list" where
  "first_choices 0 service s = []"
| "first_choices (Suc k) service s =
     (case rotation service s of
        (Inr is, s') \<Rightarrow> hd is # first_choices k service s'
      | (Inl e, s') \<Rightarrow> [])"

lemma first_choices_nth:
  "turn_ok service s \<Longrightarrow> first_choices k service s =
     map (\<lambda>j. sd_instances service ! ((turn service s + j) mod length (sd_instances service))) [0..<k]"
proof (induction k arbitrary: s)
  case 0
  then show ?case by simp
next
  case (Suc k)
  let ?n = "length (sd_instances service)"
  obtain s' where s': "rotation service s = (Inr (rotate (turn service s) (sd_instances service)), s')"
    using rotation_rotates(1) [OF Suc.prems] by (metis prod.collapse)
  then have t: "turn service s' = Suc (turn service s) mod ?n" "turn_ok service s'"
    using rotation_rotates(2,3) [OF Suc.prems] by simp_all
  have "(Suc (turn service s) mod ?n + j) mod ?n = (turn service s + Suc j) mod ?n" for j
    by (simp add: mod_add_left_eq)
  with t Suc.IH [OF t(2)] have "first_choices k service s' =
      map (\<lambda>j. sd_instances service ! ((turn service s + Suc j) mod ?n)) [0..<k]" by simp
  moreover have "hd (rotate (turn service s) (sd_instances service)) = sd_instances service ! ((turn service s + 0) mod ?n)"
    using Suc.prems by (simp add: turn_ok_def hd_rotate_conv_nth)
  ultimately show ?case using s' by (simp add: upt_conv_Cons map_Suc_upt [symmetric] del: upt_Suc)
qed


lemma first_choices_rotate:
  assumes "turn_ok service s"
  shows "first_choices (length (sd_instances service)) service s = rotate (turn service s) (sd_instances service)"
  unfolding first_choices_nth [OF assms] by (rule nth_equalityI) (simp_all add: nth_rotate)

text \<open>Every request walks the instances of its service in a circle, starting one further than the request
  before: the order is the list rotated by the turn, so no instance is left out and none is tried twice,
  and as many requests in a row as there are instances start once at each of them.\<close>

theorem rotation_is_round_robin:
  assumes "turn_ok service s"
  shows "\<exists>s'. rotation service s = (Inr (rotate (turn service s) (sd_instances service)), s')
     \<and> turn service s' = Suc (turn service s) mod length (sd_instances service) \<and> turn_ok service s'
     \<and> first_choices (length (sd_instances service)) service s = rotate (turn service s) (sd_instances service)"
  using rotation_rotates [OF assms] first_choices_rotate [OF assms] by (metis prod.collapse)

definition two_instances :: service_definition where
  "two_instances = \<lparr>sd_name = ''mirag'', sd_base_urls = [''http://a'', ''http://b''], sd_timeout = 5, sd_health_path = ''/health'',
     sd_read_timeout = None, sd_headers = [],
     sd_instances = [\<lparr>si_base_url = ''http://a'', si_id = ''a''\<rparr>, \<lparr>si_base_url = ''http://b'', si_id = ''b''\<rparr>]\<rparr>"

definition quiet_wire :: client_state where
  "quiet_wire = \<lparr>cs_breakers = [], cs_turns = [(''mirag'', 1)], cs_clock = (\<lambda>_. 0), cs_tick = 0, ws_log = [],
     ws_reply = (\<lambda>_ _. Inl ConnectError), ws_cancelled = (\<lambda>_. False), ws_closing = (\<lambda>_. None)\<rparr>"

theorem rotation_is_round_robin_witness:
  "turn_ok two_instances quiet_wire
   \<and> map si_id (first_choices 2 two_instances quiet_wire) = [''b'', ''a'']"
proof -
  have ok: "turn_ok two_instances quiet_wire"
    by (simp add: turn_ok_def turn_def two_instances_def quiet_wire_def)
  from rotation_is_round_robin [OF ok] have
    "first_choices (length (sd_instances two_instances)) two_instances quiet_wire
       = rotate (turn two_instances quiet_wire) (sd_instances two_instances)" by blast
  moreover have "length (sd_instances two_instances) = 2"
    and "map si_id (rotate (turn two_instances quiet_wire) (sd_instances two_instances)) = [''b'', ''a'']"
    by (simp_all add: turn_def two_instances_def quiet_wire_def)
  ultimately have "map si_id (first_choices 2 two_instances quiet_wire) = [''b'', ''a'']" by metis
  with ok show ?thesis by simp
qed

section \<open>Failover\<close>

text \<open>What an attempt at one instance may end with for the next one to be tried.\<close>

definition passes_on :: "outbound_request \<Rightarrow> exn \<Rightarrow> bool" where
  "passes_on r e \<longleftrightarrow> is_circuit_open e \<or> (is_upstream_error e \<and> can_fail_over r e)"

lemma try_instances_Cons:
  "try_instances call r errors (i # rest) s =
     (case send_to i r call s of
        (Inr outcome, s1) \<Rightarrow> (Inr outcome, s1)
      | (Inl e, s1) \<Rightarrow> if passes_on r e then try_instances call r (errors @ [e]) rest s1 else (Inl e, s1))"
  by (auto simp: passes_on_def split: prod.splits sum.splits)

declare try_instances.simps(2) [simp del]

text \<open>The walk along the instances: those before \<open>j\<close> were asked, one after the other, and failed in a way that passes the
  request on; \<open>s'\<close> is the state they left.\<close>

inductive passed_over :: "'s client \<Rightarrow> outbound_request \<Rightarrow> service_instance list \<Rightarrow> 's client_state_scheme \<Rightarrow> 's client_state_scheme \<Rightarrow> bool"
  for call r where
  nobody: "passed_over call r [] s s"
| another: "call (r\<lparr>ob_instance := Some i\<rparr>) s = (Inl e, s1) \<Longrightarrow> passes_on r e \<Longrightarrow> passed_over call r rest s1 s2 \<Longrightarrow>
     passed_over call r (i # rest) s s2"

inductive_cases passed_overE: "passed_over call r (i # rest) s s'"

lemma failover_reaches:
  assumes "i \<in> set is" "\<And>s. \<exists>u s'. call (r\<lparr>ob_instance := Some i\<rparr>) s = (Inr u, s')"
    and "\<And>j s e. j \<in> set is \<Longrightarrow> fst (call (r\<lparr>ob_instance := Some j\<rparr>) s) = Inl e \<Longrightarrow> passes_on r e"
  shows "\<exists>before j after t u s'. is = before @ j # after \<and> passed_over call r before s t
     \<and> call (r\<lparr>ob_instance := Some j\<rparr>) t = (Inr u, s')
     \<and> try_instances call r errors is s = (Inr (u\<lparr>uo_instance_id := Some (si_id j)\<rparr>), s')"
  using assms(1,3)
proof (induction "is" arbitrary: errors s)
  case Nil
  then show ?case by simp
next
  case (Cons j rest)
  show ?case
  proof (cases "call (r\<lparr>ob_instance := Some j\<rparr>) s")
    case (Pair res s1)
    show ?thesis
    proof (cases res)
      case (Inr u)
      with Pair have "try_instances call r errors (j # rest) s = (Inr (u\<lparr>uo_instance_id := Some (si_id j)\<rparr>), s1)"
        by (simp add: try_instances_Cons send_to_def gw_simps)
      with Pair Inr passed_over.nobody [of call r s] show ?thesis
        by (intro exI [of _ "[]"] exI [of _ j] exI [of _ rest]) auto
    next
      case (Inl e)
      with Pair Cons.prems(2) [of j s e] have pass: "passes_on r e" by simp
      have "i \<noteq> j" using assms(2) [of s] Pair Inl by auto
      with Cons.prems have "i \<in> set rest" by simp
      have "\<exists>before k after t u s'. rest = before @ k # after \<and> passed_over call r before s1 t
          \<and> call (r\<lparr>ob_instance := Some k\<rparr>) t = (Inr u, s')
          \<and> try_instances call r (errors @ [e]) rest s1 = (Inr (u\<lparr>uo_instance_id := Some (si_id k)\<rparr>), s')"
      proof (rule Cons.IH [OF \<open>i \<in> set rest\<close>])
        show "passes_on r e'" if "k \<in> set rest" "fst (call (r\<lparr>ob_instance := Some k\<rparr>) s') = Inl e'" for k s' e'
          by (rule Cons.prems(2) [of k s' e']) (use that in simp_all)
      qed
      then obtain before k after t u s' where
        "rest = before @ k # after" "passed_over call r before s1 t" "call (r\<lparr>ob_instance := Some k\<rparr>) t = (Inr u, s')"
        "try_instances call r (errors @ [e]) rest s1 = (Inr (u\<lparr>uo_instance_id := Some (si_id k)\<rparr>), s')" by blast
      moreover from this have "passed_over call r (j # before) s t"
        using Pair Inl pass by (intro passed_over.another) auto
      ultimately show ?thesis using Pair Inl pass
        by (intro exI [of _ "j # before"] exI [of _ k] exI [of _ after]) (auto simp: try_instances_Cons send_to_def gw_simps)
    qed
  qed
qed


definition sample_get :: outbound_request where
  "sample_get = \<lparr>ob_service = two_instances, ob_method = ''GET'', ob_path = ''/x'', ob_headers = [], ob_query_params = [],
     ob_body = [], ob_instance = None\<rparr>"

definition half_up :: "unit client" where
  "half_up r s = (if ob_instance r = Some \<lparr>si_base_url = ''http://a'', si_id = ''a''\<rparr>
     then (Inr \<lparr>uo_status = 200, uo_headers = [], uo_body = [], uo_connection = None, uo_instance_id = None\<rparr>, s)
     else (Inl (UpstreamConnectionError ''mirag'' False), s))"


end
