(* ===== verification/Resilience.thy ===== *)
theory Resilience
  imports Circuit_Breaker Retry Load_Balancer
begin

text \<open>
  The clients as \<^verbatim>\<open>bootstrap.py\<close> stacks them (\<^verbatim>\<open>build_container\<close>): the balancer picks an instance and fails over,
  each instance has its breaker, the breaker wraps the retries, and the retries wrap the transport.

  What the stack owes its callers is stated as four contracts, each a locale over a client:
  \<open>careful_client\<close>, which bounds the calls that reach the wire and says that a request that may not be
  repeated is delivered at most once, unchanged; \<open>tidy_client\<close>, which says that the only connection a
  call leaves open is the one of the response it returns; \<open>answering_client\<close>, which says that an answer is
  the reply that came off the wire, unchanged; and \<open>explaining_client\<close>, which says that an error of the gateway's own
  is that of a failure on the wire, or of a breaker that let nothing through. The transport keeps them, every layer passes
  them on, and so the stack has them.
\<close>

definition resilient_client :: "exn + breaker \<Rightarrow> int set \<Rightarrow> retry_policy \<Rightarrow> 's client \<Rightarrow> 's client" where
  "resilient_client factory failure_status_codes policy transport =
     balanced (guarded factory failure_status_codes (retrying policy transport))"

section \<open>The layers, seen from the wire\<close>

text \<open>\<open>quiet s s'\<close>: nothing happened on the wire from \<open>s\<close> to \<open>s'\<close>.\<close>

definition quiet :: "'s client_state_scheme \<Rightarrow> 's client_state_scheme \<Rightarrow> bool" where
  "quiet s s' \<longleftrightarrow> ws_log s' = ws_log s"

lemma quiet_refl [simp]: "quiet s s"
  by (simp add: quiet_def)

lemma quiet_trans: "quiet s t \<Longrightarrow> quiet t u \<Longrightarrow> quiet s u"
  by (simp add: quiet_def)

lemma quiet_breaker_for: "quiet s (snd (breaker_for factory t s))"
  by (auto simp: breaker_for_def quiet_def split: option.splits sum.splits)

lemma quiet_update_breaker: "fst (update_breaker t f s) = Inr () \<and> quiet s (snd (update_breaker t f s))"
  by (auto simp: update_breaker_def modify_gw_def quiet_def split: option.splits)

lemma quiet_read_clock: "quiet s (snd (read_clock s))" "\<exists>n. fst (read_clock s) = Inr n"
  by (auto simp: read_clock_def quiet_def)

lemma quiet_failure_verdict: "fst (failure_verdict t s) = Inr () \<and> quiet s (snd (failure_verdict t s))"
  by (auto simp: failure_verdict_def bind_gw_def read_clock_def update_breaker_def modify_gw_def quiet_def split: option.splits)

lemma quiet_acquire: "quiet s (snd (acquire factory t s))"
proof (cases "breaker_for factory t s")
  case (Pair res s1)
  then have "quiet s s1" using quiet_breaker_for [of s factory t] by simp
  with Pair show ?thesis
    by (cases res) (auto simp: acquire_def bind_gw_def then_gw_def read_clock_def update_breaker_def modify_gw_def
        return_gw_def quiet_def split: option.splits)
qed

text \<open>A guarded call raises before it reaches the wire, or is the inner call with the same result.\<close>

definition refusal :: "exn + breaker \<Rightarrow> outbound_request \<Rightarrow> exn \<Rightarrow> bool" where
  "refusal factory r e \<longleftrightarrow> factory = Inl e \<or> e = CircuitOpenError (sd_name (ob_service r))"

lemma acquire_raises: "acquire factory t s = (Inl e, s') \<Longrightarrow> factory = Inl e"
  by (auto simp: acquire_def breaker_for_def bind_gw_def then_gw_def read_clock_def update_breaker_def modify_gw_def return_gw_def
      split: option.splits sum.splits)

lemma guarded_shape:
  "(\<exists>e s'. guarded factory codes call r s = (Inl e, s') \<and> quiet s s' \<and> refusal factory r e)
   \<or> (\<exists>s1 s2. quiet s s1 \<and> quiet (snd (call r s1)) s2 \<and> guarded factory codes call r s = (fst (call r s1), s2))"
proof (cases "acquire factory (target r) s")
  case (Pair res s1)
  then have q: "quiet s s1" using quiet_acquire [of s factory "target r"] by simp
  show ?thesis
  proof (cases res)
    case (Inl e)
    with Pair q acquire_raises [of factory "target r" s e s1] show ?thesis by (auto simp: guarded_def bind_gw_def refusal_def)
  next
    case (Inr ok)
    show ?thesis
    proof (cases ok)
      case False
      with Pair Inr q show ?thesis by (auto simp: guarded_def bind_gw_def raise_gw_def refusal_def)
    next
      case True
      obtain out s2 where c: "call r s1 = (out, s2)" by fastforce
      have "\<exists>s3. quiet s2 s3 \<and> guarded factory codes call r s = (out, s3)"
        using Pair Inr True c quiet_failure_verdict [of "target r" s2]
          quiet_update_breaker [of "target r" on_abort s2] quiet_update_breaker [of "target r" on_success s2]
        by (cases out) (auto simp: guarded_def bind_gw_def catch_gw_def then_gw_def raise_gw_def return_gw_def
            split: prod.splits sum.splits)
      with q c show ?thesis by fastforce
    qed
  qed
qed

text \<open>What is neither the gateway's own error nor a rejected value.\<close>

fun foreign :: "exn \<Rightarrow> bool" where
  "foreign (ValueError _) = False"
| "foreign e = (\<not> is_gateway_error e)"

lemma untranslated_foreign [simp]: "foreign (untranslated f)"
  by (cases f) simp_all

lemma url_raises: "url r = Inl e \<Longrightarrow> foreign e"
  by (auto simp: url_def resolved_instance_def split: option.splits list.splits)

lemma back_off_raises: "back_off p r a s = (Inl e, s') \<Longrightarrow> foreign e"
  by (auto simp: back_off_def bind_gw_def lift_gw_def sleep_def delay_for_def dest: url_raises split: sum.splits if_splits)

lemma back_off_shape:
  "back_off p r a s = (res, s') \<Longrightarrow>
     (\<exists>e. res = Inl e \<and> s' = s) \<or> (\<exists>d. delay_for p a = Inr d \<and> ws_log s' = ws_log s @ [Slept d])"
  by (auto simp: back_off_def bind_gw_def lift_gw_def sleep_def split: sum.splits)

text \<open>What is on the wire between two attempts: the response that is given up is closed, then the wait.\<close>

definition discards :: "exn + upstream_outcome \<Rightarrow> wire_event list" where
  "discards res = (case res of Inl _ \<Rightarrow> [] | Inr u \<Rightarrow> (case uo_connection u of None \<Rightarrow> [] | Some n \<Rightarrow> [Closed n]))"

definition waited :: "retry_policy \<Rightarrow> int \<Rightarrow> exn + upstream_outcome \<Rightarrow> wire_event list \<Rightarrow> bool" where
  "waited p a res evs \<longleftrightarrow> evs = discards res \<or> (\<exists>d. delay_for p a = Inr d \<and> evs = discards res @ [Slept d])"

lemma waited_silent: "waited p a res evs \<Longrightarrow> calls evs = 0 \<and> deliveries evs = 0"
  by (auto simp: waited_def discards_def split: sum.splits option.splits)

lemma pause_shape:
  assumes "(case res of Inl _ \<Rightarrow> back_off p r a | Inr u \<Rightarrow> then_gw (aclose u) (back_off p r a)) s1 = (w, s2)"
  shows "\<exists>evs. waited p a res evs \<and> ws_log s2 = ws_log s1 @ evs"
proof (cases res)
  case (Inl e)
  with assms back_off_shape [of p r a s1 w s2] show ?thesis by (auto simp: waited_def discards_def)
next
  case (Inr u)
  show ?thesis
  proof (cases "uo_connection u")
    case None
    with Inr assms back_off_shape [of p r a s1 w s2] show ?thesis
      by (auto simp: waited_def discards_def aclose_def then_gw_def bind_gw_def return_gw_def)
  next
    case (Some n)
    let ?s = "s1\<lparr>ws_log := ws_log s1 @ [Closed n]\<rparr>"
    show ?thesis
    proof (cases "ws_closing s1 (ws_log s1)")
      case None
      with Some Inr assms have "back_off p r a ?s = (w, s2)" by (simp add: aclose_def then_gw_def bind_gw_def close_connection_def)
      with Inr Some back_off_shape [OF this] show ?thesis by (auto simp: waited_def discards_def)
    next
      case (Some f)
      with \<open>uo_connection u = Some n\<close> Inr assms have "s2 = ?s" by (simp add: aclose_def then_gw_def bind_gw_def close_connection_def)
      with \<open>uo_connection u = Some n\<close> Inr show ?thesis by (simp add: waited_def discards_def)
    qed
  qed
qed

lemma pause_raises:
  assumes "(case res of Inl _ \<Rightarrow> back_off p r a | Inr u \<Rightarrow> then_gw (aclose u) (back_off p r a)) s1 = (Inl e, s2)"
  shows "foreign e"
  using assms back_off_raises
  by (fastforce simp: then_gw_def bind_gw_def aclose_def close_connection_def return_gw_def split: sum.splits option.splits prod.splits)

lemma attempts_shape:
  assumes "call r s = (res, s1)"
  shows "attempts p call r a s = (res, s1)
     \<or> (\<exists>s2 pause e. a < rp_max_attempts p \<and> waited p a res pause \<and> ws_log s2 = ws_log s1 @ pause \<and> attempts p call r a s = (Inl e, s2)
          \<and> foreign e)
     \<or> (\<exists>s2 pause. a < rp_max_attempts p \<and> waited p a res pause \<and> ws_log s2 = ws_log s1 @ pause
          \<and> attempts p call r a s = attempts p call r (a + 1) s2)"
proof -
  obtain w s2 where w: "(case res of Inl _ \<Rightarrow> back_off p r a | Inr u \<Rightarrow> then_gw (aclose u) (back_off p r a)) s1 = (w, s2)"
    by fastforce
  from pause_shape [OF this] obtain pause where "waited p a res pause" "ws_log s2 = ws_log s1 @ pause" by blast
  moreover have "foreign e" if "w = Inl e" for e
    using pause_raises w that by blast
  ultimately show ?thesis using w assms
    by (cases res; cases w) (auto simp: attempts.simps [of p call r a s] not_le)
qed

section \<open>Careful clients\<close>

text \<open>A call on the wire carries the request it is for.\<close>

fun carries :: "outbound_request \<Rightarrow> wire_event \<Rightarrow> bool" where
  "carries r (Sent c _) \<longleftrightarrow> hc_method c = ob_method r \<and> hc_params c = ob_query_params r
     \<and> hc_headers c = ob_headers r \<and> hc_content c = ob_body r"
| "carries r _ \<longleftrightarrow> True"

lemma waited_carries: "waited p a res evs \<Longrightarrow> list_all (carries r) evs"
  by (auto simp: waited_def discards_def split: sum.splits option.splits)

text \<open>A result that says that no instance received the request.\<close>

fun never_received :: "exn + upstream_outcome \<Rightarrow> bool" where
  "never_received (Inl e) \<longleftrightarrow> is_circuit_open e \<or> (is_upstream_error e \<and> \<not> request_sent e)"
| "never_received (Inr _) \<longleftrightarrow> False"

definition careful_trace :: "outbound_request \<Rightarrow> nat \<Rightarrow> exn + upstream_outcome \<Rightarrow> wire_event list \<Rightarrow> bool" where
  "careful_trace r n res evs \<longleftrightarrow> calls evs \<le> n \<and> list_all (carries r) evs
     \<and> (\<not> is_idempotent r \<longrightarrow> deliveries evs \<le> 1 \<and> (never_received res \<longrightarrow> deliveries evs = 0))"

lemma carries_instance [simp]: "carries (r\<lparr>ob_instance := i\<rparr>) = carries r"
  by (rule ext, rename_tac ev, case_tac ev) auto

lemma is_idempotent_instance [simp]: "is_idempotent (r\<lparr>ob_instance := i\<rparr>) = is_idempotent r"
  by (simp add: is_idempotent_def)

lemma careful_trace_instance [simp]: "careful_trace (r\<lparr>ob_instance := i\<rparr>) = careful_trace r"
  by (simp add: careful_trace_def fun_eq_iff)

lemma careful_trace_Nil [simp]: "careful_trace r n res []"
  by (simp add: careful_trace_def)

lemma careful_trace_append:
  assumes "careful_trace r m (Inl e) xs" "careful_trace r n res ys" "is_idempotent r \<or> never_received (Inl e)"
  shows "careful_trace r (m + n) res (xs @ ys)"
  using assms by (auto simp: careful_trace_def)

lemma careful_trace_mono: "careful_trace r m res evs \<Longrightarrow> m \<le> n \<Longrightarrow> careful_trace r n res evs"
  by (auto simp: careful_trace_def)

lemma careful_trace_idempotent:
  "is_idempotent r \<Longrightarrow> careful_trace r n res evs \<longleftrightarrow> calls evs \<le> n \<and> list_all (carries r) evs"
  by (simp add: careful_trace_def)

locale careful_client =
  fixes call :: "'s client" and bound :: "outbound_request \<Rightarrow> nat"
  assumes bound_instance: "bound (r\<lparr>ob_instance := i\<rparr>) = bound r"
    and careful: "\<exists>evs. ws_log (snd (call r s)) = ws_log s @ evs \<and> careful_trace r (bound r) (fst (call r s)) evs"
begin

lemma careful_call:
  assumes "call r s = (res, s')"
  obtains evs where "ws_log s' = ws_log s @ evs" "careful_trace r (bound r) res evs"
  using careful [of r s] assms by auto

lemma attempts_careful:
  assumes "is_idempotent r"
  shows "\<exists>evs. ws_log (snd (attempts p call r a s)) = ws_log s @ evs
     \<and> careful_trace r (Suc (nat (rp_max_attempts p - a)) * bound r) (fst (attempts p call r a s)) evs"
proof (induction "nat (rp_max_attempts p - a)" arbitrary: a s)
  case (0 a s)
  obtain res s1 where c: "call r s = (res, s1)" by fastforce
  from careful_call [OF this] obtain evs where "ws_log s1 = ws_log s @ evs" "careful_trace r (bound r) res evs" .
  with attempts_shape [of call r s res s1 p a, OF c] 0 show ?case by auto
next
  case (Suc n a s)
  obtain res s1 where c: "call r s = (res, s1)" by fastforce
  from careful_call [OF this] obtain evs where evs: "ws_log s1 = ws_log s @ evs" "careful_trace r (bound r) res evs" .
  from attempts_shape [of call r s res s1 p a, OF c] show ?case
  proof (elim disjE exE conjE)
    assume "attempts p call r a s = (res, s1)"
    with evs careful_trace_mono [of r "bound r" res evs] show ?thesis by auto
  next
    fix s2 pause e
    assume s2: "a < rp_max_attempts p" "waited p a res pause" "ws_log s2 = ws_log s1 @ pause" "attempts p call r a s = (Inl e, s2)"
    with evs assms waited_silent [OF s2(2)] waited_carries [OF s2(2)] show ?thesis by (auto simp: careful_trace_idempotent)
  next
    fix s2 pause
    assume s2: "a < rp_max_attempts p" "waited p a res pause" "ws_log s2 = ws_log s1 @ pause"
      "attempts p call r a s = attempts p call r (a + 1) s2"
    from Suc(2) have "n = nat (rp_max_attempts p - (a + 1))" by simp
    from Suc(1) [OF this, of s2] obtain more where
      "ws_log (snd (attempts p call r (a + 1) s2)) = ws_log s2 @ more"
      "careful_trace r (Suc n * bound r) (fst (attempts p call r (a + 1) s2)) more"
      using \<open>n = nat _\<close> by auto
    with evs s2(3,4) Suc(2) [symmetric] assms waited_silent [OF s2(2)] waited_carries [OF s2(2)] show ?thesis
      by (auto simp: careful_trace_idempotent)
  qed
qed

lemma retrying_careful:
  "\<exists>evs. ws_log (snd (retrying p call r s)) = ws_log s @ evs
     \<and> careful_trace r ((if is_idempotent r then nat (max 1 (rp_max_attempts p)) else 1) * bound r) (fst (retrying p call r s)) evs"
proof (cases "is_idempotent r")
  case True
  have "Suc (nat (rp_max_attempts p - 1)) = nat (max 1 (rp_max_attempts p))" by auto
  with True attempts_careful [OF True, of p 1 s] show ?thesis by (simp add: retrying_def)
next
  case False
  with careful [of r s] show ?thesis by (simp add: retrying_def)
qed

lemma guarded_careful:
  "\<exists>evs. ws_log (snd (guarded factory codes call r s)) = ws_log s @ evs
     \<and> careful_trace r (bound r) (fst (guarded factory codes call r s)) evs"
  using guarded_shape [of factory codes call r s]
proof (elim disjE exE conjE)
  fix e s' assume "guarded factory codes call r s = (Inl e, s')" "quiet s s'"
  then show ?thesis by (auto simp: quiet_def)
next
  fix s1 s2
  assume g: "quiet s s1" "quiet (snd (call r s1)) s2" "guarded factory codes call r s = (fst (call r s1), s2)"
  with careful [of r s1] show ?thesis by (auto simp: quiet_def)
qed

lemma send_to_careful:
  "\<exists>evs. ws_log (snd (send_to i r call s)) = ws_log s @ evs \<and> careful_trace r (bound r) (fst (send_to i r call s)) evs"
proof -
  obtain res s' where c: "call (r\<lparr>ob_instance := Some i\<rparr>) s = (res, s')" by fastforce
  from careful_call [OF this] obtain evs where
    "ws_log s' = ws_log s @ evs" "careful_trace r (bound r) res evs" by (auto simp: bound_instance)
  with c show ?thesis by (cases res) (auto simp: send_to_def bind_gw_def return_gw_def careful_trace_def)
qed

lemma passes_on_never_received: "passes_on r e \<Longrightarrow> \<not> is_idempotent r \<Longrightarrow> never_received (Inl e)"
  by (auto simp: passes_on_def can_fail_over_def)

lemma try_instances_careful:
  "\<exists>evs. ws_log (snd (try_instances call r errors is s)) = ws_log s @ evs
     \<and> careful_trace r (length is * bound r) (fst (try_instances call r errors is s)) evs"
proof (induction "is" arbitrary: errors s)
  case Nil
  then show ?case by simp
next
  case (Cons i rest)
  obtain res s1 where c: "send_to i r call s = (res, s1)" by fastforce
  obtain evs where evs: "ws_log s1 = ws_log s @ evs" "careful_trace r (bound r) res evs"
    using send_to_careful [of i r s] c by auto
  show ?case
  proof (cases "\<exists>e. res = Inl e \<and> passes_on r e")
    case True
    then obtain e where e: "res = Inl e" "passes_on r e" by blast
    obtain more where "ws_log (snd (try_instances call r (errors @ [e]) rest s1)) = ws_log s1 @ more"
      "careful_trace r (length rest * bound r) (fst (try_instances call r (errors @ [e]) rest s1)) more"
      using Cons.IH by blast
    with c e evs careful_trace_append [of r "bound r" e evs "length rest * bound r"]
      passes_on_never_received [OF e(2)] show ?thesis
      by (auto simp: try_instances_Cons)
  next
    case False
    with c evs careful_trace_mono [of r "bound r" res evs "length (i # rest) * bound r"] show ?thesis
      by (cases res) (auto simp: try_instances_Cons)
  qed
qed

lemma balanced_careful:
  "\<exists>evs. ws_log (snd (balanced call r s)) = ws_log s @ evs
     \<and> careful_trace r (max 1 (length (sd_instances (ob_service r))) * bound r) (fst (balanced call r s)) evs"
proof (cases "ob_instance r")
  case (Some i)
  obtain evs where "ws_log (snd (send_to i r call s)) = ws_log s @ evs" "careful_trace r (bound r) (fst (send_to i r call s)) evs"
    using send_to_careful by blast
  moreover have "1 * bound r \<le> max 1 (length (sd_instances (ob_service r))) * bound r" by (intro mult_le_mono1) simp
  ultimately show ?thesis using Some careful_trace_mono [of r "bound r"] by (auto simp: balanced_def)
next
  case None
  obtain res s1 where c: "rotation (ob_service r) s = (res, s1)" by fastforce
  then have "quiet s s1" by (auto simp: rotation_def quiet_def Let_def split: if_splits)
  show ?thesis
  proof (cases res)
    case (Inl e)
    with None c \<open>quiet s s1\<close> show ?thesis by (auto simp: balanced_def bind_gw_def quiet_def)
  next
    case (Inr order)
    with c have "length order \<le> max 1 (length (sd_instances (ob_service r)))"
      by (auto simp: rotation_def Let_def split: if_splits)
    then have "length order * bound r \<le> max 1 (length (sd_instances (ob_service r))) * bound r" by (rule mult_le_mono1)
    with try_instances_careful [of r "[]" order s1] careful_trace_mono [of r "length order * bound r"]
      None c Inr \<open>quiet s s1\<close> show ?thesis by (fastforce simp: balanced_def bind_gw_def quiet_def)
  qed
qed

end

lemma careful_retrying:
  "careful_client call bound \<Longrightarrow>
   careful_client (retrying p call) (\<lambda>r. (if is_idempotent r then nat (max 1 (rp_max_attempts p)) else 1) * bound r)"
  by (rule careful_client.intro, simp add: careful_client.bound_instance, rule careful_client.retrying_careful)

lemma careful_guarded: "careful_client call bound \<Longrightarrow> careful_client (guarded factory codes call) bound"
  by (rule careful_client.intro, simp add: careful_client.bound_instance, rule careful_client.guarded_careful)

lemma careful_balanced:
  "careful_client call bound \<Longrightarrow> careful_client (balanced call) (\<lambda>r. max 1 (length (sd_instances (ob_service r))) * bound r)"
  by (rule careful_client.intro, simp add: careful_client.bound_instance, rule careful_client.balanced_careful)

definition stack_bound :: "retry_policy \<Rightarrow> outbound_request \<Rightarrow> nat" where
  "stack_bound p r = max 1 (length (sd_instances (ob_service r)))
     * ((if is_idempotent r then nat (max 1 (rp_max_attempts p)) else 1) * 1)"

lemma careful_resilient:
  assumes "careful_client transport (\<lambda>_. 1)"
  shows "careful_client (resilient_client factory codes p transport) (stack_bound p)"
  unfolding resilient_client_def stack_bound_def [abs_def]
  by (intro careful_balanced careful_guarded careful_retrying assms)

lemma as_domain_error_received: "never_received (Inl (as_domain_error r f)) \<longleftrightarrow> \<not> delivered_event (Sent c (Inl f))"
  by (cases f) auto

interpretation httpx_sending: careful_client httpx_send "\<lambda>_. 1"
proof
  fix r :: outbound_request and s :: "'a client_state_scheme"
  show "\<exists>evs. ws_log (snd (httpx_send r s)) = ws_log s @ evs \<and> careful_trace r 1 (fst (httpx_send r s)) evs"
    using as_domain_error_received [of r]
    by (cases "url r") (auto simp: httpx_send_def bind_gw_def lift_gw_def exchange_def Let_def careful_trace_def
        http_call_of_def deliveries_def calls_def split: sum.splits)
qed simp

interpretation httpx_streaming: careful_client httpx_stream "\<lambda>_. 1"
proof
  fix r :: outbound_request and s :: "'a client_state_scheme"
  show "\<exists>evs. ws_log (snd (httpx_stream r s)) = ws_log s @ evs \<and> careful_trace r 1 (fst (httpx_stream r s)) evs"
    using as_domain_error_received [of r]
    by (cases "url r") (auto simp: httpx_stream_def bind_gw_def lift_gw_def exchange_def Let_def careful_trace_def
        http_call_of_def deliveries_def calls_def split: sum.splits)
qed simp

interpretation sending: careful_client "resilient_client factory codes p httpx_send" "stack_bound p" for factory codes p
  by (rule careful_resilient) (rule httpx_sending.careful_client_axioms)

interpretation streaming: careful_client "resilient_client factory codes p httpx_stream" "stack_bound p" for factory codes p
  by (rule careful_resilient) (rule httpx_streaming.careful_client_axioms)

text \<open>C2. A request that may not be repeated is delivered at most once. Through the balancer, the breakers and the
  retries, and whatever the network answers, a POST or a PATCH reaches the wire at most once per
  instance and all but one of those calls failed before a byte of them left; the others are bounded by the
  instances times the attempts. Everything that reaches the wire is the request, unchanged.\<close>

theorem unsafe_request_is_delivered_at_most_once:
  fixes s :: "'s client_state_scheme"
  assumes "transport \<in> {httpx_send, httpx_stream}" "sd_instances (ob_service r) \<noteq> []" "1 \<le> rp_max_attempts p"
  shows "\<exists>evs. ws_log (snd (resilient_client factory codes p transport r s)) = ws_log s @ evs
     \<and> list_all (carries r) evs
     \<and> (\<not> is_idempotent r \<longrightarrow> deliveries evs \<le> 1 \<and> calls evs \<le> length (sd_instances (ob_service r)))
     \<and> (is_idempotent r \<longrightarrow> calls evs \<le> length (sd_instances (ob_service r)) * nat (rp_max_attempts p))"
proof -
  have "max 1 (length (sd_instances (ob_service r))) = length (sd_instances (ob_service r))"
    using assms(2) by (simp add: Suc_leI max_def)
  moreover have "nat (max 1 (rp_max_attempts p)) = nat (rp_max_attempts p)" using assms(3) by simp
  ultimately have "stack_bound p r = length (sd_instances (ob_service r)) * (if is_idempotent r then nat (rp_max_attempts p) else 1)"
    by (simp add: stack_bound_def)
  with assms(1) sending.careful [of factory codes p r s] streaming.careful [of factory codes p r s] show ?thesis
    by (auto simp: careful_trace_def split: if_splits)
qed

section \<open>Tidy clients\<close>

text \<open>The connections a log leaves open: streamed responses that were not closed.\<close>

definition open_connections :: "wire_event list \<Rightarrow> nat set" where
  "open_connections evs = {n. n < length evs \<and> (\<exists>c resp. evs ! n = Sent c (Inr resp) \<and> hc_stream c) \<and> Closed n \<notin> set evs}"

definition names_ok :: "wire_event list \<Rightarrow> bool" where
  "names_ok evs \<longleftrightarrow> (\<forall>n. Closed n \<in> set evs \<longrightarrow> n < length evs)"

definition held :: "exn + upstream_outcome \<Rightarrow> nat set" where
  "held res = (case res of Inl _ \<Rightarrow> {} | Inr u \<Rightarrow> set_option (uo_connection u))"

lemma held_simps [simp]: "held (Inl e) = {}" "held (Inr u) = set_option (uo_connection u)"
  by (simp_all add: held_def)

lemma open_sleep [simp]:
  "open_connections (evs @ [Slept d]) = open_connections evs" "names_ok (evs @ [Slept d]) = names_ok evs" if "names_ok evs"
  using that by (auto simp: open_connections_def names_ok_def nth_append less_Suc_eq)

lemma open_close: "open_connections (evs @ [Closed n]) = open_connections evs - {n}"
  by (auto simp: open_connections_def nth_append less_Suc_eq)

lemma names_ok_close: "names_ok evs \<Longrightarrow> n \<in> open_connections evs \<Longrightarrow> names_ok (evs @ [Closed n])"
  by (auto simp: open_connections_def names_ok_def less_Suc_eq)

lemma open_sent:
  assumes "names_ok evs"
  shows "open_connections (evs @ [Sent c reply]) =
      open_connections evs \<union> (if hc_stream c \<and> (\<exists>resp. reply = Inr resp) then {length evs} else {})"
    and "names_ok (evs @ [Sent c reply])"
  using assms by (auto simp: open_connections_def names_ok_def nth_append less_Suc_eq)

text \<open>\<open>tidy_step before res after\<close>: from one log to the other the only connection opened and kept is the one the
  result holds.\<close>

definition tidy_step :: "wire_event list \<Rightarrow> exn + upstream_outcome \<Rightarrow> wire_event list \<Rightarrow> bool" where
  "tidy_step before res after \<longleftrightarrow> names_ok after \<and> open_connections after = open_connections before \<union> held res
     \<and> held res \<inter> open_connections before = {}"

lemma tidy_discard:
  assumes "tidy_step before res after"
  shows "names_ok (after @ discards res) \<and> open_connections (after @ discards res) = open_connections before"
proof (cases "\<exists>u n. res = Inr u \<and> uo_connection u = Some n")
  case True
  then obtain u n where u: "res = Inr u" "uo_connection u = Some n" by blast
  with assms have "names_ok after" "open_connections after = insert n (open_connections before)" "n \<notin> open_connections before"
    by (auto simp: tidy_step_def)
  with u names_ok_close [of after n] show ?thesis by (auto simp: discards_def open_close)
next
  case False
  with assms show ?thesis by (cases res) (auto simp: discards_def tidy_step_def split: option.splits)
qed

lemma tidy_wait:
  assumes "tidy_step before res after" "waited p a res pause"
  shows "names_ok (after @ pause) \<and> open_connections (after @ pause) = open_connections before"
  using assms(2)
proof (unfold waited_def, elim disjE exE conjE)
  assume "pause = discards res"
  with tidy_discard [OF assms(1)] show ?thesis by simp
next
  fix d assume "pause = discards res @ [Slept d]"
  with tidy_discard [OF assms(1)] open_sleep [of "after @ discards res" d] show ?thesis by simp
qed

locale tidy_client =
  fixes call :: "'s client"
  assumes tidy: "names_ok (ws_log s) \<Longrightarrow> tidy_step (ws_log s) (fst (call r s)) (ws_log (snd (call r s)))"
begin

lemma tidy_call: "call r s = (res, s') \<Longrightarrow> names_ok (ws_log s) \<Longrightarrow> tidy_step (ws_log s) res (ws_log s')"
  using tidy [of s r] by simp

lemma attempts_tidy:
  "names_ok (ws_log s) \<Longrightarrow> tidy_step (ws_log s) (fst (attempts p call r a s)) (ws_log (snd (attempts p call r a s)))"
proof (induction "nat (rp_max_attempts p - a)" arbitrary: a s rule: less_induct)
  case (less a s)
  obtain res s1 where c: "call r s = (res, s1)" by fastforce
  from tidy_call [OF this less.prems] have t: "tidy_step (ws_log s) res (ws_log s1)" .
  from attempts_shape [of call r s res s1 p a, OF c] show ?case
  proof (elim disjE exE conjE)
    assume "attempts p call r a s = (res, s1)"
    with t show ?thesis by simp
  next
    fix s2 pause e
    assume "waited p a res pause" "ws_log s2 = ws_log s1 @ pause" "attempts p call r a s = (Inl e, s2)"
    with tidy_wait [OF t] show ?thesis by (simp add: tidy_step_def)
  next
    fix s2 pause
    assume s2: "a < rp_max_attempts p" "waited p a res pause" "ws_log s2 = ws_log s1 @ pause"
      "attempts p call r a s = attempts p call r (a + 1) s2"
    then have w: "names_ok (ws_log s2)" "open_connections (ws_log s2) = open_connections (ws_log s)"
      using tidy_wait [OF t] by simp_all
    have "nat (rp_max_attempts p - (a + 1)) < nat (rp_max_attempts p - a)" using s2(1) by simp
    from less.hyps [OF this w(1)] w(2) s2(4) show ?thesis by (simp add: tidy_step_def)
  qed
qed

lemma retrying_tidy: "tidy_client (retrying p call)"
  by unfold_locales (simp add: retrying_def tidy attempts_tidy)

lemma guarded_tidy: "tidy_client (guarded factory codes call)"
proof
  fix r and s :: "'s client_state_scheme"
  assume ok: "names_ok (ws_log s)"
  from guarded_shape [of factory codes call r s]
  show "tidy_step (ws_log s) (fst (guarded factory codes call r s)) (ws_log (snd (guarded factory codes call r s)))"
  proof (elim disjE exE conjE)
    fix e s' assume "guarded factory codes call r s = (Inl e, s')" "quiet s s'"
    with ok show ?thesis by (simp add: quiet_def tidy_step_def)
  next
    fix s1 s2
    assume "quiet s s1" "quiet (snd (call r s1)) s2" "guarded factory codes call r s = (fst (call r s1), s2)"
    with ok tidy [of s1 r] show ?thesis by (simp add: quiet_def)
  qed
qed

lemma send_to_tidy:
  "names_ok (ws_log s) \<Longrightarrow> tidy_step (ws_log s) (fst (send_to i r call s)) (ws_log (snd (send_to i r call s)))"
  using tidy [of s "r\<lparr>ob_instance := Some i\<rparr>"]
  by (auto simp: send_to_def bind_gw_def return_gw_def tidy_step_def split: prod.splits sum.splits)

lemma try_instances_tidy:
  "names_ok (ws_log s) \<Longrightarrow>
   tidy_step (ws_log s) (fst (try_instances call r errors order s)) (ws_log (snd (try_instances call r errors order s)))"
proof (induction order arbitrary: errors s)
  case Nil
  then show ?case by (simp add: tidy_step_def)
next
  case (Cons i rest)
  obtain res s1 where c: "send_to i r call s = (res, s1)" by fastforce
  with send_to_tidy [OF Cons.prems, of i r] have t: "tidy_step (ws_log s) res (ws_log s1)" by simp
  show ?case
  proof (cases res)
    case (Inr u)
    with c t show ?thesis by (simp add: try_instances_Cons)
  next
    case (Inl e)
    with t have "names_ok (ws_log s1)" "open_connections (ws_log s1) = open_connections (ws_log s)"
      by (simp_all add: tidy_step_def)
    with Cons.IH [of s1 "errors @ [e]"] Inl c t show ?thesis by (simp add: try_instances_Cons tidy_step_def)
  qed
qed

lemma balanced_tidy: "tidy_client (balanced call)"
proof
  fix r and s :: "'s client_state_scheme"
  assume ok: "names_ok (ws_log s)"
  show "tidy_step (ws_log s) (fst (balanced call r s)) (ws_log (snd (balanced call r s)))"
  proof (cases "ob_instance r")
    case (Some i)
    with send_to_tidy [OF ok] show ?thesis by (simp add: balanced_def)
  next
    case None
    obtain res s1 where c: "rotation (ob_service r) s = (res, s1)" by fastforce
    then have "quiet s s1" by (auto simp: rotation_def quiet_def Let_def split: if_splits)
    with None c ok try_instances_tidy [of s1 r "[]"] show ?thesis
      by (cases res) (auto simp: balanced_def bind_gw_def quiet_def tidy_step_def)
  qed
qed

end

lemma tidy_resilient: "tidy_client transport \<Longrightarrow> tidy_client (resilient_client factory codes p transport)"
  unfolding resilient_client_def
  by (intro tidy_client.balanced_tidy tidy_client.guarded_tidy tidy_client.retrying_tidy)

interpretation httpx_send_tidy: tidy_client httpx_send
proof
  fix r and s :: "'a client_state_scheme"
  assume "names_ok (ws_log s)"
  with open_sent [OF this] show "tidy_step (ws_log s) (fst (httpx_send r s)) (ws_log (snd (httpx_send r s)))"
    by (cases "url r") (auto simp: httpx_send_def bind_gw_def lift_gw_def exchange_def Let_def tidy_step_def
        http_call_of_def split: sum.splits)
qed

interpretation httpx_stream_tidy: tidy_client httpx_stream
proof
  fix r and s :: "'a client_state_scheme"
  assume "names_ok (ws_log s)"
  moreover have "length (ws_log s) \<notin> open_connections (ws_log s)" by (simp add: open_connections_def)
  ultimately show "tidy_step (ws_log s) (fst (httpx_stream r s)) (ws_log (snd (httpx_stream r s)))"
    using open_sent [of "ws_log s"]
    by (cases "url r") (auto simp: httpx_stream_def bind_gw_def lift_gw_def exchange_def Let_def tidy_step_def
        http_call_of_def split: sum.splits)
qed

interpretation sending_tidy: tidy_client "resilient_client factory codes p httpx_send" for factory codes p
  by (rule tidy_resilient) (rule httpx_send_tidy.tidy_client_axioms)

interpretation streaming_tidy: tidy_client "resilient_client factory codes p httpx_stream" for factory codes p
  by (rule tidy_resilient) (rule httpx_stream_tidy.tidy_client_axioms)

text \<open>C4. No connection leaks. Whatever the attempts, the retries, the failovers and the cancellations, when a call
  through the stack ends the connections that are open are the ones that were open before and the one
  of the response that is handed back, if it is a stream: every response that was given up is closed.\<close>

theorem no_connection_leaks:
  fixes s :: "'s client_state_scheme"
  assumes "transport \<in> {httpx_send, httpx_stream}" "names_ok (ws_log s)"
    and "resilient_client factory codes p transport r s = (res, s')"
  shows "names_ok (ws_log s') \<and> open_connections (ws_log s') = open_connections (ws_log s) \<union> held res
     \<and> held res \<inter> open_connections (ws_log s) = {}"
  using assms sending_tidy.tidy [of s factory codes p r] streaming_tidy.tidy [of s factory codes p r]
  by (auto simp: tidy_step_def)

section \<open>Answers come off the wire\<close>

text \<open>The third contract: what a call answers is the last thing that happened on the wire, the reply to a call to the
  address the request resolves to, with nothing of it changed.\<close>

definition answered_by :: "outbound_request \<Rightarrow> upstream_outcome \<Rightarrow> wire_event list \<Rightarrow> bool" where
  "answered_by r u evs \<longleftrightarrow>
     (\<exists>pre c resp. evs = pre @ [Sent c (Inr resp)] \<and> url r = Inr (hc_url c) \<and> uo_status u = hr_status resp
        \<and> uo_headers u = hr_headers resp \<and> uo_body u = hr_content resp)"

lemma answered_by_later: "answered_by r u evs \<Longrightarrow> answered_by r u (xs @ evs)"
  unfolding answered_by_def by (metis append.assoc)

lemma answered_by_named [simp]: "answered_by r (u\<lparr>uo_instance_id := i\<rparr>) evs = answered_by r u evs"
  by (simp add: answered_by_def)

definition answering_step :: "outbound_request \<Rightarrow> wire_event list \<Rightarrow> exn + upstream_outcome \<Rightarrow> wire_event list \<Rightarrow> bool" where
  "answering_step r before res after \<longleftrightarrow>
     (\<exists>evs. after = before @ evs \<and> (case res of Inl _ \<Rightarrow> True | Inr u \<Rightarrow> answered_by r u evs))"

lemma answering_step_later: "answering_step r (before @ xs) res after \<Longrightarrow> answering_step r before res after"
  by (auto simp: answering_step_def answered_by_later split: sum.splits)

lemma answering_step_error: "answering_step r before res after \<Longrightarrow> answering_step r before (Inl e) (after @ pause)"
  by (auto simp: answering_step_def)

lemma turned_set: "set (drop n xs @ take n xs) = set xs"
  by (metis append_take_drop_id set_append sup_commute)

text \<open>Through the balancer, the answer is that of an instance, and carries its name.\<close>

definition instance_answered :: "outbound_request \<Rightarrow> service_instance set \<Rightarrow> wire_event list \<Rightarrow> exn + upstream_outcome \<Rightarrow> wire_event list \<Rightarrow> bool" where
  "instance_answered r candidates before res after \<longleftrightarrow>
     (\<exists>evs. after = before @ evs \<and>
        (case res of Inl _ \<Rightarrow> True
         | Inr u \<Rightarrow> (\<exists>i \<in> candidates. uo_instance_id u = Some (si_id i) \<and> answered_by (r\<lparr>ob_instance := Some i\<rparr>) u evs)))"

lemma instance_answered_later:
  assumes "instance_answered r A (before @ xs) res after" "A \<subseteq> B"
  shows "instance_answered r B before res after"
proof -
  from assms(1) obtain evs where "after = before @ xs @ evs"
    "case res of Inl _ \<Rightarrow> True | Inr u \<Rightarrow> (\<exists>i \<in> A. uo_instance_id u = Some (si_id i) \<and> answered_by (r\<lparr>ob_instance := Some i\<rparr>) u evs)"
    by (auto simp: instance_answered_def)
  with assms(2) answered_by_later show ?thesis
    unfolding instance_answered_def by (intro exI [of _ "xs @ evs"]) (fastforce split: sum.splits)
qed

locale answering_client =
  fixes call :: "'s client"
  assumes answers: "answering_step r (ws_log s) (fst (call r s)) (ws_log (snd (call r s)))"
begin

lemma answers_call: "call r s = (res, s') \<Longrightarrow> answering_step r (ws_log s) res (ws_log s')"
  using answers [of r s] by simp

lemma attempts_answer: "answering_step r (ws_log s) (fst (attempts p call r a s)) (ws_log (snd (attempts p call r a s)))"
proof (induction "nat (rp_max_attempts p - a)" arbitrary: a s rule: less_induct)
  case (less a s)
  obtain res s1 where c: "call r s = (res, s1)" by fastforce
  from answers_call [OF this] have t: "answering_step r (ws_log s) res (ws_log s1)" .
  from attempts_shape [of call r s res s1 p a, OF c] show ?case
  proof (elim disjE exE conjE)
    assume "attempts p call r a s = (res, s1)"
    with t show ?thesis by simp
  next
    fix s2 pause e
    assume "ws_log s2 = ws_log s1 @ pause" "attempts p call r a s = (Inl e, s2)"
    with answering_step_error [OF t] show ?thesis by simp
  next
    fix s2 pause
    assume s2: "a < rp_max_attempts p" "ws_log s2 = ws_log s1 @ pause" "attempts p call r a s = attempts p call r (a + 1) s2"
    from t obtain evs where "ws_log s1 = ws_log s @ evs" by (auto simp: answering_step_def)
    with s2(2) have "ws_log s2 = ws_log s @ evs @ pause" by simp
    moreover have "answering_step r (ws_log s2) (fst (attempts p call r (a + 1) s2)) (ws_log (snd (attempts p call r (a + 1) s2)))"
      using s2(1) by (intro less.hyps) auto
    ultimately show ?thesis using answering_step_later s2(3) by metis
  qed
qed

lemma retrying_answers: "answering_client (retrying p call)"
  by unfold_locales (simp add: retrying_def answers attempts_answer)

lemma guarded_answers: "answering_client (guarded factory codes call)"
proof
  fix r and s :: "'s client_state_scheme"
  from guarded_shape [of factory codes call r s]
  show "answering_step r (ws_log s) (fst (guarded factory codes call r s)) (ws_log (snd (guarded factory codes call r s)))"
  proof (elim disjE exE conjE)
    fix e s' assume "guarded factory codes call r s = (Inl e, s')" "quiet s s'"
    then show ?thesis by (simp add: quiet_def answering_step_def)
  next
    fix s1 s2
    assume "quiet s s1" "quiet (snd (call r s1)) s2" "guarded factory codes call r s = (fst (call r s1), s2)"
    with answers [of r s1] show ?thesis by (simp add: quiet_def)
  qed
qed

lemma send_to_answers: "instance_answered r {i} (ws_log s) (fst (send_to i r call s)) (ws_log (snd (send_to i r call s)))"
proof -
  obtain res s1 where c: "call (r\<lparr>ob_instance := Some i\<rparr>) s = (res, s1)" by fastforce
  from answers_call [OF c] c show ?thesis
    by (cases res) (auto simp: send_to_def bind_gw_def return_gw_def answering_step_def instance_answered_def)
qed

lemma order_answers:
  "instance_answered r (set order) (ws_log s) (fst (try_instances call r errors order s)) (ws_log (snd (try_instances call r errors order s)))"
proof (induction order arbitrary: errors s)
  case Nil
  then show ?case by (simp add: instance_answered_def)
next
  case (Cons i rest)
  obtain res s1 where c: "send_to i r call s = (res, s1)" by fastforce
  with send_to_answers [of r i s] have t: "instance_answered r {i} (ws_log s) res (ws_log s1)" by simp
  show ?case
  proof (cases res)
    case (Inr u)
    with c t show ?thesis by (auto simp: try_instances_Cons instance_answered_def)
  next
    case (Inl e)
    from t obtain evs where "ws_log s1 = ws_log s @ evs" by (auto simp: instance_answered_def)
    with Cons.IH [of s1 "errors @ [e]"]
    have "instance_answered r (set rest) (ws_log s @ evs) (fst (try_instances call r (errors @ [e]) rest s1))
         (ws_log (snd (try_instances call r (errors @ [e]) rest s1)))" by simp
    then have "instance_answered r (set (i # rest)) (ws_log s) (fst (try_instances call r (errors @ [e]) rest s1))
         (ws_log (snd (try_instances call r (errors @ [e]) rest s1)))"
      by (rule instance_answered_later) auto
    with Inl c t show ?thesis by (simp add: try_instances_Cons instance_answered_def)
  qed
qed

lemma balanced_answers:
  "instance_answered r (case ob_instance r of Some i \<Rightarrow> {i} | None \<Rightarrow> set (sd_instances (ob_service r)))
     (ws_log s) (fst (balanced call r s)) (ws_log (snd (balanced call r s)))"
proof (cases "ob_instance r")
  case (Some i)
  with send_to_answers show ?thesis by (simp add: balanced_def)
next
  case None
  obtain res s1 where c: "rotation (ob_service r) s = (res, s1)" by fastforce
  then have "quiet s s1" by (auto simp: rotation_def quiet_def Let_def split: if_splits)
  moreover have "set order = set (sd_instances (ob_service r))" if "res = Inr order" for order
  proof -
    let ?n = "case map_of (cs_turns s) (sd_name (ob_service r)) of None \<Rightarrow> 0 | Some n \<Rightarrow> n"
    have "order = drop ?n (sd_instances (ob_service r)) @ take ?n (sd_instances (ob_service r))"
      using c that by (auto simp: rotation_def Let_def split: if_splits)
    then show ?thesis by (simp only: turned_set)
  qed
  moreover have "balanced call r s = (case res of Inl e \<Rightarrow> (Inl e, s1) | Inr order \<Rightarrow> try_instances call r [] order s1)"
    using None c by (simp add: balanced_def bind_gw_def)
  ultimately show ?thesis
  proof (cases res)
    case (Inl e)
    with \<open>quiet s s1\<close> \<open>balanced call r s = _\<close> show ?thesis by (simp add: quiet_def instance_answered_def)
  next
    case (Inr order)
    with order_answers [of r order s1 "[]"] \<open>quiet s s1\<close> \<open>balanced call r s = _\<close> None
      \<open>\<And>order. res = Inr order \<Longrightarrow> set order = set (sd_instances (ob_service r))\<close> show ?thesis by (simp add: quiet_def)
  qed
qed

end

interpretation httpx_send_answers: answering_client httpx_send
proof
  fix r and s :: "'a client_state_scheme"
  show "answering_step r (ws_log s) (fst (httpx_send r s)) (ws_log (snd (httpx_send r s)))"
    by (cases "url r") (auto simp: httpx_send_def bind_gw_def lift_gw_def exchange_def Let_def answering_step_def answered_by_def
        http_call_of_def split: sum.splits)
qed

interpretation httpx_stream_answers: answering_client httpx_stream
proof
  fix r and s :: "'a client_state_scheme"
  show "answering_step r (ws_log s) (fst (httpx_stream r s)) (ws_log (snd (httpx_stream r s)))"
    by (cases "url r") (auto simp: httpx_stream_def bind_gw_def lift_gw_def exchange_def Let_def answering_step_def answered_by_def
        http_call_of_def split: sum.splits)
qed

interpretation sending_answers: answering_client "guarded factory codes (retrying p httpx_send)" for factory codes p
  by (rule answering_client.guarded_answers, rule answering_client.retrying_answers) (rule httpx_send_answers.answering_client_axioms)

interpretation streaming_answers: answering_client "guarded factory codes (retrying p httpx_stream)" for factory codes p
  by (rule answering_client.guarded_answers, rule answering_client.retrying_answers) (rule httpx_stream_answers.answering_client_axioms)

lemma resilient_answers:
  assumes "transport \<in> {httpx_send, httpx_stream}"
  shows "instance_answered r (case ob_instance r of Some i \<Rightarrow> {i} | None \<Rightarrow> set (sd_instances (ob_service r)))
     (ws_log s) (fst (resilient_client factory codes p transport r s)) (ws_log (snd (resilient_client factory codes p transport r s)))"
  using assms sending_answers.balanced_answers streaming_answers.balanced_answers by (auto simp: resilient_client_def)

section \<open>Errors say what failed\<close>

text \<open>The fourth contract. An error of the gateway's own is the translation of a failure that happened on the wire
  during the call, or says that a breaker is open, and then the call put nothing on the wire. Anything else is foreign:
  the cancellation of the task, or an exception of the library.\<close>

definition blamed :: "outbound_request \<Rightarrow> wire_event list \<Rightarrow> exn \<Rightarrow> bool" where
  "blamed r evs e \<longleftrightarrow> (\<exists>c f. Sent c (Inl f) \<in> set evs \<and> e = as_domain_error r f)"

definition shut_out :: "outbound_request \<Rightarrow> wire_event list \<Rightarrow> exn \<Rightarrow> bool" where
  "shut_out r evs e \<longleftrightarrow> evs = [] \<and> e = CircuitOpenError (sd_name (ob_service r))"

lemma as_domain_error_instance [simp]: "as_domain_error (r\<lparr>ob_instance := i\<rparr>) f = as_domain_error r f"
  by (cases f) simp_all

lemma blamed_instance [simp]: "blamed (r\<lparr>ob_instance := i\<rparr>) = blamed r" "shut_out (r\<lparr>ob_instance := i\<rparr>) = shut_out r"
  by (simp_all add: blamed_def shut_out_def fun_eq_iff)

lemma blamed_later: "blamed r xs e \<Longrightarrow> blamed r (xs @ ys) e" "blamed r ys e \<Longrightarrow> blamed r (xs @ ys) e"
  by (auto simp: blamed_def)

lemma blamed_not_open: "blamed r evs e \<Longrightarrow> \<not> is_circuit_open e"
proof -
  have "\<not> is_circuit_open (as_domain_error r f)" for f by (cases f) simp_all
  then show "blamed r evs e \<Longrightarrow> \<not> is_circuit_open e" by (auto simp: blamed_def)
qed

lemma foreign_not_upstream: "foreign e \<Longrightarrow> \<not> is_upstream_error e \<and> \<not> is_circuit_open e"
  by (cases e) auto

definition plain_step :: "outbound_request \<Rightarrow> wire_event list \<Rightarrow> exn + upstream_outcome \<Rightarrow> wire_event list \<Rightarrow> bool" where
  "plain_step r before res after \<longleftrightarrow>
     (\<exists>evs. after = before @ evs \<and> (case res of Inl e \<Rightarrow> blamed r evs e \<or> foreign e | Inr _ \<Rightarrow> True))"

definition explained_step :: "outbound_request \<Rightarrow> wire_event list \<Rightarrow> exn + upstream_outcome \<Rightarrow> wire_event list \<Rightarrow> bool" where
  "explained_step r before res after \<longleftrightarrow>
     (\<exists>evs. after = before @ evs \<and> (case res of Inl e \<Rightarrow> shut_out r evs e \<or> blamed r evs e \<or> foreign e | Inr _ \<Rightarrow> True))"

lemma plain_step_later: "plain_step r (before @ xs) res after \<Longrightarrow> plain_step r before res after"
  by (auto simp: plain_step_def blamed_later split: sum.splits)

text \<open>The layers under the breakers never refuse.\<close>

locale plain_client =
  fixes call :: "'s client"
  assumes plain: "plain_step r (ws_log s) (fst (call r s)) (ws_log (snd (call r s)))"
begin

lemma attempts_plain: "plain_step r (ws_log s) (fst (attempts p call r a s)) (ws_log (snd (attempts p call r a s)))"
proof (induction "nat (rp_max_attempts p - a)" arbitrary: a s rule: less_induct)
  case (less a s)
  obtain res s1 where c: "call r s = (res, s1)" by fastforce
  with plain [of r s] have t: "plain_step r (ws_log s) res (ws_log s1)" by simp
  then obtain evs where evs: "ws_log s1 = ws_log s @ evs" by (auto simp: plain_step_def)
  from attempts_shape [of call r s res s1 p a, OF c] show ?case
  proof (elim disjE exE conjE)
    assume "attempts p call r a s = (res, s1)"
    with t show ?thesis by simp
  next
    fix s2 pause e
    assume "ws_log s2 = ws_log s1 @ pause" "attempts p call r a s = (Inl e, s2)" "foreign e"
    with evs show ?thesis by (simp add: plain_step_def)
  next
    fix s2 pause
    assume s2: "a < rp_max_attempts p" "ws_log s2 = ws_log s1 @ pause" "attempts p call r a s = attempts p call r (a + 1) s2"
    have "plain_step r (ws_log s2) (fst (attempts p call r (a + 1) s2)) (ws_log (snd (attempts p call r (a + 1) s2)))"
      using s2(1) by (intro less.hyps) auto
    with s2 evs plain_step_later show ?thesis by (metis append.assoc)
  qed
qed

lemma retrying_plain: "plain_client (retrying p call)"
  by unfold_locales (simp add: retrying_def plain attempts_plain)

end

text \<open>What the errors collected so far say of what has happened on the wire so far.\<close>

definition collected :: "outbound_request \<Rightarrow> wire_event list \<Rightarrow> exn list \<Rightarrow> bool" where
  "collected r evs errors \<longleftrightarrow> (\<forall>e \<in> set errors. blamed r evs e \<and> is_upstream_error e \<or> e = CircuitOpenError (sd_name (ob_service r)))
     \<and> (evs = [] \<or> filter is_upstream_error errors \<noteq> [])"

lemma last_error_explained:
  assumes "collected r evs errors"
  shows "shut_out r evs (last_error errors) \<or> blamed r evs (last_error errors) \<or> foreign (last_error errors)"
proof (cases "filter is_upstream_error errors = []")
  case False
  then have "last (filter is_upstream_error errors) \<in> set (filter is_upstream_error errors)" by (rule last_in_set)
  with False assms show ?thesis by (auto simp: last_error_def collected_def)
next
  case True
  then have none: "e \<in> set errors \<Longrightarrow> \<not> is_upstream_error e" for e by (simp add: filter_empty_conv)
  show ?thesis
  proof (cases "errors = []")
    case False
    then have "last errors \<in> set errors" by (rule last_in_set)
    with none assms True False show ?thesis by (auto simp: last_error_def collected_def shut_out_def)
  qed (simp add: last_error_def)
qed

locale explaining_client =
  fixes call :: "'s client"
  assumes explains: "explained_step r (ws_log s) (fst (call r s)) (ws_log (snd (call r s)))"
begin

lemma send_to_explains: "explained_step r (ws_log s) (fst (send_to i r call s)) (ws_log (snd (send_to i r call s)))"
proof -
  obtain res s1 where c: "call (r\<lparr>ob_instance := Some i\<rparr>) s = (res, s1)" by fastforce
  with explains [of "r\<lparr>ob_instance := Some i\<rparr>" s] show ?thesis
    by (cases res) (auto simp: send_to_def bind_gw_def return_gw_def explained_step_def)
qed

lemma try_instances_explain:
  assumes "collected r evs errors"
  shows "\<exists>more. ws_log (snd (try_instances call r errors order s)) = ws_log s @ more
     \<and> (case fst (try_instances call r errors order s) of
          Inl e \<Rightarrow> shut_out r (evs @ more) e \<or> blamed r (evs @ more) e \<or> foreign e | Inr _ \<Rightarrow> True)"
  using assms
proof (induction order arbitrary: evs errors s)
  case Nil
  then show ?case using last_error_explained by simp
next
  case (Cons i rest)
  obtain res s1 where c: "send_to i r call s = (res, s1)" by fastforce
  with send_to_explains [of r s i] obtain now where now: "ws_log s1 = ws_log s @ now"
    "case res of Inl e \<Rightarrow> shut_out r now e \<or> blamed r now e \<or> foreign e | Inr _ \<Rightarrow> True" by (auto simp: explained_step_def)
  show ?case
  proof (cases "\<exists>e. res = Inl e \<and> passes_on r e")
    case True
    then obtain e where e: "res = Inl e" "passes_on r e" by blast
    then have "shut_out r now e \<or> blamed r now e \<and> is_upstream_error e"
      using now(2) foreign_not_upstream [of e] by (auto simp: passes_on_def dest: blamed_not_open)
    then have "collected r (evs @ now) (errors @ [e])"
      using Cons.prems by (auto simp: collected_def shut_out_def intro: blamed_later)
    from Cons.IH [OF this, of s1] obtain more where
      "ws_log (snd (try_instances call r (errors @ [e]) rest s1)) = ws_log s1 @ more"
      "case fst (try_instances call r (errors @ [e]) rest s1) of
         Inl e \<Rightarrow> shut_out r (evs @ now @ more) e \<or> blamed r (evs @ now @ more) e \<or> foreign e | Inr _ \<Rightarrow> True"
      unfolding append_assoc by blast
    with now(1) c e show ?thesis by (intro exI [of _ "now @ more"]) (simp add: try_instances_Cons)
  next
    case False
    show ?thesis
    proof (cases res)
      case (Inl e)
      with False now(2) have "blamed r (evs @ now) e \<or> foreign e" by (auto simp: passes_on_def shut_out_def intro: blamed_later)
      with Inl False c now(1) show ?thesis by (auto simp: try_instances_Cons)
    next
      case (Inr u)
      with c now(1) show ?thesis by (simp add: try_instances_Cons)
    qed
  qed
qed

lemma balanced_explains: "explaining_client (balanced call)"
proof
  fix r and s :: "'s client_state_scheme"
  show "explained_step r (ws_log s) (fst (balanced call r s)) (ws_log (snd (balanced call r s)))"
  proof (cases "ob_instance r")
    case (Some i)
    with send_to_explains show ?thesis by (simp add: balanced_def)
  next
    case None
    obtain res s1 where c: "rotation (ob_service r) s = (res, s1)" by fastforce
    then have "quiet s s1" "\<And>e. res = Inl e \<Longrightarrow> foreign e" by (auto simp: rotation_def quiet_def Let_def split: if_splits)
    moreover have "collected r [] []" by (simp add: collected_def)
    note try_instances_explain [OF this, of _ s1, unfolded append_Nil]
    ultimately show ?thesis using None c
      by (cases res) (simp_all add: balanced_def bind_gw_def quiet_def explained_step_def)
  qed
qed

end

lemma guarded_explains:
  fixes call :: "'s client"
  assumes "plain_client call" "\<And>e. factory = Inl e \<Longrightarrow> foreign e"
  shows "explaining_client (guarded factory codes call)"
proof
  fix r and s :: "'s client_state_scheme"
  from guarded_shape [of factory codes call r s]
  show "explained_step r (ws_log s) (fst (guarded factory codes call r s)) (ws_log (snd (guarded factory codes call r s)))"
  proof (elim disjE exE conjE)
    fix e s' assume "guarded factory codes call r s = (Inl e, s')" "quiet s s'" "refusal factory r e"
    with assms(2) show ?thesis by (auto simp: quiet_def explained_step_def refusal_def shut_out_def)
  next
    fix s1 s2
    assume "quiet s s1" "quiet (snd (call r s1)) s2" "guarded factory codes call r s = (fst (call r s1), s2)"
    with plain_client.plain [OF assms(1), of r s1] show ?thesis
      by (auto simp: quiet_def explained_step_def plain_step_def split: sum.splits)
  qed
qed

interpretation httpx_send_plain: plain_client httpx_send
proof
  fix r and s :: "'a client_state_scheme"
  show "plain_step r (ws_log s) (fst (httpx_send r s)) (ws_log (snd (httpx_send r s)))"
    by (cases "url r") (auto simp: httpx_send_def bind_gw_def lift_gw_def exchange_def Let_def plain_step_def blamed_def
        dest: url_raises split: sum.splits)
qed

interpretation httpx_stream_plain: plain_client httpx_stream
proof
  fix r and s :: "'a client_state_scheme"
  show "plain_step r (ws_log s) (fst (httpx_stream r s)) (ws_log (snd (httpx_stream r s)))"
    by (cases "url r") (auto simp: httpx_stream_def bind_gw_def lift_gw_def exchange_def Let_def plain_step_def blamed_def
        dest: url_raises split: sum.splits)
qed

interpretation sending_plain: plain_client "retrying p httpx_send" for p
  by (rule httpx_send_plain.retrying_plain)

interpretation streaming_plain: plain_client "retrying p httpx_stream" for p
  by (rule httpx_stream_plain.retrying_plain)

interpretation guarded_sending: explaining_client "guarded (Inr b) codes (retrying p httpx_send)" for b codes p
  by (rule guarded_explains [OF sending_plain.plain_client_axioms]) simp

interpretation guarded_streaming: explaining_client "guarded (Inr b) codes (retrying p httpx_stream)" for b codes p
  by (rule guarded_explains [OF streaming_plain.plain_client_axioms]) simp

lemma resilient_explains:
  assumes "transport \<in> {httpx_send, httpx_stream}" "factory = Inr b"
  shows "explained_step r (ws_log s) (fst (resilient_client factory codes p transport r s))
     (ws_log (snd (resilient_client factory codes p transport r s)))"
  using assms explaining_client.explains [OF guarded_sending.balanced_explains, of r s]
    explaining_client.explains [OF guarded_streaming.balanced_explains, of r s]
  by (auto simp: resilient_client_def)

section \<open>Examples\<close>

definition three_tries :: retry_policy where
  "three_tries = \<lparr>rp_max_attempts = 3, rp_base_delay = 100, rp_max_delay = 2000, rp_retry_on_status = {502, 503, 504}\<rparr>"

text \<open>A server that answers 503 once and 200 from then on, and one that refuses connections.\<close>

definition flaky_wire :: client_state where
  "flaky_wire = quiet_wire\<lparr>cs_turns := [], ws_reply := (\<lambda>evs c.
     Inr \<lparr>hr_status = if evs = [] then 503 else 200, hr_headers = [], hr_content = []\<rparr>)\<rparr>"

definition sample_post :: outbound_request where
  "sample_post = sample_get\<lparr>ob_method := ''POST''\<rparr>"

theorem unsafe_request_is_delivered_at_most_once_witness:
  "\<not> is_idempotent sample_post
   \<and> (\<exists>evs. ws_log (snd (resilient_client (new_breaker 5 30) {502} three_tries httpx_send sample_post quiet_wire)) = evs
        \<and> deliveries evs \<le> 1 \<and> calls evs \<le> 2)"
proof -
  have post: "\<not> is_idempotent sample_post" by code_simp
  have "\<exists>evs. ws_log (snd (resilient_client (new_breaker 5 30) {502} three_tries httpx_send sample_post quiet_wire)) = ws_log quiet_wire @ evs
     \<and> list_all (carries sample_post) evs
     \<and> (\<not> is_idempotent sample_post \<longrightarrow> deliveries evs \<le> 1 \<and> calls evs \<le> length (sd_instances (ob_service sample_post)))
     \<and> (is_idempotent sample_post \<longrightarrow> calls evs \<le> length (sd_instances (ob_service sample_post)) * nat (rp_max_attempts three_tries))"
    by (rule unsafe_request_is_delivered_at_most_once)
       (simp_all add: sample_post_def sample_get_def two_instances_def three_tries_def)
  with post show ?thesis
    by (auto simp: quiet_wire_def sample_post_def sample_get_def two_instances_def)
qed

theorem no_connection_leaks_witness:
  "names_ok (ws_log flaky_wire)
   \<and> (\<exists>res s'. resilient_client (new_breaker 5 30) {502} three_tries httpx_stream sample_get flaky_wire = (res, s')
        \<and> open_connections (ws_log s') = held res)"
proof -
  have ok: "names_ok (ws_log flaky_wire)" by (simp add: flaky_wire_def quiet_wire_def names_ok_def)
  obtain res s' where r: "resilient_client (new_breaker 5 30) {502} three_tries httpx_stream sample_get flaky_wire = (res, s')"
    by fastforce
  have "open_connections (ws_log flaky_wire) = {}" by (simp add: flaky_wire_def quiet_wire_def open_connections_def)
  with no_connection_leaks [OF _ ok r] ok r show ?thesis by auto
qed

end
