(* ===== verification/Api_Errors.thy ===== *)
theory Api_Errors
  imports Exceptions
begin

text \<open>
  \<^verbatim>\<open>api/errors.py\<close>: the HTTP status and the code of every error, and the body a client gets.

  The table is looked up along the class hierarchy of the exception, and the handler that runs is the
  one registered for the nearest class: \<^verbatim>\<open>ValueError\<close>, \<^verbatim>\<open>PaymentRequiredError\<close>, \<^verbatim>\<open>GatewayError\<close>, \<^verbatim>\<open>Exception\<close>.
  Cancellation derives from none of them and is not handled.
\<close>

fun classify :: "exn \<Rightarrow> int \<times> string" where
  "classify (ServiceNotFoundError _) = (404, ''service_not_found'')"
| "classify (RunNotFoundError _) = (404, ''run_not_found'')"
| "classify (IllegalTransitionError _ _) = (409, ''illegal_transition'')"
| "classify (InstanceNotFoundError _ _) = (404, ''instance_not_found'')"
| "classify ConsoleDisabledError = (404, ''console_disabled'')"
| "classify (NoProjectError _) = (409, ''no_project'')"
| "classify ProjectGoneError = (410, ''project_gone'')"
| "classify (UpstreamConnectionError _ _) = (502, ''bad_gateway'')"
| "classify (OrchestrationError _ _) = (502, ''upstream_failed'')"
| "classify (CircuitOpenError _) = (503, ''service_unavailable'')"
| "classify (UpstreamTimeoutError _ _) = (504, ''gateway_timeout'')"
| "classify (InsufficientFundsError _ _) = (402, ''insufficient_funds'')"
| "classify (InvoiceNotFoundError _) = (404, ''invoice_not_found'')"
| "classify (BillingError _) = (400, ''billing_error'')"
| "classify (UnknownProductError _) = (400, ''billing_error'')"
| "classify (SubscriptionContractError _) = (400, ''billing_error'')"
| "classify (X402Error _) = (400, ''invalid_payment'')"
| "classify (UnverifiableError _) = (501, ''not_implemented'')"
| "classify (IdentityError _) = (401, ''unauthorized'')"
| "classify (UpstreamError _ _ _) = (500, ''gateway_error'')"
| "classify (DuplicateServiceError _) = (500, ''gateway_error'')"
| "classify (PaymentRequiredError _) = (500, ''gateway_error'')"
| "classify _ = (500, ''internal_error'')"

record json_response =
  jr_status :: int
  jr_content :: json
  jr_headers :: "(string \<times> string) list"

definition authenticate :: "int \<Rightarrow> (string \<times> string) list" where
  "authenticate status = (if status = 401 then [(''WWW-Authenticate'', ''Bearer'')] else [])"

definition error_response :: "string option \<Rightarrow> int \<Rightarrow> string \<Rightarrow> string \<Rightarrow> json_response" where
  "error_response request_id status code message =
     \<lparr>jr_status = status,
      jr_content = JObj [(''error'', JObj [(''code'', JStr code), (''message'', JStr message),
        (''request_id'', case request_id of None \<Rightarrow> JNull | Some i \<Rightarrow> JStr i)])],
      jr_headers = authenticate status\<rparr>"

definition handle_gateway_error :: "string option \<Rightarrow> exn \<Rightarrow> json_response" where
  "handle_gateway_error rid e = error_response rid (fst (classify e)) (snd (classify e)) (str_exn e)"

definition handle_unexpected_error :: "string option \<Rightarrow> exn \<Rightarrow> json_response" where
  "handle_unexpected_error rid e = error_response rid 500 ''internal_error'' ''Internal server error''"

definition handle_bad_request :: "string option \<Rightarrow> exn \<Rightarrow> json_response" where
  "handle_bad_request rid e = error_response rid 400 ''bad_request'' (str_exn e)"

definition handle_payment_required :: "json \<Rightarrow> json_response" where
  "handle_payment_required doc = \<lparr>jr_status = 402, jr_content = doc, jr_headers = []\<rparr>"

text \<open>\<^verbatim>\<open>register_error_handlers\<close>: which handler answers.\<close>

fun is_value_error :: "exn \<Rightarrow> bool" where
  "is_value_error (ValueError _) = True"
| "is_value_error _ = False"

definition handled :: "string option \<Rightarrow> exn \<Rightarrow> json_response option" where
  "handled rid e =
     (if is_value_error e then Some (handle_bad_request rid e)
      else case e of
        PaymentRequiredError doc \<Rightarrow> Some (handle_payment_required doc)
      | _ \<Rightarrow>
          if is_gateway_error e then Some (handle_gateway_error rid e)
          else if is_exception e then Some (handle_unexpected_error rid e)
          else None)"

text \<open>An exception that is neither the gateway's own nor a rejected value is answered with the same words whatever it says.\<close>

lemma foreign_error_says_nothing:
  assumes "\<not> is_gateway_error e" "\<not> is_value_error e"
  shows "handled rid e =
    (if is_exception e then Some (error_response rid 500 ''internal_error'' ''Internal server error'') else None)"
  using assms by (cases e) (simp_all add: handled_def handle_unexpected_error_def)

end
