(* ===== verification/Proxy_Service.thy ===== *)
theory Proxy_Service
  imports Resilience Header_Policy
begin

text \<open>
  \<^verbatim>\<open>application/proxy_service.py\<close> and \<^verbatim>\<open>application/health_service.py\<close>, over a registry and a client.

  \<^verbatim>\<open>asyncio.gather\<close> runs the health checks of all instances at once and returns their results in the order
  they were given; a check touches nothing of the gateway's, so here they run one after the other.
  Time is an integer in some unit and the latency is the difference of two readings.
\<close>

section \<open>Forwarding\<close>

definition outbound :: "registry \<Rightarrow> string \<Rightarrow> inbound_request \<Rightarrow> string option \<Rightarrow> exn + outbound_request" where
  "outbound registry service_name inbound instance_id =
     (case registry_get registry service_name of
        Inl e \<Rightarrow> Inl e
      | Inr service \<Rightarrow>
          (case (case instance_id of
                   None \<Rightarrow> Inr None
                 | Some i \<Rightarrow> map_sum id Some (service_instance_named service i)) of
             Inl e \<Rightarrow> Inl e
           | Inr chosen \<Rightarrow>
               Inr \<lparr>ob_service = service, ob_method = in_method inbound, ob_path = in_path inbound,
                    ob_headers = for_upstream inbound (sd_headers service), ob_query_params = in_query_params inbound,
                    ob_body = in_body inbound, ob_instance = chosen\<rparr>))"

text \<open>\<^verbatim>\<open>forward\<close> and \<^verbatim>\<open>stream\<close> differ in the method of the client they call.\<close>

definition proxied :: "registry \<Rightarrow> 's client \<Rightarrow> string \<Rightarrow> inbound_request \<Rightarrow> string option
    \<Rightarrow> ('s client_state_scheme, exn, upstream_outcome) gw" where
  "proxied registry call service_name inbound instance_id =
     bind_gw (lift_gw (outbound registry service_name inbound instance_id)) (\<lambda>r.
     bind_gw (call r) (\<lambda>response.
     return_gw (response\<lparr>uo_headers := for_client (uo_headers response)\<rparr>)))"

section \<open>Health\<close>

definition health_request :: "service_definition \<Rightarrow> service_instance \<Rightarrow> outbound_request" where
  "health_request service i =
     \<lparr>ob_service = service, ob_method = ''GET'', ob_path = sd_health_path service, ob_headers = sd_headers service,
      ob_query_params = [], ob_body = [], ob_instance = Some i\<rparr>"

text \<open>\<^verbatim>\<open>try: response = await call(request) except UpstreamError\<close>, as a value.\<close>

definition attempt :: "'s client \<Rightarrow> outbound_request \<Rightarrow> ('s client_state_scheme, exn, exn + upstream_outcome) gw" where
  "attempt call r =
     catch_gw (bind_gw (call r) (\<lambda>response. return_gw (Inr response)))
       (\<lambda>e. if is_upstream_error e then return_gw (Inl e) else raise_gw e)"

definition check_instance :: "'s client \<Rightarrow> service_definition \<Rightarrow> service_instance \<Rightarrow> ('s client_state_scheme, exn, instance_health) gw" where
  "check_instance call service i =
     bind_gw read_clock (\<lambda>started.
     bind_gw (attempt call (health_request service i)) (\<lambda>result.
       case result of
         Inl e \<Rightarrow> return_gw \<lparr>ih_id = si_id i, ih_status = DOWN, ih_latency = None, ih_detail = Some (str_exn e)\<rparr>
       | Inr response \<Rightarrow>
           bind_gw (aclose response) (\<lambda>_.
           bind_gw read_clock (\<lambda>now.
             return_gw
               (if 200 \<le> uo_status response \<and> uo_status response < 300
                then \<lparr>ih_id = si_id i, ih_status = UP, ih_latency = Some (now - started), ih_detail = None\<rparr>
                else \<lparr>ih_id = si_id i, ih_status = DOWN, ih_latency = Some (now - started),
                      ih_detail = Some (''Unexpected status code '' @ show_int (uo_status response))\<rparr>)))))"

fun gather :: "('a \<Rightarrow> ('s, 'e, 'b) gw) \<Rightarrow> 'a list \<Rightarrow> ('s, 'e, 'b list) gw" where
  "gather f [] = return_gw []"
| "gather f (x # xs) = bind_gw (f x) (\<lambda>y. bind_gw (gather f xs) (\<lambda>ys. return_gw (y # ys)))"

definition check :: "'s client \<Rightarrow> service_definition \<Rightarrow> ('s client_state_scheme, exn, service_health) gw" where
  "check call service =
     bind_gw (gather (check_instance call service) (sd_instances service)) (\<lambda>results.
     return_gw \<lparr>sh_name = sd_name service, sh_instances = results\<rparr>)"

definition check_all :: "registry \<Rightarrow> 's client \<Rightarrow> ('s client_state_scheme, exn, service_health list) gw" where
  "check_all registry call = gather (check call) (registry_all registry)"

section \<open>What reaches the wire\<close>

lemma outbound_cases:
  assumes "outbound registry name inbound inst = Inr r"
  obtains service where "registry_get registry name = Inr service" "ob_service r = service"
    "ob_headers r = for_upstream inbound (sd_headers service)" "ob_method r = in_method inbound" "ob_body r = in_body inbound"
    "ob_query_params r = in_query_params inbound"
  using assms by (auto simp: outbound_def split: sum.splits option.splits)

lemma proxied_shape:
  "(\<exists>e. outbound registry name inbound inst = Inl e \<and> proxied registry call name inbound inst s = (Inl e, s))
   \<or> (\<exists>r s'. outbound registry name inbound inst = Inr r \<and> s' = snd (call r s) \<and>
        proxied registry call name inbound inst s =
          (map_sum id (\<lambda>u. u\<lparr>uo_headers := for_client (uo_headers u)\<rparr>) (fst (call r s)), s'))"
  by (cases "outbound registry name inbound inst")
     (auto simp: proxied_def bind_gw_def lift_gw_def return_gw_def split: prod.splits sum.splits)

text \<open>What a response of the proxy owes to the wire: it is the reply of an instance of the service, its status as it
  came, its headers those the policy lets through.\<close>

definition relayed_from :: "registry \<Rightarrow> string \<Rightarrow> inbound_request \<Rightarrow> string option \<Rightarrow> wire_event list \<Rightarrow> upstream_outcome
    \<Rightarrow> service_instance \<Rightarrow> http_response \<Rightarrow> bool" where
  "relayed_from registry name inbound inst evs u i resp \<longleftrightarrow>
     (\<exists>r c pre. evs = pre @ [Sent c (Inr resp)] \<and> outbound registry name inbound inst = Inr r
        \<and> i \<in> set (sd_instances (ob_service r)) \<and> (inst = None \<or> inst = Some (si_id i)) \<and> url (r\<lparr>ob_instance := Some i\<rparr>) = Inr (hc_url c)
        \<and> uo_instance_id u = Some (si_id i) \<and> uo_status u = hr_status resp \<and> uo_headers u = for_client (hr_headers resp))"

lemma named_instance: "service_instance_named service k = Inr i \<Longrightarrow> i \<in> set (sd_instances service) \<and> si_id i = k"
  by (auto simp: service_instance_named_def find_Some_iff split: option.splits)

lemma proxied_relays:
  assumes "transport \<in> {httpx_send, httpx_stream}"
    and "proxied registry (resilient_client factory codes p transport) name inbound inst s = (Inr u, s')"
  shows "\<exists>evs i resp. ws_log s' = ws_log s @ evs \<and> relayed_from registry name inbound inst evs u i resp"
proof -
  let ?call = "resilient_client factory codes p transport"
  obtain r where out: "outbound registry name inbound inst = Inr r"
    using assms(2) by (cases "outbound registry name inbound inst") (auto simp: proxied_def bind_gw_def lift_gw_def)
  obtain res s1 where call: "?call r s = (res, s1)" by fastforce
  with assms(2) out obtain u0 where "res = Inr u0" "s1 = s'" "u = u0\<lparr>uo_headers := for_client (uo_headers u0)\<rparr>"
    by (cases res) (auto simp: proxied_def bind_gw_def lift_gw_def return_gw_def)
  with out call have r: "outbound registry name inbound inst = Inr r" "?call r s = (Inr u0, s')"
    "u = u0\<lparr>uo_headers := for_client (uo_headers u0)\<rparr>" by simp_all
  let ?c = "case ob_instance r of Some i \<Rightarrow> {i} | None \<Rightarrow> set (sd_instances (ob_service r))"
  from resilient_answers [OF assms(1), of r s factory codes p] r(2)
  obtain evs i where evs: "ws_log s' = ws_log s @ evs" "i \<in> ?c"
    "uo_instance_id u0 = Some (si_id i)" "answered_by (r\<lparr>ob_instance := Some i\<rparr>) u0 evs"
    by (auto simp: instance_answered_def)
  have "i \<in> set (sd_instances (ob_service r)) \<and> (inst = None \<or> inst = Some (si_id i))"
    using r(1) evs(2) by (cases inst) (auto simp: outbound_def map_sum_def dest!: named_instance split: sum.splits)
  with evs r show ?thesis by (auto simp: relayed_from_def answered_by_def)
qed

text \<open>What a client's request becomes on the wire. Every call the gateway makes for it, whatever the
  retries and the failovers, has the client's method, query and body and exactly the headers the policy
  computed, the credentials of the service among them; a request that may not be repeated is
  delivered at most once; a name that is not registered puts nothing on the wire; and what comes back is
  the last reply on the wire, with the response headers the policy lets through.\<close>

theorem proxied_request_on_the_wire:
  fixes s :: "'s client_state_scheme"
  assumes "transport \<in> {httpx_send, httpx_stream}"
    and "proxied registry (resilient_client factory codes p transport) name inbound inst s = (res, s')"
  shows "\<exists>evs. ws_log s' = ws_log s @ evs
     \<and> (\<forall>c reply. Sent c reply \<in> set evs \<longrightarrow> (\<exists>service. registry_get registry name = Inr service
          \<and> hc_headers c = for_upstream inbound (sd_headers service) \<and> hc_method c = in_method inbound
          \<and> hc_params c = in_query_params inbound \<and> hc_content c = in_body inbound))
     \<and> (upper (in_method inbound) \<notin> set IDEMPOTENT_METHODS \<longrightarrow> deliveries evs \<le> 1)
     \<and> (\<forall>e. registry_get registry name = Inl e \<longrightarrow> evs = [] \<and> res = Inl e)
     \<and> (\<forall>u. res = Inr u \<longrightarrow> (\<exists>i resp. relayed_from registry name inbound inst evs u i resp))"
proof (cases "outbound registry name inbound inst")
  case (Inl e)
  with assms(2) show ?thesis by (auto simp: proxied_def bind_gw_def lift_gw_def outbound_def split: sum.splits)
next
  case (Inr r)
  then obtain service where sv: "registry_get registry name = Inr service"
    "ob_headers r = for_upstream inbound (sd_headers service)" "ob_method r = in_method inbound" "ob_body r = in_body inbound"
    "ob_query_params r = in_query_params inbound" by (rule outbound_cases) auto
  let ?call = "resilient_client factory codes p transport"
  from Inr assms(2) proxied_shape [of registry name inbound inst ?call s] have s': "s' = snd (?call r s)" by auto
  from assms(1) sending.careful [of factory codes p r s] streaming.careful [of factory codes p r s]
  obtain evs where evs: "ws_log s' = ws_log s @ evs" "list_all (carries r) evs"
    "\<not> is_idempotent r \<longrightarrow> deliveries evs \<le> 1" by (auto simp: careful_trace_def s')
  have relayed: "\<exists>i resp. relayed_from registry name inbound inst evs u i resp" if "res = Inr u" for u
    using proxied_relays [OF assms(1)] assms(2) evs(1) that by fastforce
  have wire: "hc_headers c = for_upstream inbound (sd_headers service) \<and> hc_method c = in_method inbound
      \<and> hc_params c = in_query_params inbound \<and> hc_content c = in_body inbound" if "Sent c reply \<in> set evs" for c reply
    using evs(2) that sv by (auto simp: list_all_iff)
  show ?thesis
    by (rule exI [of _ evs]) (use evs relayed wire sv in \<open>auto simp: is_idempotent_def\<close>)
qed

definition sample_registry :: registry where
  "sample_registry = [(''mirag'', two_instances)]"

theorem proxied_request_on_the_wire_witness:
  "\<exists>res s' evs. proxied sample_registry (resilient_client (new_breaker 5 30) {502} three_tries httpx_send) ''mirag'' sample_inbound None flaky_wire = (res, s')
     \<and> ws_log s' = evs \<and> (\<forall>c reply. Sent c reply \<in> set evs \<longrightarrow> hc_headers c = for_upstream sample_inbound [])"
proof -
  obtain res s' where r: "proxied sample_registry (resilient_client (new_breaker 5 30) {502} three_tries httpx_send) ''mirag'' sample_inbound None flaky_wire = (res, s')"
    by fastforce
  have "ws_log flaky_wire = []" by (simp add: flaky_wire_def quiet_wire_def)
  moreover have "registry_get sample_registry ''mirag'' = Inr two_instances" "sd_headers two_instances = []"
    by (simp_all add: registry_get_def sample_registry_def two_instances_def)
  ultimately show ?thesis using proxied_request_on_the_wire [OF _ r] r by fastforce
qed

section \<open>What a health report says\<close>

text \<open>A step of a gathering puts events on the wire and says something of them, be it its value or its exception; then
  so does the whole, one step after the other, and it raises only what a step raised.\<close>

lemma gather_wire:
  assumes "\<And>x s res s'. f x s = (res, s') \<Longrightarrow> \<exists>evs. ws_log s' = ws_log s @ evs \<and> (case res of Inr y \<Rightarrow> R x y evs | Inl e \<Rightarrow> E x e evs)"
  shows "gather f xs s = (res, s') \<Longrightarrow> \<exists>evss. ws_log s' = ws_log s @ concat evss
     \<and> (case res of
          Inr ys \<Rightarrow> length ys = length xs \<and> length evss = length xs \<and> (\<forall>k < length xs. R (xs ! k) (ys ! k) (evss ! k))
        | Inl e \<Rightarrow> \<exists>x \<in> set xs. \<exists>evs \<in> set evss. E x e evs)"
proof (induction xs arbitrary: s res s')
  case Nil
  then show ?case by (auto simp: return_gw_def intro: exI [of _ "[]"])
next
  case (Cons x xs)
  obtain r1 s1 where 1: "f x s = (r1, s1)" by fastforce
  from assms [OF 1] obtain evs where evs: "ws_log s1 = ws_log s @ evs" "case r1 of Inr y \<Rightarrow> R x y evs | Inl e \<Rightarrow> E x e evs" by blast
  show ?case
  proof (cases r1)
    case (Inl e)
    with 1 Cons.prems evs show ?thesis by (intro exI [of _ "[evs]"]) (auto simp: bind_gw_def)
  next
    case (Inr y)
    obtain r2 s2 where 2: "gather f xs s1 = (r2, s2)" by fastforce
    from Cons.IH [OF 2] obtain evss where evss: "ws_log s2 = ws_log s1 @ concat evss"
      "case r2 of Inr ys \<Rightarrow> length ys = length xs \<and> length evss = length xs \<and> (\<forall>k < length xs. R (xs ! k) (ys ! k) (evss ! k))
        | Inl e \<Rightarrow> \<exists>x \<in> set xs. \<exists>evs \<in> set evss. E x e evs" by blast
    have "res = map_sum id ((#) y) r2" "s' = s2"
      using Cons.prems 1 2 Inr by (auto simp: bind_gw_def return_gw_def split: sum.splits)
    with evs evss Inr show ?thesis
      by (intro exI [of _ "evs # evss"]) (cases r2; auto simp: nth_Cons split: nat.splits)
  qed
qed

text \<open>The one exchange a check makes, and what its answer says.\<close>

definition instance_checked :: "service_definition \<Rightarrow> service_instance \<Rightarrow> instance_health \<Rightarrow> wire_event \<Rightarrow> bool" where
  "instance_checked service i h ev \<longleftrightarrow> ih_id h = si_id i
     \<and> (\<exists>u reply. url (health_request service i) = Inr u \<and> ev = Sent (http_call_of False (health_request service i) u) reply
          \<and> (ih_status h = UP \<longleftrightarrow> (\<exists>resp. reply = Inr resp \<and> 200 \<le> hr_status resp \<and> hr_status resp < 300)))"

definition service_checked :: "service_definition \<Rightarrow> service_health \<Rightarrow> wire_event list \<Rightarrow> bool" where
  "service_checked service h evs \<longleftrightarrow> sh_name h = sd_name service
     \<and> length (sh_instances h) = length (sd_instances service) \<and> length evs = length (sd_instances service)
     \<and> (\<forall>k < length (sd_instances service). instance_checked service (sd_instances service ! k) (sh_instances h ! k) (evs ! k))"

text \<open>An exchange that ends with an exception the client does not translate: the task is cancelled, or httpx raises what is
  not a transport failure, as for a body it cannot decode.\<close>

fun is_untranslated :: "http_failure \<Rightarrow> bool" where
  "is_untranslated Cancelled = True"
| "is_untranslated (OtherFailure _) = True"
| "is_untranslated _ = False"

definition instance_raised :: "service_definition \<Rightarrow> service_instance \<Rightarrow> exn \<Rightarrow> wire_event \<Rightarrow> bool" where
  "instance_raised service i e ev \<longleftrightarrow>
     (\<exists>u f. url (health_request service i) = Inr u \<and> ev = Sent (http_call_of False (health_request service i) u) (Inl f)
        \<and> is_untranslated f \<and> e = untranslated f)"

lemma domain_error_cases: "if is_untranslated f then as_domain_error r f = untranslated f else is_upstream_error (as_domain_error r f)"
  by (cases f) auto

lemma check_instance_wire:
  assumes "check_instance httpx_send service i s = (res, s')"
  shows "\<exists>ev. ws_log s' = ws_log s @ [ev] \<and> (case res of Inr h \<Rightarrow> instance_checked service i h ev | Inl e \<Rightarrow> instance_raised service i e ev)"
proof -
  let ?r = "health_request service i"
  obtain u where u: "url ?r = Inr u"
    by (simp add: url_def resolved_instance_def health_request_def)
  let ?reply = "ws_reply s (ws_log s) (http_call_of False ?r u)"
  show ?thesis
  proof (cases ?reply)
    case (Inl f)
    with u assms domain_error_cases [of f ?r] show ?thesis
      by (auto simp: check_instance_def attempt_def httpx_send_def exchange_def bind_gw_def catch_gw_def return_gw_def raise_gw_def
          lift_gw_def read_clock_def instance_checked_def instance_raised_def split: if_splits)
  next
    case (Inr resp)
    with u assms show ?thesis
      by (auto simp: check_instance_def attempt_def httpx_send_def exchange_def bind_gw_def catch_gw_def return_gw_def
          lift_gw_def read_clock_def aclose_def instance_checked_def)
  qed
qed

lemma concat_singletons:
  "length evss = length xs \<Longrightarrow> \<forall>k < length xs. \<exists>ev. evss ! k = [ev] \<and> R k ev \<Longrightarrow>
   length (concat evss) = length xs \<and> (\<forall>k < length xs. R k (concat evss ! k))"
proof (induction xs arbitrary: evss R)
  case Nil
  then show ?case by simp
next
  case (Cons x xs)
  then obtain evs rest where c: "evss = evs # rest" by (cases evss) auto
  with Cons.prems obtain ev where e: "evss = [ev] # rest" "length rest = length xs" "R 0 ev" by fastforce
  have "\<forall>k < length xs. \<exists>ev. rest ! k = [ev] \<and> R (Suc k) ev" using Cons.prems(2) e(1) by auto
  from Cons.IH [OF e(2) this] e show ?case by (auto simp: nth_Cons split: nat.splits)
qed

lemma check_wire:
  assumes "check httpx_send service s = (res, s')"
  shows "\<exists>evs. ws_log s' = ws_log s @ evs
     \<and> (case res of Inr h \<Rightarrow> service_checked service h evs
        | Inl e \<Rightarrow> \<exists>i \<in> set (sd_instances service). \<exists>ev \<in> set evs. instance_raised service i e ev)"
proof -
  obtain r where g: "gather (check_instance httpx_send service) (sd_instances service) s = (r, s')"
    "res = map_sum id (\<lambda>results. \<lparr>sh_name = sd_name service, sh_instances = results\<rparr>) r"
    using assms by (auto simp: check_def bind_gw_def return_gw_def split: prod.splits sum.splits)
  have "\<exists>evs. ws_log s1 = ws_log s0 @ evs \<and> (case x of Inr h \<Rightarrow> \<exists>ev. evs = [ev] \<and> instance_checked service i h ev
      | Inl e \<Rightarrow> \<exists>ev. evs = [ev] \<and> instance_raised service i e ev)" if "check_instance httpx_send service i s0 = (x, s1)" for i s0 x s1
    using check_instance_wire [OF that] by (auto split: sum.splits)
  from gather_wire [where R = "\<lambda>i h evs. \<exists>ev. evs = [ev] \<and> instance_checked service i h ev"
      and E = "\<lambda>i e evs. \<exists>ev. evs = [ev] \<and> instance_raised service i e ev", OF this g(1)]
  obtain evss where evss: "ws_log s' = ws_log s @ concat evss"
    "case r of Inr hs \<Rightarrow> length hs = length (sd_instances service) \<and> length evss = length (sd_instances service)
        \<and> (\<forall>k < length (sd_instances service). \<exists>ev. evss ! k = [ev] \<and> instance_checked service (sd_instances service ! k) (hs ! k) ev)
      | Inl e \<Rightarrow> \<exists>i \<in> set (sd_instances service). \<exists>evs \<in> set evss. \<exists>ev. evs = [ev] \<and> instance_raised service i e ev" by auto
  show ?thesis
  proof (cases r)
    case (Inl e)
    with evss g(2) show ?thesis by (intro exI [of _ "concat evss"]) (simp, force)
  next
    case (Inr hs)
    with evss(2) have "length (concat evss) = length (sd_instances service)
        \<and> (\<forall>k < length (sd_instances service). instance_checked service (sd_instances service ! k) (hs ! k) (concat evss ! k))"
      by (intro concat_singletons) auto
    with Inr evss g(2) show ?thesis by (intro exI [of _ "concat evss"]) (simp add: service_checked_def)
  qed
qed

text \<open>C27. The health report is complete and true. A report has every service of the registry and every instance of it, in
  order and by name; each instance was asked once, at its own health path, and is UP exactly when it answered with a
  2xx. A server that cannot be reached, or is too slow, never costs the report of the others; only an exchange
  that the client does not translate does (the task is cancelled, or httpx raises what is not a transport failure, such as
  a body it cannot decode), and then that exception is the answer to the whole report.\<close>

theorem health_report_is_complete_and_true:
  assumes "check_all registry httpx_send s = (res, s')"
  shows "\<exists>evss. ws_log s' = ws_log s @ concat evss
     \<and> (case res of
          Inr report \<Rightarrow> length report = length (registry_all registry) \<and> length evss = length (registry_all registry)
            \<and> (\<forall>k < length (registry_all registry). service_checked (registry_all registry ! k) (report ! k) (evss ! k))
        | Inl e \<Rightarrow> \<exists>service \<in> set (registry_all registry). \<exists>i \<in> set (sd_instances service). \<exists>ev \<in> set (concat evss). instance_raised service i e ev)"
proof -
  from gather_wire [where R = service_checked
      and E = "\<lambda>service e evs. \<exists>i \<in> set (sd_instances service). \<exists>ev \<in> set evs. instance_raised service i e ev",
      OF check_wire assms [unfolded check_all_def]]
  obtain evss where evss: "ws_log s' = ws_log s @ concat evss"
    "case res of
       Inr report \<Rightarrow> length report = length (registry_all registry) \<and> length evss = length (registry_all registry)
         \<and> (\<forall>k < length (registry_all registry). service_checked (registry_all registry ! k) (report ! k) (evss ! k))
     | Inl e \<Rightarrow> \<exists>service \<in> set (registry_all registry). \<exists>evs \<in> set evss. \<exists>i \<in> set (sd_instances service). \<exists>ev \<in> set evs. instance_raised service i e ev"
    by auto
  then show ?thesis by (intro exI [of _ evss]) (cases res; auto)
qed

text \<open>One server refuses connections, the other sends a body that cannot be decoded.\<close>

definition garbled_wire :: client_state where
  "garbled_wire = quiet_wire\<lparr>ws_reply := (\<lambda>evs c. if evs = [] then Inl ConnectError else Inl (OtherFailure ''DecodingError''))\<rparr>"

theorem health_report_is_complete_and_true_witness:
  "(\<exists>report s'. check_all sample_registry httpx_send quiet_wire = (Inr report, s') \<and> length report = 1)
   \<and> (\<exists>e s' ev. check_all sample_registry httpx_send garbled_wire = (Inl e, s') \<and> ev \<in> set (ws_log s')
        \<and> (\<exists>i. instance_raised two_instances i e ev))"
proof -
  obtain report s1 where r: "check_all sample_registry httpx_send quiet_wire = (Inr report, s1)"
  proof -
    have "(case fst (check_all sample_registry httpx_send quiet_wire) of Inr _ \<Rightarrow> True | Inl _ \<Rightarrow> False)" by code_simp
    then show ?thesis using that by (cases "check_all sample_registry httpx_send quiet_wire") (auto split: sum.splits)
  qed
  obtain e s2 where e: "check_all sample_registry httpx_send garbled_wire = (Inl e, s2)"
  proof -
    have "(case fst (check_all sample_registry httpx_send garbled_wire) of Inl _ \<Rightarrow> True | Inr _ \<Rightarrow> False)" by code_simp
    then show ?thesis using that by (cases "check_all sample_registry httpx_send garbled_wire") (auto split: sum.splits)
  qed
  have one: "registry_all sample_registry = [two_instances]" by (simp add: registry_all_def sample_registry_def)
  have log: "ws_log garbled_wire = []" by (simp add: garbled_wire_def quiet_wire_def)
  from health_report_is_complete_and_true [OF r] r one have "length report = 1" by auto
  moreover from health_report_is_complete_and_true [OF e] one log obtain i ev where "ev \<in> set (ws_log s2)" "instance_raised two_instances i e ev"
    by (auto simp del: set_concat)
  ultimately show ?thesis using r e by blast
qed

end
