(* ===== verification/Base64.thy ===== *)
theory Base64
  imports Json_Values
begin

text \<open>
  Base64, as Python's library has it: \<open>a2b\<close> is \<^verbatim>\<open>binascii.a2b_base64\<close>, which skips characters outside the
  alphabet unless the mode is strict and ends at a padding that completes a group. Decoding undoes
  encoding.
\<close>

section \<open>Base64\<close>

definition b64_char :: "bool \<Rightarrow> nat \<Rightarrow> char" where
  "b64_char urlsafe n =
     (if n < 26 then char_of (65 + n) else if n < 52 then char_of (71 + n) else if n < 62 then char_of (n - 4)
      else if n = 62 then (if urlsafe then CHR ''-'' else CHR ''+'') else (if urlsafe then CHR ''_'' else CHR ''/''))"

fun b64_digits :: "nat list \<Rightarrow> nat list" where
  "b64_digits (a # b # c # rest) =
     a div 4 # (a mod 4 * 16 + b div 16) # (b mod 16 * 4 + c div 64) # c mod 64 # b64_digits rest"
| "b64_digits [a, b] = [a div 4, a mod 4 * 16 + b div 16, b mod 16 * 4]"
| "b64_digits [a] = [a div 4, a mod 4 * 16]"
| "b64_digits [] = []"

text \<open>\<^verbatim>\<open>"=" * (-len(text) % 4)\<close>.\<close>

definition b64_padding :: "nat \<Rightarrow> string" where
  "b64_padding n = replicate (nat (- int n mod 4)) (CHR ''='')"

definition b64encode :: "bool \<Rightarrow> string \<Rightarrow> string" where
  "b64encode urlsafe bs =
     (let ds = map (b64_char urlsafe) (b64_digits (map byte bs)) in ds @ b64_padding (length ds))"

definition b64_value :: "bool \<Rightarrow> char \<Rightarrow> nat option" where
  "b64_value urlsafe c =
     (let n = byte c
      in if 65 \<le> n \<and> n \<le> 90 then Some (n - 65) else if 97 \<le> n \<and> n \<le> 122 then Some (n - 71)
         else if 48 \<le> n \<and> n \<le> 57 then Some (n + 4)
         else if c = CHR ''+'' \<or> (urlsafe \<and> c = CHR ''-'') then Some 62
         else if c = CHR ''/'' \<or> (urlsafe \<and> c = CHR ''_'') then Some 63 else None)"

text \<open>The position in the group, the bits left over, the padding seen since the last digit, and whether any
  padding was seen.\<close>

fun a2b :: "bool \<Rightarrow> bool \<Rightarrow> nat \<Rightarrow> nat \<Rightarrow> nat \<Rightarrow> bool \<Rightarrow> string \<Rightarrow> string option" where
  "a2b urlsafe strict quad left pads started [] = (if quad = 0 then Some [] else None)"
| "a2b urlsafe strict quad left pads started (c # cs) =
     (if c = CHR ''='' then
        (if 2 \<le> quad \<and> 4 \<le> quad + pads + 1 then (if strict \<and> cs \<noteq> [] then None else Some [])
         else a2b urlsafe strict quad left (if 2 \<le> quad then pads + 1 else pads) True cs)
      else case b64_value urlsafe c of
        None \<Rightarrow> if strict then None else a2b urlsafe strict quad left pads started cs
      | Some d \<Rightarrow>
          if strict \<and> started then None
          else if quad = 0 then a2b urlsafe strict 1 d 0 started cs
          else if quad = 1 then map_option ((#) (char_of (left * 4 + d div 16))) (a2b urlsafe strict 2 (d mod 16) 0 started cs)
          else if quad = 2 then map_option ((#) (char_of (left * 16 + d div 4))) (a2b urlsafe strict 3 (d mod 4) 0 started cs)
          else map_option ((#) (char_of (left * 64 + d))) (a2b urlsafe strict 0 0 0 started cs))"

text \<open>\<^verbatim>\<open>base64.urlsafe_b64decode(text)\<close> and \<^verbatim>\<open>base64.b64decode(text, validate=True)\<close>: text that is not ASCII is
  refused, and so is leading padding in strict mode.\<close>

definition b64decode :: "bool \<Rightarrow> bool \<Rightarrow> string \<Rightarrow> string option" where
  "b64decode urlsafe strict s =
     (if list_ex (\<lambda>c. 128 \<le> byte c) s then None
      else if strict \<and> s \<noteq> [] \<and> hd s = CHR ''='' then None
      else a2b urlsafe strict 0 0 0 False s)"

lemma b64_value_char: "n < 64 \<Longrightarrow> b64_value urlsafe (b64_char urlsafe n) = Some n"
proof -
  have "\<forall>n \<in> {..<64}. b64_value u (b64_char u n) = Some n" for u
    by (cases u) (simp_all add: lessThan_nat_numeral lessThan_Suc b64_value_def b64_char_def byte_def)
  then show "n < 64 \<Longrightarrow> ?thesis" by blast
qed

lemma b64_char_visible:
  assumes "n < 64"
  shows "b64_char urlsafe n \<noteq> CHR ''=''" "b64_char urlsafe n \<noteq> CHR ''.''" "33 \<le> byte (b64_char urlsafe n)" "byte (b64_char urlsafe n) < 128"
proof -
  have "\<forall>n \<in> {..<64}. byte (b64_char u n) \<noteq> 61 \<and> byte (b64_char u n) \<noteq> 46 \<and> 33 \<le> byte (b64_char u n) \<and> byte (b64_char u n) < 128" for u
    by (cases u) (simp_all add: lessThan_nat_numeral lessThan_Suc b64_char_def byte_def)
  with assms have b: "byte (b64_char urlsafe n) \<noteq> 61" "byte (b64_char urlsafe n) \<noteq> 46" "33 \<le> byte (b64_char urlsafe n)" "byte (b64_char urlsafe n) < 128"
    by blast+
  have "byte CHR ''='' = 61" "byte CHR ''.'' = 46" by (simp_all add: byte_def)
  with b show "b64_char urlsafe n \<noteq> CHR ''=''" "b64_char urlsafe n \<noteq> CHR ''.''" "33 \<le> byte (b64_char urlsafe n)" "byte (b64_char urlsafe n) < 128"
    by metis+
qed

lemma b64_digits_bound: "list_all (\<lambda>b. b < 256) bs \<Longrightarrow> list_all (\<lambda>d. d < 64) (b64_digits bs)"
proof (induction bs rule: b64_digits.induct)
  case (1 a b c rest)
  then have "a mod 4 \<le> 3" "b div 16 < 16" "b mod 16 \<le> 15" "c div 64 < 4" "a div 4 < 64" by auto
  then have "a mod 4 * 16 + b div 16 < 64" "b mod 16 * 4 + c div 64 < 64" by linarith+
  with 1 show ?case by auto
next
  case (2 a b)
  then have "a mod 4 \<le> 3" "b div 16 < 16" "b mod 16 \<le> 15" "a div 4 < 64" by auto
  then have "a mod 4 * 16 + b div 16 < 64" "b mod 16 * 4 < 64" by linarith+
  with 2 show ?case by auto
next
  case (3 a)
  then have "a mod 4 \<le> 3" by auto
  then have "a mod 4 * 16 < 64" by linarith
  with 3 show ?case by auto
qed simp

text \<open>Reading one digit.\<close>

lemma a2b_digit:
  "d < 64 \<Longrightarrow> a2b u strict quad left pads False (b64_char u d # cs) =
     (if quad = 0 then a2b u strict 1 d 0 False cs
      else if quad = 1 then map_option ((#) (char_of (left * 4 + d div 16))) (a2b u strict 2 (d mod 16) 0 False cs)
      else if quad = 2 then map_option ((#) (char_of (left * 16 + d div 4))) (a2b u strict 3 (d mod 4) 0 False cs)
      else map_option ((#) (char_of (left * 64 + d))) (a2b u strict 0 0 0 False cs))"
  by (simp add: b64_char_visible(1) b64_value_char)

lemma b64_padding_4 [simp]: "b64_padding (Suc (Suc (Suc (Suc n)))) = b64_padding n"
proof -
  have "- int (Suc (Suc (Suc (Suc n)))) mod 4 = - int n mod 4" by presburger
  then show ?thesis by (simp add: b64_padding_def)
qed

lemma b64_padding_small [simp]:
  "b64_padding 0 = []" "b64_padding (Suc (Suc 0)) = ''==''" "b64_padding (Suc (Suc (Suc 0))) = ''=''"
  by (simp_all add: b64_padding_def numeral_2_eq_2)

lemma a2b_encoded:
  "list_all (\<lambda>b. b < 256) bs \<Longrightarrow>
   a2b u strict 0 0 0 False (map (b64_char u) (b64_digits bs) @ b64_padding (length (b64_digits bs))) = Some (map char_of bs)"
proof (induction bs rule: b64_digits.induct)
  case (1 a b c rest)
  then have bytes: "a < 256" "b < 256" "c < 256" by auto
  then have d: "a div 4 < 64" "a mod 4 * 16 + b div 16 < 64" "b mod 16 * 4 + c div 64 < 64" "c mod 64 < 64"
    using b64_digits_bound [of "[a, b, c]"] by auto
  have "(a mod 4 * 16 + b div 16) div 16 = a mod 4" "(a mod 4 * 16 + b div 16) mod 16 = b div 16"
    "(b mod 16 * 4 + c div 64) div 4 = b mod 16" "(b mod 16 * 4 + c div 64) mod 4 = c div 64"
    using bytes by auto
  with 1 d show ?case by (simp add: a2b_digit del: a2b.simps(2))
next
  case (2 a b)
  then have bytes: "a < 256" "b < 256" by auto
  then have d: "a div 4 < 64" "a mod 4 * 16 + b div 16 < 64" "b mod 16 * 4 < 64"
    using b64_digits_bound [of "[a, b]"] by auto
  have "(a mod 4 * 16 + b div 16) div 16 = a mod 4" "(a mod 4 * 16 + b div 16) mod 16 = b div 16" using bytes by auto
  moreover have "a2b u strict 3 left 0 False ''='' = Some []" for left by simp
  ultimately show ?case using d by (simp add: a2b_digit del: a2b.simps(2))
next
  case (3 a)
  then have d: "a div 4 < 64" "a mod 4 * 16 < 64" using b64_digits_bound [of "[a]"] by auto
  moreover have "a2b u strict 2 left 0 False ''=='' = Some []" for left by simp
  ultimately show ?case by (simp add: a2b_digit del: a2b.simps(2))
next
  case 4
  then show ?case by simp
qed

lemma bytes_bound: "list_all (\<lambda>b. b < 256) (map byte bs)"
  by (simp add: list_all_iff byte_bound)

lemma map_char_of_byte [simp]: "map (char_of \<circ> byte) bs = bs"
  by (simp add: comp_def)

lemma padding_is_pad: "set (b64_padding n) \<subseteq> {CHR ''=''}"
  by (auto simp: b64_padding_def)

text \<open>Decoding undoes encoding, strictly or not.\<close>

lemma b64decode_encode: "b64decode u strict (b64encode u bs) = Some bs"
proof -
  let ?ds = "b64_digits (map byte bs)"
  have ds: "list_all (\<lambda>d. d < 64) ?ds" by (rule b64_digits_bound) (rule bytes_bound)
  have "byte c < 128" if "c \<in> set (b64encode u bs)" for c
    using that ds padding_is_pad [of "length ?ds"] b64_char_visible(4)
    by (auto simp: b64encode_def Let_def list_all_iff byte_def)
  then have "\<not> list_ex (\<lambda>c. 128 \<le> byte c) (b64encode u bs)" by (auto simp: list_ex_iff not_le)
  moreover have "b64encode u bs = [] \<or> hd (b64encode u bs) \<noteq> CHR ''=''"
    using ds b64_char_visible(1) by (cases ?ds) (auto simp: b64encode_def)
  moreover have "a2b u strict 0 0 0 False (b64encode u bs) = Some bs"
    using a2b_encoded [OF bytes_bound, of u strict bs] by (simp add: b64encode_def Let_def)
  ultimately show ?thesis by (auto simp: b64decode_def)
qed

end
