(* ===== verification/Json_Text.thy ===== *)
theory Json_Text
  imports Json_Values
begin

text \<open>
  JSON text, as Python's library reads and writes it: \<open>json_loads\<close> is \<^verbatim>\<open>json.loads\<close> on bytes, \<open>None\<close> standing for
  the \<^verbatim>\<open>ValueError\<close> it raises, and \<open>json_dumps\<close> is \<^verbatim>\<open>json.dumps\<close> with its default of ASCII output. Two things of
  the interpreter are arguments: how a literal with a fraction or an exponent is read as a float, and how
  UTF-16 and UTF-32 input is decoded. Nesting deeper than the interpreter's recursion limit is not
  modelled. The parser recurses on a fuel of twice the length of the text plus two: of two nested calls at
  least one consumes a character.
\<close>

section \<open>Reading JSON\<close>

text \<open>What the interpreter does with a float literal, and with UTF-16 and UTF-32 input.\<close>

record codecs =
  cd_float :: "string \<Rightarrow> pyfloat"
  cd_wide :: "string \<Rightarrow> string option"

definition dquote :: char where "dquote = char_of (34::nat)"
definition backslash :: char where "backslash = char_of (92::nat)"

definition skip_ws :: "string \<Rightarrow> string" where
  "skip_ws s = dropWhile (\<lambda>c. byte c \<in> {32, 9, 10, 13}) s"

definition hex_digit_value :: "char \<Rightarrow> nat option" where
  "hex_digit_value c =
     (let n = byte c
      in if 48 \<le> n \<and> n \<le> 57 then Some (n - 48) else if 97 \<le> n \<and> n \<le> 102 then Some (n - 87)
         else if 65 \<le> n \<and> n \<le> 70 then Some (n - 55) else None)"

definition hex4 :: "char \<Rightarrow> char \<Rightarrow> char \<Rightarrow> char \<Rightarrow> nat option" where
  "hex4 a b c d =
     (case (hex_digit_value a, hex_digit_value b, hex_digit_value c, hex_digit_value d) of
        (Some w, Some x, Some y, Some z) \<Rightarrow> Some (((w * 16 + x) * 16 + y) * 16 + z)
      | _ \<Rightarrow> None)"

definition escaped :: "char \<Rightarrow> char option" where
  "escaped e =
     (if e = dquote \<or> e = backslash \<or> e = CHR ''/'' then Some e
      else if e = CHR ''b'' then Some (char_of (8::nat)) else if e = CHR ''f'' then Some (char_of (12::nat))
      else if e = CHR ''n'' then Some (char_of (10::nat)) else if e = CHR ''r'' then Some (char_of (13::nat))
      else if e = CHR ''t'' then Some (char_of (9::nat)) else None)"

text \<open>The inside of a string: characters, and the code units of \<^verbatim>\<open>\uXXXX\<close> escapes, which pair up afterwards.\<close>

datatype json_unit = Raw char | Unit nat

fun scan_string :: "string \<Rightarrow> (json_unit list \<times> string) option" where
  "scan_string [] = None"
| "scan_string (c # cs) =
     (if c = dquote then Some ([], cs)
      else if c = backslash then
        (case cs of
           [] \<Rightarrow> None
         | e # ds \<Rightarrow>
             if e = CHR ''u'' then
               (case ds of
                  h1 # h2 # h3 # h4 # rest \<Rightarrow>
                    (case hex4 h1 h2 h3 h4 of
                       None \<Rightarrow> None
                     | Some n \<Rightarrow> map_option (apfst ((#) (Unit n))) (scan_string rest))
                | _ \<Rightarrow> None)
             else
               (case escaped e of
                  None \<Rightarrow> None
                | Some d \<Rightarrow> map_option (apfst ((#) (Raw d))) (scan_string ds)))
      else if byte c < 32 then None
      else map_option (apfst ((#) (Raw c))) (scan_string cs))"

definition utf8 :: "nat \<Rightarrow> string" where
  "utf8 n =
     map char_of
       (if n < 128 then [n]
        else if n < 2048 then [192 + n div 64, 128 + n mod 64]
        else if n < 65536 then [224 + n div 4096, 128 + n div 64 mod 64, 128 + n mod 64]
        else [240 + n div 262144, 128 + n div 4096 mod 64, 128 + n div 64 mod 64, 128 + n mod 64])"

fun join_units :: "json_unit list \<Rightarrow> string" where
  "join_units [] = []"
| "join_units (Raw c # us) = c # join_units us"
| "join_units (Unit h # Unit l # us) =
     (if 55296 \<le> h \<and> h < 56320 \<and> 56320 \<le> l \<and> l < 57344
      then utf8 (65536 + (h - 55296) * 1024 + (l - 56320)) @ join_units us
      else utf8 h @ join_units (Unit l # us))"
| "join_units (Unit h # us) = utf8 h @ join_units us"

definition scan_int :: "string \<Rightarrow> (string \<times> string) option" where
  "scan_int s =
     (case s of
        [] \<Rightarrow> None
      | c # cs \<Rightarrow>
          if c = CHR ''0'' then Some (''0'', cs)
          else if is_digit c then Some (takeWhile is_digit s, dropWhile is_digit s) else None)"

definition scan_frac :: "string \<Rightarrow> string \<times> string" where
  "scan_frac s =
     (case s of
        c # d # rest \<Rightarrow>
          if c = CHR ''.'' \<and> is_digit d then (c # takeWhile is_digit (d # rest), dropWhile is_digit (d # rest)) else ([], s)
      | _ \<Rightarrow> ([], s))"

definition scan_exp :: "string \<Rightarrow> string \<times> string" where
  "scan_exp s =
     (case s of
        e # rest \<Rightarrow>
          if e = CHR ''e'' \<or> e = CHR ''E'' then
            (let sign = (case rest of x # _ \<Rightarrow> if x = CHR ''+'' \<or> x = CHR ''-'' then [x] else [] | [] \<Rightarrow> []);
                 ds = drop (length sign) rest
             in if takeWhile is_digit ds \<noteq> [] then (e # sign @ takeWhile is_digit ds, dropWhile is_digit ds) else ([], s))
          else ([], s)
      | [] \<Rightarrow> ([], s))"

definition scan_number :: "codecs \<Rightarrow> string \<Rightarrow> (json \<times> string) option" where
  "scan_number cod s =
     (let sign = (if s \<noteq> [] \<and> hd s = CHR ''-'' then ''-'' else []);
          body = drop (length sign) s
      in case scan_int body of
           None \<Rightarrow> None
         | Some (ds, r1) \<Rightarrow>
             (case scan_frac r1 of (frac, r2) \<Rightarrow>
             (case scan_exp r2 of (ex, r3) \<Rightarrow>
                if frac = [] \<and> ex = [] then
                  (if 4300 < length ds then None
                   else Some (JInt ((if sign = [] then 1 else -1) * int (nat_of_digits 0 ds)), r3))
                else Some (JFloat (cd_float cod (sign @ ds @ frac @ ex)), r3))))"

fun jvalue :: "codecs \<Rightarrow> nat \<Rightarrow> string \<Rightarrow> (json \<times> string) option"
  and jmembers :: "codecs \<Rightarrow> nat \<Rightarrow> (string \<times> json) list \<Rightarrow> string \<Rightarrow> (json \<times> string) option"
  and jelements :: "codecs \<Rightarrow> nat \<Rightarrow> json list \<Rightarrow> string \<Rightarrow> (json \<times> string) option" where
  "jvalue cod 0 s = None"
| "jvalue cod (Suc n) s =
     (case s of
        [] \<Rightarrow> None
      | c # cs \<Rightarrow>
          if c = dquote then map_option (apfst (\<lambda>us. JStr (join_units us))) (scan_string cs)
          else if c = CHR ''{'' then
            (case skip_ws cs of
               [] \<Rightarrow> None
             | d # ds \<Rightarrow> if d = CHR ''}'' then Some (JObj [], ds) else jmembers cod n [] (d # ds))
          else if c = CHR ''['' then
            (case skip_ws cs of
               [] \<Rightarrow> None
             | d # ds \<Rightarrow> if d = CHR '']'' then Some (JList [], ds) else jelements cod n [] (d # ds))
          else if starts_with ''null'' s then Some (JNull, drop 4 s)
          else if starts_with ''true'' s then Some (JBool True, drop 4 s)
          else if starts_with ''false'' s then Some (JBool False, drop 5 s)
          else if starts_with ''NaN'' s then Some (JFloat NotANumber, drop 3 s)
          else if starts_with ''Infinity'' s then Some (JFloat PosInf, drop 8 s)
          else if starts_with ''-Infinity'' s then Some (JFloat NegInf, drop 9 s)
          else scan_number cod s)"
| "jmembers cod 0 acc s = None"
| "jmembers cod (Suc n) acc s =
     (case s of
        [] \<Rightarrow> None
      | c # cs \<Rightarrow>
          if c \<noteq> dquote then None
          else
            (case scan_string cs of
               None \<Rightarrow> None
             | Some (key, r1) \<Rightarrow>
                 (case skip_ws r1 of
                    [] \<Rightarrow> None
                  | d # ds \<Rightarrow>
                      if d \<noteq> CHR '':'' then None
                      else
                        (case jvalue cod n (skip_ws ds) of
                           None \<Rightarrow> None
                         | Some (v, r2) \<Rightarrow>
                             (case skip_ws r2 of
                                [] \<Rightarrow> None
                              | e # es \<Rightarrow>
                                  if e = CHR '','' then jmembers cod n (dict_set (join_units key) v acc) (skip_ws es)
                                  else if e = CHR ''}'' then Some (JObj (dict_set (join_units key) v acc), es)
                                  else None)))))"
| "jelements cod 0 acc s = None"
| "jelements cod (Suc n) acc s =
     (case jvalue cod n s of
        None \<Rightarrow> None
      | Some (v, r) \<Rightarrow>
          (case skip_ws r of
             [] \<Rightarrow> None
           | e # es \<Rightarrow>
               if e = CHR '','' then jelements cod n (acc @ [v]) (skip_ws es)
               else if e = CHR '']'' then Some (JList (acc @ [v]), es) else None))"

definition loads_text :: "codecs \<Rightarrow> string \<Rightarrow> json option" where
  "loads_text cod s =
     (case jvalue cod (2 * length s + 2) (skip_ws s) of
        Some (v, r) \<Rightarrow> if skip_ws r = [] then Some v else None
      | None \<Rightarrow> None)"

text \<open>The encoding of bytes: \<^verbatim>\<open>json.detect_encoding\<close> and the check that they are UTF-8 (\<^verbatim>\<open>surrogatepass\<close>).\<close>

definition is_wide :: "string \<Rightarrow> bool" where
  "is_wide b \<longleftrightarrow> map byte (take 2 b) \<in> {[254, 255], [255, 254]}
     \<or> ((4 \<le> length b \<or> length b = 2) \<and> (byte (b ! 0) = 0 \<or> byte (b ! 1) = 0))"

fun valid_utf8 :: "string \<Rightarrow> bool" where
  "valid_utf8 [] = True"
| "valid_utf8 (c # cs) =
     (if byte c < 128 then valid_utf8 cs
      else if 194 \<le> byte c \<and> byte c \<le> 223 then
        (case cs of x # r \<Rightarrow> is_continuation x \<and> valid_utf8 r | _ \<Rightarrow> False)
      else if 224 \<le> byte c \<and> byte c \<le> 239 then
        (case cs of x # y # r \<Rightarrow> is_continuation x \<and> is_continuation y \<and> (byte c = 224 \<longrightarrow> 160 \<le> byte x) \<and> valid_utf8 r | _ \<Rightarrow> False)
      else if 240 \<le> byte c \<and> byte c \<le> 244 then
        (case cs of x # y # z # r \<Rightarrow> is_continuation x \<and> is_continuation y \<and> is_continuation z
            \<and> (byte c = 240 \<longrightarrow> 144 \<le> byte x) \<and> (byte c = 244 \<longrightarrow> byte x \<le> 143) \<and> valid_utf8 r | _ \<Rightarrow> False)
      else False)"

definition json_loads :: "codecs \<Rightarrow> string \<Rightarrow> json option" where
  "json_loads cod b =
     (if is_wide b then (case cd_wide cod b of None \<Rightarrow> None | Some s \<Rightarrow> loads_text cod s)
      else
        let s = (if map byte (take 3 b) = [239, 187, 191] then drop 3 b else b)
        in if valid_utf8 s then loads_text cod s else None)"

section \<open>Writing JSON\<close>

fun code_points :: "string \<Rightarrow> nat list" where
  "code_points [] = []"
| "code_points (c # cs) =
     (if byte c < 194 then byte c # code_points cs
      else if byte c < 224 then
        (case cs of x # r \<Rightarrow> ((byte c - 192) * 64 + byte x mod 64) # code_points r | [] \<Rightarrow> [byte c])
      else if byte c < 240 then
        (case cs of
           x # y # r \<Rightarrow> (((byte c - 224) * 64 + byte x mod 64) * 64 + byte y mod 64) # code_points r
         | _ \<Rightarrow> byte c # code_points cs)
      else
        (case cs of
           x # y # z # r \<Rightarrow>
             ((((byte c - 240) * 64 + byte x mod 64) * 64 + byte y mod 64) * 64 + byte z mod 64) # code_points r
         | _ \<Rightarrow> byte c # code_points cs))"

definition u_escape :: "nat \<Rightarrow> string" where
  "u_escape n =
     [backslash, CHR ''u'', hex_digit (n div 4096), hex_digit (n div 256 mod 16), hex_digit (n div 16 mod 16), hex_digit (n mod 16)]"

definition json_char :: "nat \<Rightarrow> string" where
  "json_char n =
     (if n = 34 then [backslash, dquote] else if n = 92 then [backslash, backslash]
      else if n = 10 then [backslash, CHR ''n''] else if n = 13 then [backslash, CHR ''r'']
      else if n = 9 then [backslash, CHR ''t''] else if n = 12 then [backslash, CHR ''f'']
      else if n = 8 then [backslash, CHR ''b'']
      else if 32 \<le> n \<and> n \<le> 126 then [char_of n]
      else if n < 65536 then u_escape n
      else u_escape (55296 + (n - 65536) div 1024) @ u_escape (56320 + (n - 65536) mod 1024))"

definition json_string :: "string \<Rightarrow> string" where
  "json_string s = dquote # concat (map json_char (code_points s)) @ [dquote]"

fun json_float :: "pyfloat \<Rightarrow> string" where
  "json_float (Finite r _ _) = r"
| "json_float PosInf = ''Infinity''"
| "json_float NegInf = ''-Infinity''"
| "json_float NotANumber = ''NaN''"

text \<open>\<^verbatim>\<open>json.dumps(v, separators=(item, key))\<close>.\<close>

fun json_dumps :: "string \<Rightarrow> string \<Rightarrow> json \<Rightarrow> string" where
  "json_dumps item key JNull = ''null''"
| "json_dumps item key (JBool b) = (if b then ''true'' else ''false'')"
| "json_dumps item key (JInt i) = show_int i"
| "json_dumps item key (JFloat f) = json_float f"
| "json_dumps item key (JStr s) = json_string s"
| "json_dumps item key (JList xs) = ''['' @ join item (map (json_dumps item key) xs) @ '']''"
| "json_dumps item key (JObj kvs) =
     ''{'' @ join item (map (\<lambda>kv. json_string (fst kv) @ key @ json_dumps item key (snd kv)) kvs) @ ''}''"

section \<open>Reading what was written\<close>

text \<open>Printable ASCII.\<close>

definition plain :: "string \<Rightarrow> bool" where
  "plain s \<longleftrightarrow> list_all (\<lambda>c. 32 \<le> byte c \<and> byte c \<le> 126) s"

lemma code_points_plain: "plain s \<Longrightarrow> code_points s = map byte s"
  by (induction s) (auto simp: plain_def)

lemma byte_inj: "byte c = byte d \<longleftrightarrow> c = d"
  by (metis char_of_byte)

lemma dquote_byte [simp]: "byte dquote = 34" "byte backslash = 92"
  by (simp_all add: dquote_def backslash_def)

lemma json_char_plain:
  assumes "32 \<le> byte c" "byte c \<le> 126" "c \<noteq> dquote" "c \<noteq> backslash"
  shows "json_char (byte c) = [c]"
proof -
  have "byte c \<noteq> 34" "byte c \<noteq> 92" using assms(3,4) byte_inj [of c dquote] byte_inj [of c backslash] by simp_all
  with assms(1,2) show ?thesis by (simp add: json_char_def)
qed

lemma scan_string_escape:
  "e = dquote \<or> e = backslash \<Longrightarrow> scan_string (backslash # e # rest) = map_option (apfst ((#) (Raw e))) (scan_string rest)"
proof -
  have "byte (CHR ''u'') = 117" by (simp add: byte_def)
  then have "backslash \<noteq> dquote" "dquote \<noteq> CHR ''u''" "backslash \<noteq> CHR ''u''"
    using byte_inj dquote_byte by (metis numeral_eq_iff semiring_norm)+
  then show "e = dquote \<or> e = backslash \<Longrightarrow> ?thesis" by (elim disjE) (simp_all add: escaped_def)
qed

lemma scan_json_char:
  assumes "32 \<le> byte c" "byte c \<le> 126"
  shows "scan_string (json_char (byte c) @ rest) = map_option (apfst ((#) (Raw c))) (scan_string rest)"
proof (cases "c = dquote \<or> c = backslash")
  case True
  then have "json_char (byte c) = [backslash, c]" by (elim disjE) (simp_all add: json_char_def)
  with scan_string_escape [OF True] show ?thesis by (simp only: append.simps)
next
  case False
  with assms json_char_plain [of c] show ?thesis by simp
qed

lemma scan_json_string:
  "plain s \<Longrightarrow> scan_string (concat (map json_char (code_points s)) @ dquote # rest) = Some (map Raw s, rest)"
proof (induction s)
  case Nil
  then show ?case by simp
next
  case (Cons c cs)
  then have "plain cs" "32 \<le> byte c" "byte c \<le> 126" by (auto simp: plain_def)
  with Cons show ?case by (simp add: code_points_plain scan_json_char)
qed

lemma join_raw [simp]: "join_units (map Raw s) = s"
  by (induction s) auto

text \<open>The flat objects of the tokens: printable text and non-negative integers.\<close>

fun flat :: "json \<Rightarrow> bool" where
  "flat (JStr s) \<longleftrightarrow> plain s"
| "flat (JInt i) \<longleftrightarrow> 0 \<le> i \<and> length (show_nat (nat i)) \<le> 4300"
| "flat _ \<longleftrightarrow> False"

lemma skip_ws_visible: "33 \<le> byte c \<Longrightarrow> skip_ws (c # cs) = c # cs"
  by (auto simp: skip_ws_def)

lemma show_nat_hd_zero: "hd (show_nat n) = CHR ''0'' \<Longrightarrow> n = 0"
proof (induction n rule: show_nat.induct)
  case (1 n)
  have z: "digit_char d = CHR ''0'' \<Longrightarrow> d < 10 \<Longrightarrow> d = 0" for d
    using digit_value_digit_char [of d] by (simp add: digit_value_def byte_def)
  show ?case
  proof (cases "n < 10")
    case True
    with 1 z show ?thesis by (simp add: show_nat.simps [of n])
  next
    case False
    then have "hd (show_nat n) = hd (show_nat (n div 10))" by (simp add: show_nat.simps [of n] show_nat_nonempty)
    with 1 False have "n div 10 = 0" by simp
    with False show ?thesis by simp
  qed
qed

lemma digit_not_punctuation:
  assumes "is_digit c"
  shows "c \<noteq> dquote" "c \<noteq> CHR ''{''" "c \<noteq> CHR ''[''" "c \<noteq> CHR ''n''" "c \<noteq> CHR ''t''" "c \<noteq> CHR ''f''"
    "c \<noteq> CHR ''N''" "c \<noteq> CHR ''I''" "c \<noteq> CHR ''-''" "33 \<le> byte c"
  using assms by (auto simp: is_digit_def byte_def dquote_def)

text \<open>What may follow a value inside an object.\<close>

definition closing :: "char \<Rightarrow> bool" where
  "closing e \<longleftrightarrow> e = CHR '','' \<or> e = CHR ''}''"

lemma closing_facts:
  "closing e \<Longrightarrow> \<not> is_digit e \<and> e \<noteq> CHR ''.'' \<and> e \<noteq> CHR ''e'' \<and> e \<noteq> CHR ''E'' \<and> 33 \<le> byte e"
  by (auto simp: closing_def is_digit_def byte_def)

lemma scan_number_shown:
  assumes "closing e" "length (show_nat n) \<le> 4300"
  shows "scan_number cod (show_nat n @ e # rest) = Some (JInt (int n), e # rest)"
proof -
  obtain c cs where c: "show_nat n = c # cs" using show_nat_nonempty by (meson neq_Nil_conv)
  with show_nat_are_digits [of n] have d: "is_digit c" "list_all is_digit cs" by auto
  have "scan_int (show_nat n @ e # rest) = Some (show_nat n, e # rest)"
  proof (cases "c = CHR ''0''")
    case True
    with c show_nat_hd_zero [of n] have "show_nat n = ''0''"
      by (simp add: show_nat.simps [of 0] digit_char_def char_of_def bit_0)
    then show ?thesis by (simp add: scan_int_def)
  next
    case False
    have "takeWhile is_digit (show_nat n @ e # rest) = show_nat n" "dropWhile is_digit (show_nat n @ e # rest) = e # rest"
      using show_nat_are_digits [of n] closing_facts [OF assms(1)]
      by (auto simp: list_all_iff takeWhile_append2 dropWhile_append2)
    with False c d show ?thesis by (simp add: scan_int_def)
  qed
  moreover have "scan_frac (e # rest) = ([], e # rest)" "scan_exp (e # rest) = ([], e # rest)"
    using closing_facts [OF assms(1)] by (auto simp: scan_frac_def scan_exp_def split: list.splits)
  ultimately show ?thesis
    using c digit_not_punctuation [OF d(1)] assms(2) nat_of_show_nat [of n] by (simp add: scan_number_def)
qed

lemma jvalue_dumps:
  assumes "flat v" "closing e"
  shows "jvalue cod (Suc n) (json_dumps item key v @ e # rest) = Some (v, e # rest)"
proof (cases v)
  case (JStr s)
  with assms scan_json_string [of s "e # rest"] show ?thesis by (simp add: json_string_def)
next
  case (JInt i)
  obtain c cs where c: "show_nat (nat i) = c # cs" using show_nat_nonempty by (meson neq_Nil_conv)
  with show_nat_are_digits [of "nat i"] have "is_digit c" by auto
  note np = digit_not_punctuation [OF this]
  have "jvalue cod (Suc n) (show_nat (nat i) @ e # rest) = scan_number cod (show_nat (nat i) @ e # rest)"
    using c np by (simp add: starts_with_def)
  with JInt assms scan_number_shown [OF assms(2), of "nat i" cod rest] show ?thesis by (simp add: show_int_def)
qed (use assms in auto)

lemma jmembers_dumps:
  "kvs \<noteq> [] \<Longrightarrow> list_all (\<lambda>kv. plain (fst kv) \<and> flat (snd kv)) kvs \<Longrightarrow> distinct (map fst (acc @ kvs)) \<Longrightarrow> length kvs < n \<Longrightarrow>
   jmembers cod n acc (join '','' (map (\<lambda>kv. json_string (fst kv) @ '':'' @ json_dumps '','' '':'' (snd kv)) kvs) @ ''}'' @ rest)
     = Some (JObj (acc @ kvs), rest)"
proof (induction kvs arbitrary: acc n)
  case Nil
  then show ?case by simp
next
  case (Cons kv kvs)
  obtain k v where kv: "kv = (k, v)" by fastforce
  obtain m where n: "n = Suc (Suc m)" using Cons.prems(4) by (cases n; cases "n - 1") auto
  have ok: "plain k" "flat v" "k \<notin> set (map fst acc)" using Cons.prems kv by auto
  have set: "dict_set k v acc = acc @ [(k, v)]" using ok(3) by (simp add: dict_set_fresh dict_keys_def)
  have colon: "skip_ws (CHR '':'' # x) = CHR '':'' # x" "skip_ws (CHR '','' # x) = CHR '','' # x" "skip_ws (CHR ''}'' # x) = CHR ''}'' # x"
    "skip_ws (dquote # x) = dquote # x" for x
    by (rule skip_ws_visible, simp add: byte_def dquote_def)+
  have val: "skip_ws (json_dumps '','' '':'' v @ e # x) = json_dumps '','' '':'' v @ e # x" for e x
  proof (cases v)
    case (JStr s)
    then show ?thesis using colon(4) by (simp add: json_string_def)
  next
    case (JInt i)
    obtain c cs where "show_nat (nat i) = c # cs" using show_nat_nonempty by (meson neq_Nil_conv)
    with show_nat_are_digits [of "nat i"] digit_not_punctuation(10) [of c] JInt ok(2) show ?thesis
      by (simp add: show_int_def skip_ws_visible)
  qed (use ok(2) in auto)
  show ?case
  proof (cases kvs)
    case Nil
    with kv n ok set colon val scan_json_string [of k] jvalue_dumps [of v "CHR ''}''" cod m "'',''" "'':''" rest] show ?thesis
      by (simp add: json_string_def closing_def del: jvalue.simps)
  next
    case (Cons kv' kvs')
    let ?more = "join '','' (map (\<lambda>kv. json_string (fst kv) @ '':'' @ json_dumps '','' '':'' (snd kv)) kvs) @ ''}'' @ rest"
    have more: "skip_ws ?more = ?more" using Cons colon(4) by (cases kvs') (simp_all add: json_string_def)
    have "jmembers cod (Suc m) (acc @ [(k, v)]) ?more = Some (JObj ((acc @ [(k, v)]) @ kvs), rest)"
      by (rule Cons.IH) (use Cons Cons.prems kv n in auto)
    moreover have "jmembers cod n acc (join '','' (map (\<lambda>kv. json_string (fst kv) @ '':'' @ json_dumps '','' '':'' (snd kv)) (kv # kvs)) @ ''}'' @ rest)
        = jmembers cod (Suc m) (acc @ [(k, v)]) (skip_ws ?more)"
      using kv n ok(1,2) set colon val scan_json_string [of k] Cons
        jvalue_dumps [of v "CHR '',''" cod m "'',''" "'':''" ?more]
      by (simp add: json_string_def closing_def del: jvalue.simps)
    ultimately show ?thesis using more kv by simp
  qed
qed

definition ascii :: "string \<Rightarrow> bool" where
  "ascii s \<longleftrightarrow> list_all (\<lambda>c. byte c < 128) s"

lemma ascii_simps [simp]:
  "ascii []" "ascii (c # cs) \<longleftrightarrow> byte c < 128 \<and> ascii cs" "ascii (s @ t) \<longleftrightarrow> ascii s \<and> ascii t"
  by (simp_all add: ascii_def)

lemma py_len_ascii: "ascii s \<Longrightarrow> py_len s = length s"
  by (induction s) (auto simp: py_len_def is_continuation_def)

lemma ascii_valid: "ascii s \<Longrightarrow> valid_utf8 s"
  by (induction s) auto

lemma ascii_join: "ascii sep \<Longrightarrow> list_all ascii xs \<Longrightarrow> ascii (join sep xs)"
  by (induction sep xs rule: join.induct) auto

lemma ascii_json_string: "plain s \<Longrightarrow> ascii (json_string s)"
proof (unfold json_string_def, induction s)
  case Nil
  then show ?case by simp
next
  case (Cons c cs)
  then have c: "32 \<le> byte c" "byte c \<le> 126" "plain cs" by (auto simp: plain_def)
  have "ascii (json_char (byte c))"
  proof (cases "c = dquote \<or> c = backslash")
    case True
    then show ?thesis by (elim disjE) (simp_all add: json_char_def)
  next
    case False
    with c json_char_plain [of c] show ?thesis by simp
  qed
  with Cons c show ?case by (simp add: code_points_plain)
qed

lemma ascii_dumps: "flat v \<Longrightarrow> ascii (json_dumps item key v)"
proof (cases v)
  case (JInt i)
  then show "flat v \<Longrightarrow> ascii (json_dumps item key v)"
    using show_nat_are_digits [of "nat i"] by (auto simp: show_int_def ascii_def list_all_iff is_digit_def)
qed (auto simp: ascii_json_string)

lemma length_join_at_least: "list_all (\<lambda>x. x \<noteq> []) xs \<Longrightarrow> length xs \<le> length (join sep xs)"
  by (induction sep xs rule: join.induct) (auto simp: Suc_le_eq simp flip: length_greater_0_conv)

text \<open>A flat object is read back as it was written.\<close>

lemma loads_dumps:
  assumes "list_all (\<lambda>kv. plain (fst kv) \<and> flat (snd kv)) kvs" "distinct (map fst kvs)"
  shows "json_loads cod (json_dumps '','' '':'' (JObj kvs)) = Some (JObj kvs)"
proof -
  let ?members = "map (\<lambda>kv. json_string (fst kv) @ '':'' @ json_dumps '','' '':'' (snd kv)) kvs"
  define out where "out = json_dumps '','' '':'' (JObj kvs)"
  have out: "out = CHR ''{'' # join '','' ?members @ ''}''" by (simp add: out_def)
  have visible: "skip_ws (CHR ''{'' # x) = CHR ''{'' # x" "skip_ws (dquote # x) = dquote # x" "skip_ws (CHR ''}'' # x) = CHR ''}'' # x" for x
    by (rule skip_ws_visible, simp add: byte_def dquote_def)+
  have "list_all ascii ?members" using assms(1) by (auto simp: list_all_iff ascii_json_string ascii_dumps byte_def)
  then have valid: "valid_utf8 out" unfolding out by (intro ascii_valid) (simp add: ascii_join byte_def)
  have second: "\<exists>d ds. join '','' ?members @ ''}'' = d # ds \<and> (d = dquote \<or> d = CHR ''}'')"
    by (cases kvs; cases "tl kvs") (auto simp: json_string_def)
  then have narrow: "\<not> is_wide out" "map byte (take 3 out) \<noteq> [239, 187, 191]"
    unfolding out by (auto simp: is_wide_def byte_def dquote_def)
  have "jvalue cod (2 * length out + 2) out = Some (JObj kvs, [])"
  proof (cases "kvs = []")
    case True
    have "CHR ''{'' \<noteq> dquote" by (simp add: dquote_def byte_inj [symmetric] byte_def)
    with True visible(3) [of "[]"] show ?thesis by (simp add: out numeral_eq_Suc)
  next
    case False
    have "length kvs \<le> length (join '','' ?members)"
      using length_join_at_least [of ?members "'',''"] by (simp add: list_all_iff)
    then have fuel: "length kvs < 2 * length out + 1" by (simp add: out)
    obtain ds where ds: "join '','' ?members @ ''}'' = dquote # ds"
      using False by (cases kvs; cases "tl kvs") (auto simp: json_string_def)
    have "jvalue cod (Suc n) (CHR ''{'' # dquote # ds) = jmembers cod n [] (dquote # ds)" for n
    proof -
      have "CHR ''{'' \<noteq> dquote" "dquote \<noteq> CHR ''}''" by (simp_all add: dquote_def byte_inj [symmetric] byte_def)
      then show ?thesis using visible(2) [of ds] by simp
    qed
    moreover have "jmembers cod (2 * length out + 1) [] (dquote # ds) = Some (JObj kvs, [])"
      using jmembers_dumps [OF False assms(1), of "[]" "2 * length out + 1" cod "[]"] assms(2) fuel ds by simp
    ultimately show ?thesis using ds by (simp only: out Suc_eq_plus1 add_2_eq_Suc')
  qed
  then have "loads_text cod out = Some (JObj kvs)"
    unfolding loads_text_def out visible(1) by (simp add: skip_ws_def)
  with narrow valid have "json_loads cod out = Some (JObj kvs)" by (simp add: json_loads_def)
  then show ?thesis unfolding out_def .
qed

end
