(* ===== verification/Identity.thy ===== *)
theory Identity
  imports Base64 Json_Text Exceptions "HOL-Library.List_Lexorder" "HOL-Library.Char_ord"
begin

text \<open>
  \<^verbatim>\<open>application/identity_service.py\<close>: signing in with a Stellar key, and the sealed tokens.

  The verifier of signatures is an argument (\<open>id_verify\<close>, with \<open>id_available\<close> saying whether there is one), and
  so is the keyed hash: \<open>id_mac\<close> is \<^verbatim>\<open>hmac.new(secret, body, sha256).digest()\<close> for the secret of the service.
  Nothing is assumed of either; what needs the hash to have 32 bytes says so. The readings of the clock and
  the random nonce are arguments of the operations.
\<close>

definition is_address :: "string \<Rightarrow> bool" where
  "is_address v \<longleftrightarrow> length v = 56 \<and> hd v = CHR ''G''
     \<and> list_all (\<lambda>c. (65 \<le> byte c \<and> byte c \<le> 90) \<or> (50 \<le> byte c \<and> byte c \<le> 55)) (tl v)"

definition CHALLENGE_TTL_S :: int where "CHALLENGE_TTL_S = 300"
definition SESSION_TTL_S :: int where "SESSION_TTL_S = 12 * 3600"
definition MAX_TOKEN_BYTES :: nat where "MAX_TOKEN_BYTES = 4096"

record challenge =
  ch_address :: string
  ch_nonce :: string
  ch_issued_at :: int
  ch_audience :: string

definition ch_message :: "challenge \<Rightarrow> string" where
  "ch_message c = ''CodeZard sign-in'' @ [newline] @ ''account: '' @ ch_address c @ [newline]
     @ ''audience: '' @ ch_audience c @ [newline] @ ''issued: '' @ show_int (ch_issued_at c) @ [newline]
     @ ''nonce: '' @ ch_nonce c"

definition ch_expired :: "challenge \<Rightarrow> int \<Rightarrow> bool" where
  "ch_expired c now \<longleftrightarrow> CHALLENGE_TTL_S < now - ch_issued_at c"

record session =
  se_address :: string
  se_expires_at :: int

definition challenge_json :: "challenge \<Rightarrow> string \<Rightarrow> json" where
  "challenge_json c token =
     JObj [(''address'', JStr (ch_address c)), (''message'', JStr (ch_message c)), (''challenge'', JStr token),
           (''expires_in'', JInt CHALLENGE_TTL_S)]"

definition session_json :: "session \<Rightarrow> string \<Rightarrow> json" where
  "session_json s token =
     JObj [(''address'', JStr (se_address s)), (''token'', JStr token), (''expires_at'', JInt (se_expires_at s))]"

record identity_service =
  id_available :: bool
  id_verify :: "string \<Rightarrow> string \<Rightarrow> string \<Rightarrow> bool"
  id_mac :: "string \<Rightarrow> string"
  id_audience :: string
  id_session_ttl :: int
  id_codecs :: codecs

definition new_identity :: "bool \<Rightarrow> (string \<Rightarrow> string \<Rightarrow> string \<Rightarrow> bool) \<Rightarrow> (string \<Rightarrow> string \<Rightarrow> string) \<Rightarrow> codecs
    \<Rightarrow> string \<Rightarrow> string \<Rightarrow> int \<Rightarrow> exn + identity_service" where
  "new_identity available verify hmac_sha256 cod secret audience ttl =
     (if secret = [] then Inl (ValueError ''identity needs a signing secret (GATEWAY_BILLING__SECRET)'')
      else Inr \<lparr>id_available = available, id_verify = verify, id_mac = hmac_sha256 secret, id_audience = audience,
                id_session_ttl = ttl, id_codecs = cod\<rparr>)"

section \<open>Sealing\<close>

definition b64 :: "string \<Rightarrow> string" where
  "b64 bs = rev (dropWhile (\<lambda>c. c = CHR ''='') (rev (b64encode True bs)))"

definition unb64 :: "string \<Rightarrow> string option" where
  "unb64 s = b64decode True False (s @ b64_padding (py_len s))"

definition seal :: "identity_service \<Rightarrow> (string \<times> json) list \<Rightarrow> string" where
  "seal svc claims =
     (let body = json_dumps '','' '':'' (JObj (sort_key fst claims)) in b64 body @ ''.'' @ b64 (id_mac svc body))"

definition open_token :: "identity_service \<Rightarrow> string \<Rightarrow> exn + json" where
  "open_token svc token =
     (let raw = strip token
      in if raw = [] \<or> MAX_TOKEN_BYTES < py_len raw then Inl (IdentityError ''no token was sent'')
         else
           (case partition_at (CHR ''.'') raw of
              (head, _, tail) \<Rightarrow>
                if tail = [] then Inl (IdentityError ''that token is malformed'')
                else
                  (case (unb64 head, unb64 tail) of
                     (Some body, Some signature) \<Rightarrow>
                       if signature \<noteq> id_mac svc body
                       then Inl (IdentityError ''that token was not issued by this gateway'')
                       else
                         (case json_loads (id_codecs svc) body of
                            None \<Rightarrow> Inl (IdentityError ''that token is malformed'')
                          | Some claims \<Rightarrow>
                              if is_mapping claims then Inr claims
                              else Inl (IdentityError ''that token is malformed''))
                   | _ \<Rightarrow> Inl (IdentityError ''that token is malformed''))))"

text \<open>\<^verbatim>\<open>int(claims.get(key) or 0)\<close>.\<close>

definition int_claim :: "string \<Rightarrow> json \<Rightarrow> exn + int" where
  "int_claim key claims =
     (let v = obj_get key claims
      in if \<not> truthy v then Inr 0
         else case py_int v of
           Inr i \<Rightarrow> Inr i
         | Inl IntTypeError \<Rightarrow> Inl TypeError
         | Inl IntValueError \<Rightarrow> Inl (ValueError ''invalid literal for int() with base 10'')
         | Inl IntOverflowError \<Rightarrow> Inl OverflowError)"

section \<open>The moves\<close>

definition id_challenge :: "identity_service \<Rightarrow> string \<Rightarrow> string \<Rightarrow> int \<Rightarrow> exn + (challenge \<times> string)" where
  "id_challenge svc address nonce now =
     (if \<not> is_address address then Inl (IdentityError ''that is not a Stellar public key'')
      else if \<not> id_available svc
        then Inl (UnverifiableError (''this gateway cannot verify signatures: the Stellar dependency is not ''
                    @ ''installed (pip install -e '' @ [dquote] @ ''.[stellar]'' @ [dquote] @ '')''))
      else
        let c = \<lparr>ch_address = address, ch_nonce = nonce, ch_issued_at = now, ch_audience = id_audience svc\<rparr>
        in Inr (c, seal svc [(''a'', JStr (ch_address c)), (''n'', JStr (ch_nonce c)), (''i'', JInt (ch_issued_at c)),
                             (''d'', JStr (ch_audience c))]))"

text \<open>\<open>now\<close> is when the age of the challenge is read, \<open>later\<close> when the session starts.\<close>

definition id_verify_token :: "identity_service \<Rightarrow> string \<Rightarrow> string \<Rightarrow> int \<Rightarrow> int \<Rightarrow> exn + (session \<times> string)" where
  "id_verify_token svc token signature now later =
     (case open_token svc token of
        Inl e \<Rightarrow> Inl e
      | Inr claims \<Rightarrow>
          (case int_claim ''i'' claims of
             Inl e \<Rightarrow> Inl e
           | Inr issued \<Rightarrow>
               let c = \<lparr>ch_address = str_or_empty (obj_get ''a'' claims), ch_nonce = str_or_empty (obj_get ''n'' claims),
                        ch_issued_at = issued, ch_audience = str_or_empty (obj_get ''d'' claims)\<rparr>
               in if ch_audience c \<noteq> id_audience svc
                    then Inl (IdentityError ''that challenge was issued for a different service'')
                  else if ch_expired c now then Inl (IdentityError ''that challenge expired; ask for a new one'')
                  else if \<not> id_available svc then Inl (UnverifiableError ''this gateway cannot verify signatures'')
                  else if \<not> id_verify svc (ch_address c) (ch_message c) signature
                    then Inl (IdentityError ''the signature does not match that account'')
                  else
                    let s = \<lparr>se_address = ch_address c, se_expires_at = later + id_session_ttl svc\<rparr>
                    in Inr (s, seal svc [(''a'', JStr (se_address s)), (''e'', JInt (se_expires_at s))])))"

definition account_of :: "identity_service \<Rightarrow> string \<Rightarrow> int \<Rightarrow> exn + string" where
  "account_of svc token now =
     (case open_token svc token of
        Inl e \<Rightarrow> Inl e
      | Inr claims \<Rightarrow>
          (case int_claim ''e'' claims of
             Inl e \<Rightarrow> Inl e
           | Inr expires_at \<Rightarrow>
               if \<not> is_address (str_or_empty (obj_get ''a'' claims))
                 then Inl (IdentityError ''that token does not name an account'')
               else if expires_at \<le> now then Inl (IdentityError ''that session expired; sign in again'')
               else Inr (str_or_empty (obj_get ''a'' claims))))"

section \<open>A sealed token opens to its claims\<close>

lemma b64_digits_only: "b64 bs = map (b64_char True) (b64_digits (map byte bs))"
proof -
  let ?ds = "map (b64_char True) (b64_digits (map byte bs))"
  have "list_all (\<lambda>d. d < 64) (b64_digits (map byte bs))" by (rule b64_digits_bound) (rule bytes_bound)
  then have no: "CHR ''='' \<notin> set ?ds" using b64_char_visible(1) by (fastforce simp: list_all_iff)
  have nopad: "dropWhile (\<lambda>c. c = CHR ''='') (rev ?ds) = rev ?ds"
  proof (cases "?ds = []")
    case False
    then have "hd (rev ?ds) \<in> set ?ds" using hd_in_set [of "rev ?ds"] by (simp del: hd_rev)
    with no show ?thesis by (auto simp: dropWhile_eq_self_iff simp del: hd_rev)
  qed simp
  moreover have "\<forall>c \<in> set (rev (b64_padding n)). c = CHR ''=''" for n using padding_is_pad by auto
  ultimately show ?thesis
    unfolding b64_def b64encode_def Let_def rev_append by (subst dropWhile_append2) simp_all
qed

lemma b64_visible: "c \<in> set (b64 bs) \<Longrightarrow> c \<noteq> CHR ''.'' \<and> 33 \<le> byte c \<and> byte c < 128"
proof -
  have "list_all (\<lambda>d. d < 64) (b64_digits (map byte bs))" by (rule b64_digits_bound) (rule bytes_bound)
  then show "c \<in> set (b64 bs) \<Longrightarrow> ?thesis" using b64_char_visible by (auto simp: b64_digits_only list_all_iff)
qed

lemma ascii_b64: "ascii (b64 bs)"
  using b64_visible by (auto simp: ascii_def list_all_iff)

lemma length_b64_digits: "length (b64_digits bs) \<le> 2 * length bs" "bs \<noteq> [] \<Longrightarrow> b64_digits bs \<noteq> []"
  by (induction bs rule: b64_digits.induct) auto

lemma length_b64: "length (b64 bs) \<le> 2 * length bs" "bs \<noteq> [] \<Longrightarrow> b64 bs \<noteq> []"
  using length_b64_digits [of "map byte bs"] by (simp_all add: b64_digits_only)

lemma unb64_b64: "unb64 (b64 bs) = Some bs"
proof -
  have "b64 bs @ b64_padding (length (b64 bs)) = b64encode True bs"
    by (simp add: b64_digits_only b64encode_def)
  then show ?thesis using b64decode_encode [of True False bs] by (simp add: unb64_def py_len_ascii [OF ascii_b64])
qed

lemma partition_dot:
  "CHR ''.'' \<notin> set h \<Longrightarrow> partition_at (CHR ''.'') (h @ ''.'' @ t) = (h, True, t)"
  by (induction h) (auto simp: partition_at_def Let_def)

lemma strip_token:
  assumes "body \<noteq> []" "mac \<noteq> []"
  shows "strip (b64 body @ ''.'' @ b64 mac) = b64 body @ ''.'' @ b64 mac"
proof -
  have "b64 body \<noteq> []" "b64 mac \<noteq> []" using assms length_b64(2) by blast+
  then show ?thesis
    by (intro strip_visible) (use b64_visible [of "hd (b64 body)" body] b64_visible [of "last (b64 mac)" mac] in auto)
qed

lemma open_sealed_body:
  assumes "json_loads (id_codecs svc) body = Some (JObj kvs)" "body \<noteq> []" "id_mac svc body \<noteq> []"
    and "2 * length body + 2 * length (id_mac svc body) < MAX_TOKEN_BYTES"
  shows "open_token svc (b64 body @ ''.'' @ b64 (id_mac svc body)) = Inr (JObj kvs)"
proof -
  let ?h = "b64 body" and ?t = "b64 (id_mac svc body)" and ?raw = "b64 body @ ''.'' @ b64 (id_mac svc body)"
  have ne: "?h \<noteq> []" "?t \<noteq> []" using assms(2,3) length_b64(2) by blast+
  have "strip ?raw = ?raw" using assms(2,3) by (rule strip_token)
  moreover have "py_len ?raw = length ?raw" by (rule py_len_ascii) (simp add: ascii_b64 byte_def)
  moreover have "length ?raw \<le> MAX_TOKEN_BYTES" using assms(4) length_b64(1) [of body] length_b64(1) [of "id_mac svc body"] by simp
  moreover have "partition_at (CHR ''.'') ?raw = (?h, True, ?t)"
    by (rule partition_dot) (use b64_visible in blast)
  ultimately show ?thesis using ne assms(1) unb64_b64 by (simp add: open_token_def)
qed

lemma open_seal:
  assumes "list_all (\<lambda>kv. plain (fst kv) \<and> flat (snd kv)) claims" "distinct (map fst claims)"
    and "id_mac svc (json_dumps '','' '':'' (JObj (sort_key fst claims))) \<noteq> []"
    and "2 * length (json_dumps '','' '':'' (JObj (sort_key fst claims)))
         + 2 * length (id_mac svc (json_dumps '','' '':'' (JObj (sort_key fst claims)))) < MAX_TOKEN_BYTES"
  shows "open_token svc (seal svc claims) = Inr (JObj (sort_key fst claims))"
proof -
  have "list_all (\<lambda>kv. plain (fst kv) \<and> flat (snd kv)) (sort_key fst claims)" using assms(1) by (simp add: list_all_iff)
  moreover have "distinct (map fst (sort_key fst claims))" using assms(2)
    by (metis distinct_map distinct_sort set_sort)
  ultimately have "json_loads (id_codecs svc) (json_dumps '','' '':'' (JObj (sort_key fst claims))) = Some (JObj (sort_key fst claims))"
    by (rule loads_dumps)
  from open_sealed_body [OF this _ assms(3,4)] show ?thesis by (simp add: seal_def Let_def)
qed

section \<open>The two kinds of token\<close>

text \<open>What the service is deployed with: a name in printable ASCII of at most 500 characters, and a hash of 32
  bytes.\<close>

definition identity_ok :: "identity_service \<Rightarrow> bool" where
  "identity_ok svc \<longleftrightarrow> plain (id_audience svc) \<and> length (id_audience svc) \<le> 500 \<and> (\<forall>body. length (id_mac svc body) = 32)"

text \<open>A reading of the clock: after 1970 and before the year 33658.\<close>

definition instant :: "int \<Rightarrow> bool" where
  "instant t \<longleftrightarrow> 0 \<le> t \<and> t < 10 ^ 12"

lemma sort_challenge: "sort_key fst [(''a'', u), (''n'', v), (''i'', w), (''d'', x)] = [(''a'', u), (''d'', x), (''i'', w), (''n'', v)]"
  for u v w x :: json
  by (simp add: less_list_code less_char_def less_eq_char_def order.strict_iff_order)

lemma sort_session: "sort_key fst [(''a'', u), (''e'', v)] = [(''a'', u), (''e'', v)]"
  for u v :: json
  by (simp add: less_list_code less_char_def less_eq_char_def order.strict_iff_order)

lemma length_show_nat: "n < 10 ^ Suc k \<Longrightarrow> length (show_nat n) \<le> Suc k"
proof (induction k arbitrary: n)
  case 0
  then show ?case by (simp add: show_nat.simps [of n])
next
  case (Suc k)
  show ?case
  proof (cases "n < 10")
    case True
    then show ?thesis by (simp add: show_nat.simps [of n])
  next
    case False
    have "n div 10 < 10 ^ Suc k" using Suc.prems by (simp add: div_less_iff_less_mult)
    from Suc.IH [OF this] False show ?thesis by (simp add: show_nat.simps [of n])
  qed
qed

lemma length_json_char: "32 \<le> byte c \<Longrightarrow> byte c \<le> 126 \<Longrightarrow> length (json_char (byte c)) \<le> 2"
  by (simp add: json_char_def)

lemma length_json_string: "plain s \<Longrightarrow> length (json_string s) \<le> 2 * length s + 2"
proof (unfold json_string_def, induction s)
  case Nil
  then show ?case by simp
next
  case (Cons c cs)
  then have "32 \<le> byte c" "byte c \<le> 126" "plain cs" by (auto simp: plain_def)
  with Cons length_json_char [of c] show ?case by (simp add: code_points_plain)
qed

lemma instant_shown: "instant t \<Longrightarrow> length (show_int t) \<le> 12 \<and> flat (JInt t)"
proof -
  assume t: "instant t"
  then have "nat t < 10 ^ Suc 11" by (simp add: instant_def nat_less_iff)
  from length_show_nat [OF this] t show ?thesis by (simp add: show_int_def instant_def)
qed

lemma address_plain: "is_address a \<Longrightarrow> plain a \<and> length a = 56 \<and> a \<noteq> []"
proof -
  assume a: "is_address a"
  then obtain c cs where c: "a = c # cs" by (cases a) (auto simp: is_address_def)
  with a show ?thesis by (auto simp: is_address_def plain_def list_all_iff byte_def)
qed

definition challenge_claims :: "challenge \<Rightarrow> (string \<times> json) list" where
  "challenge_claims c = [(''a'', JStr (ch_address c)), (''n'', JStr (ch_nonce c)), (''i'', JInt (ch_issued_at c)), (''d'', JStr (ch_audience c))]"

definition session_claims :: "session \<Rightarrow> (string \<times> json) list" where
  "session_claims s = [(''a'', JStr (se_address s)), (''e'', JInt (se_expires_at s))]"

lemma plain_key [simp]: "plain ''a''" "plain ''n''" "plain ''i''" "plain ''d''" "plain ''e''"
  by (simp_all add: plain_def byte_def)

lemma open_challenge_token:
  assumes "identity_ok svc" "plain (ch_address c)" "length (ch_address c) = 56" "plain (ch_nonce c)" "length (ch_nonce c) = 32"
    and "instant (ch_issued_at c)" "ch_audience c = id_audience svc"
  shows "open_token svc (seal svc (challenge_claims c)) =
     Inr (JObj [(''a'', JStr (ch_address c)), (''d'', JStr (ch_audience c)), (''i'', JInt (ch_issued_at c)), (''n'', JStr (ch_nonce c))])"
proof -
  have ok: "plain (ch_audience c)" "length (ch_audience c) \<le> 500" "length (id_mac svc body) = 32" for body
    using assms(1,7) by (auto simp: identity_ok_def)
  have mac: "id_mac svc body \<noteq> []" for body using ok(3) [of body] by auto
  have "length (json_string ''a'') \<le> 4" "length (json_string ''d'') \<le> 4" "length (json_string ''i'') \<le> 4" "length (json_string ''n'') \<le> 4"
    using length_json_string [of "''a''"] length_json_string [of "''d''"] length_json_string [of "''i''"] length_json_string [of "''n''"] by simp_all
  moreover have "length (json_string (ch_address c)) \<le> 114" "length (json_string (ch_nonce c)) \<le> 66" "length (json_string (ch_audience c)) \<le> 1002"
    using assms(2-5) ok(1,2) length_json_string by fastforce+
  ultimately have "2 * length (json_dumps '','' '':'' (JObj (sort_key fst (challenge_claims c))))
      + 2 * length (id_mac svc (json_dumps '','' '':'' (JObj (sort_key fst (challenge_claims c))))) < MAX_TOKEN_BYTES"
    using instant_shown [OF assms(6)] unfolding challenge_claims_def sort_challenge ok(3) by (simp add: MAX_TOKEN_BYTES_def)
  from open_seal [OF _ _ mac this] show ?thesis
    using assms(2,4) ok(1) instant_shown [OF assms(6)] unfolding challenge_claims_def sort_challenge by simp
qed

lemma open_session_token:
  assumes "identity_ok svc" "plain (se_address s)" "length (se_address s) = 56" "instant (se_expires_at s)"
  shows "open_token svc (seal svc (session_claims s)) = Inr (JObj (session_claims s))"
proof -
  have ok: "length (id_mac svc body) = 32" for body using assms(1) by (auto simp: identity_ok_def)
  then have mac: "id_mac svc body \<noteq> []" for body by (metis list.size(3) zero_neq_numeral)
  have "length (json_string ''a'') \<le> 4" "length (json_string ''e'') \<le> 4" "length (json_string (se_address s)) \<le> 114"
    using length_json_string [of "''a''"] length_json_string [of "''e''"] length_json_string [OF assms(2)] assms(3) by simp_all
  then have "2 * length (json_dumps '','' '':'' (JObj (sort_key fst (session_claims s))))
      + 2 * length (id_mac svc (json_dumps '','' '':'' (JObj (sort_key fst (session_claims s))))) < MAX_TOKEN_BYTES"
    using instant_shown [OF assms(4)] unfolding session_claims_def sort_session ok by (simp add: MAX_TOKEN_BYTES_def)
  from open_seal [OF _ _ mac this] show ?thesis
    using assms(2) instant_shown [OF assms(4)] unfolding session_claims_def sort_session by simp
qed

section \<open>Signing in\<close>

lemma id_challenge_token:
  assumes "id_challenge svc a nonce t = Inr (c, token)"
  shows "token = seal svc (challenge_claims c) \<and> is_address a \<and> id_available svc
     \<and> c = \<lparr>ch_address = a, ch_nonce = nonce, ch_issued_at = t, ch_audience = id_audience svc\<rparr>"
  using assms by (auto simp: id_challenge_def challenge_claims_def Let_def split: if_splits)

lemma str_of_text [simp]: "str_or_empty (JStr s) = s"
  by (simp add: str_or_empty_def)

lemma int_claim_of_int: "obj_get k claims = JInt i \<Longrightarrow> int_claim k claims = Inr i"
  by (simp add: int_claim_def)

lemma open_issued_challenge:
  assumes "identity_ok svc" "id_challenge svc a nonce t = Inr (c, token)" "plain nonce" "length nonce = 32" "instant t"
  shows "open_token svc token = Inr (JObj [(''a'', JStr a), (''d'', JStr (id_audience svc)), (''i'', JInt t), (''n'', JStr nonce)])"
proof -
  have c: "token = seal svc (challenge_claims c)" "is_address a" "c = \<lparr>ch_address = a, ch_nonce = nonce, ch_issued_at = t, ch_audience = id_audience svc\<rparr>"
    using id_challenge_token [OF assms(2)] by blast+
  with open_challenge_token [OF assms(1), of c] address_plain [OF c(2)] assms(3-5) show ?thesis by simp
qed

text \<open>C23. Signing in works, and proves the key. A challenge that is signed by the account it was issued for and
  comes back within five minutes opens a session for exactly that account, and the session's token
  names that account at every moment before the session ends and nobody from then on.\<close>

theorem sign_in_round_trip:
  assumes "identity_ok svc" "id_challenge svc a nonce t0 = Inr (c, token)" "plain nonce" "length nonce = 32" "instant t0"
    and "t1 - t0 \<le> 300" "id_verify svc a (ch_message c) signature" "instant (t2 + id_session_ttl svc)"
  shows "\<exists>s tok. id_verify_token svc token signature t1 t2 = Inr (s, tok) \<and> se_address s = a \<and> se_expires_at s = t2 + id_session_ttl svc
     \<and> (\<forall>t. account_of svc tok t = (if t < t2 + id_session_ttl svc then Inr a else Inl (IdentityError ''that session expired; sign in again'')))"
proof -
  have c: "is_address a" "id_available svc" "c = \<lparr>ch_address = a, ch_nonce = nonce, ch_issued_at = t0, ch_audience = id_audience svc\<rparr>"
    using id_challenge_token [OF assms(2)] by blast+
  define s where "s = \<lparr>se_address = a, se_expires_at = t2 + id_session_ttl svc\<rparr>"
  have "id_verify_token svc token signature t1 t2 = Inr (s, seal svc (session_claims s))"
    using open_issued_challenge [OF assms(1-5)] c assms(6,7)
    by (simp add: id_verify_token_def int_claim_of_int ch_expired_def CHALLENGE_TTL_S_def s_def session_claims_def)
  moreover have "open_token svc (seal svc (session_claims s)) = Inr (JObj (session_claims s))"
    by (rule open_session_token) (use assms(1,8) address_plain [OF c(1)] in \<open>simp_all add: s_def\<close>)
  then have "account_of svc (seal svc (session_claims s)) t =
      (if t < t2 + id_session_ttl svc then Inr a else Inl (IdentityError ''that session expired; sign in again''))" for t
    using c(1) by (simp add: account_of_def session_claims_def s_def int_claim_of_int)
  ultimately show ?thesis by (auto simp: s_def)
qed

text \<open>What carries the keyed hash of the service.\<close>

definition sealed_by :: "identity_service \<Rightarrow> string \<Rightarrow> string \<Rightarrow> bool" where
  "sealed_by svc token body \<longleftrightarrow>
     (case partition_at (CHR ''.'') (strip token) of
        (head, _, tail) \<Rightarrow> unb64 head = Some body \<and> unb64 tail = Some (id_mac svc body))"

lemma open_token_sealed:
  "open_token svc token = Inr claims \<Longrightarrow>
     \<exists>body. sealed_by svc token body \<and> json_loads (id_codecs svc) body = Some claims"
  by (auto simp: open_token_def sealed_by_def Let_def split: if_splits prod.splits option.splits)

text \<open>C7. Nobody gets a session, or an account, without the proof. A session is opened only for a challenge that
  carries this gateway's keyed hash, was issued for this service no more than five minutes ago, and whose
  text the account named inside it signed: the caller never chooses the account. A token names an account
  only when it carries the keyed hash and its time has not come.\<close>

theorem session_needs_seal_and_signature:
  "(id_verify_token svc token signature now later = Inr (s, tok) \<longrightarrow>
      (\<exists>body claims c. sealed_by svc token body \<and> json_loads (id_codecs svc) body = Some claims
         \<and> ch_address c = str_or_empty (obj_get ''a'' claims) \<and> int_claim ''i'' claims = Inr (ch_issued_at c)
         \<and> ch_audience c = id_audience svc \<and> now - ch_issued_at c \<le> 300
         \<and> id_available svc \<and> id_verify svc (ch_address c) (ch_message c) signature \<and> se_address s = ch_address c))
   \<and> (account_of svc token now = Inr a \<longrightarrow>
      (\<exists>body claims expiry. sealed_by svc token body \<and> json_loads (id_codecs svc) body = Some claims
         \<and> a = str_or_empty (obj_get ''a'' claims) \<and> is_address a \<and> int_claim ''e'' claims = Inr expiry \<and> now < expiry))"
proof (intro conjI impI)
  assume "id_verify_token svc token signature now later = Inr (s, tok)"
  then obtain claims issued c where o: "open_token svc token = Inr claims" and i: "int_claim ''i'' claims = Inr issued"
    and c: "c = \<lparr>ch_address = str_or_empty (obj_get ''a'' claims), ch_nonce = str_or_empty (obj_get ''n'' claims),
                 ch_issued_at = issued, ch_audience = str_or_empty (obj_get ''d'' claims)\<rparr>"
    and ok: "ch_audience c = id_audience svc" "\<not> ch_expired c now" "id_available svc"
      "id_verify svc (ch_address c) (ch_message c) signature" "se_address s = ch_address c"
    by (auto simp: id_verify_token_def Let_def split: sum.splits if_splits)
  from open_token_sealed [OF o] obtain body where "sealed_by svc token body" "json_loads (id_codecs svc) body = Some claims" by blast
  with c i ok show "\<exists>body claims c. sealed_by svc token body \<and> json_loads (id_codecs svc) body = Some claims
         \<and> ch_address c = str_or_empty (obj_get ''a'' claims) \<and> int_claim ''i'' claims = Inr (ch_issued_at c)
         \<and> ch_audience c = id_audience svc \<and> now - ch_issued_at c \<le> 300
         \<and> id_available svc \<and> id_verify svc (ch_address c) (ch_message c) signature \<and> se_address s = ch_address c"
    by (intro exI [of _ body] exI [of _ claims] exI [of _ c]) (simp add: ch_expired_def CHALLENGE_TTL_S_def)
next
  assume "account_of svc token now = Inr a"
  then obtain claims expiry where "open_token svc token = Inr claims" "int_claim ''e'' claims = Inr expiry"
      "a = str_or_empty (obj_get ''a'' claims)" "is_address a" "now < expiry"
    by (auto simp: account_of_def split: sum.splits if_splits)
  with open_token_sealed show "\<exists>body claims expiry. sealed_by svc token body \<and> json_loads (id_codecs svc) body = Some claims
         \<and> a = str_or_empty (obj_get ''a'' claims) \<and> is_address a \<and> int_claim ''e'' claims = Inr expiry \<and> now < expiry" by blast
qed

text \<open>The two kinds of token cannot stand in for each other. A challenge, which anyone may ask for in any
  account's name, is refused as a session at every moment, and a session's token is refused as a challenge.\<close>

theorem tokens_are_not_interchangeable:
  assumes "identity_ok svc" "id_audience svc \<noteq> []" "id_challenge svc a nonce t = Inr (c, token)"
    and "plain nonce" "length nonce = 32" "instant t" "0 \<le> now" "is_address b" "instant expiry"
  shows "account_of svc token now = Inl (IdentityError ''that session expired; sign in again'')
     \<and> id_verify_token svc (seal svc (session_claims \<lparr>se_address = b, se_expires_at = expiry\<rparr>)) signature now later
        = Inl (IdentityError ''that challenge was issued for a different service'')"
proof
  have "is_address a" using id_challenge_token [OF assms(3)] by blast
  with open_issued_challenge [OF assms(1,3-6)] assms(7)
  show "account_of svc token now = Inl (IdentityError ''that session expired; sign in again'')"
    by (simp add: account_of_def int_claim_def)
next
  have "open_token svc (seal svc (session_claims \<lparr>se_address = b, se_expires_at = expiry\<rparr>))
      = Inr (JObj (session_claims \<lparr>se_address = b, se_expires_at = expiry\<rparr>))"
    by (rule open_session_token) (use assms(1,9) address_plain [OF assms(8)] in simp_all)
  with assms(2) show "id_verify_token svc (seal svc (session_claims \<lparr>se_address = b, se_expires_at = expiry\<rparr>)) signature now later
        = Inl (IdentityError ''that challenge was issued for a different service'')"
    by (simp add: id_verify_token_def int_claim_def session_claims_def str_or_empty_def)
qed

section \<open>Examples\<close>

definition sample_codecs :: codecs where
  "sample_codecs = \<lparr>cd_float = (\<lambda>s. Finite s 0 False), cd_wide = (\<lambda>_. None)\<rparr>"

definition sample_identity :: identity_service where
  "sample_identity = \<lparr>id_available = True, id_verify = (\<lambda>a m sig. sig = ''signed by '' @ a), id_mac = (\<lambda>body. take 32 (body @ replicate 32 (CHR ''x''))),
     id_audience = ''codezard'', id_session_ttl = SESSION_TTL_S, id_codecs = sample_codecs\<rparr>"

definition sample_address :: string where
  "sample_address = CHR ''G'' # replicate 55 (CHR ''A'')"

definition sample_nonce :: string where
  "sample_nonce = replicate 32 (CHR ''0'')"

lemma sample_identity_ok: "identity_ok sample_identity"
  by (auto simp: identity_ok_def sample_identity_def plain_def byte_def)

lemma sample_challenge:
  obtains c token where "id_challenge sample_identity sample_address sample_nonce 1000 = Inr (c, token)"
    "plain sample_nonce" "length sample_nonce = 32" "instant 1000" "is_address sample_address"
proof -
  have "is_address sample_address" by (simp add: is_address_def sample_address_def list_all_iff byte_def)
  moreover have "plain sample_nonce" "length sample_nonce = 32" "instant 1000"
    by (simp_all add: sample_nonce_def plain_def list_all_iff byte_def instant_def)
  ultimately show ?thesis using that by (simp add: id_challenge_def sample_identity_def)
qed

lemma sample_facts:
  "instant (1200 + id_session_ttl sample_identity)" "id_verify sample_identity sample_address m (''signed by '' @ sample_address)"
  "id_audience sample_identity \<noteq> []"
  by (simp_all add: sample_identity_def SESSION_TTL_S_def instant_def)

theorem sign_in_round_trip_witness:
  "\<exists>token s tok. id_verify_token sample_identity token (''signed by '' @ sample_address) 1200 1200 = Inr (s, tok)
     \<and> account_of sample_identity tok 1201 = Inr sample_address"
proof (rule sample_challenge)
  fix c token
  assume "id_challenge sample_identity sample_address sample_nonce 1000 = Inr (c, token)" "plain sample_nonce"
    "length sample_nonce = 32" "instant 1000"
  from sign_in_round_trip [OF sample_identity_ok this, of 1200 "''signed by '' @ sample_address" 1200] sample_facts
  obtain s tok where "id_verify_token sample_identity token (''signed by '' @ sample_address) 1200 1200 = Inr (s, tok)"
    "\<forall>t. account_of sample_identity tok t = (if t < 1200 + id_session_ttl sample_identity then Inr sample_address
        else Inl (IdentityError ''that session expired; sign in again''))" by auto
  then have "id_verify_token sample_identity token (''signed by '' @ sample_address) 1200 1200 = Inr (s, tok)
     \<and> account_of sample_identity tok 1201 = Inr sample_address"
    by (simp add: sample_identity_def SESSION_TTL_S_def)
  then show ?thesis by blast
qed

lemma sample_sign_in:
  obtains token s tok where "id_verify_token sample_identity token (''signed by '' @ sample_address) 1200 1200 = Inr (s, tok)"
proof (rule sample_challenge)
  fix c token
  assume t: "id_challenge sample_identity sample_address sample_nonce 1000 = Inr (c, token)" "plain sample_nonce"
    "length sample_nonce = 32" "instant 1000"
  have "id_available sample_identity" by (simp add: sample_identity_def)
  with open_issued_challenge [OF sample_identity_ok t] sample_facts(2) that [of token] show ?thesis
    by (simp add: id_verify_token_def int_claim_of_int ch_expired_def CHALLENGE_TTL_S_def Let_def)
qed

theorem session_needs_seal_and_signature_witness:
  "\<exists>token body s tok. id_verify_token sample_identity token (''signed by '' @ sample_address) 1200 1200 = Inr (s, tok)
     \<and> sealed_by sample_identity token body"
proof (rule sample_sign_in)
  fix token s tok
  assume "id_verify_token sample_identity token (''signed by '' @ sample_address) 1200 1200 = Inr (s, tok)"
  with session_needs_seal_and_signature [of sample_identity token "''signed by '' @ sample_address" 1200 1200 s tok] show ?thesis by blast
qed

theorem tokens_are_not_interchangeable_witness:
  "\<exists>token. account_of sample_identity token 1001 = Inl (IdentityError ''that session expired; sign in again'')"
proof (rule sample_challenge)
  fix c token
  assume t: "id_challenge sample_identity sample_address sample_nonce 1000 = Inr (c, token)" "plain sample_nonce"
    "length sample_nonce = 32" "instant 1000" "is_address sample_address"
  from tokens_are_not_interchangeable [OF sample_identity_ok sample_facts(3) t(1-4), of 1001 sample_address 1000] t(4,5)
  show ?thesis by auto
qed

end
