(* ===== verification/X402.thy ===== *)
theory X402
  imports Billing_Guarantees Base64 Json_Text
begin

text \<open>
  \<^verbatim>\<open>domain/x402.py\<close> and \<^verbatim>\<open>application/x402_service.py\<close>: the documents of HTTP 402, and turning a payment header
  into tokens.

  The payment network of \<open>Billing_Service\<close> gains the two questions x402 asks of it: would this signed
  transaction pay that invoice, and what became of it when it was submitted. Where a message of the code
  ends with the text of an exception of the library, that text is left out.
\<close>

section \<open>The documents\<close>

definition X402_VERSION :: int where "X402_VERSION = 1"
definition SCHEME :: string where "SCHEME = ''exact''"
definition MAX_PAYLOAD_BYTES :: nat where "MAX_PAYLOAD_BYTES = 16 * 1024"

record payment_requirements =
  pr_scheme :: string
  pr_network :: string
  pr_max_amount_required :: string
  pr_resource :: string
  pr_description :: string
  pr_pay_to :: string
  pr_asset :: string
  pr_max_timeout_seconds :: int
  pr_mime_type :: string
  pr_extra :: "(string \<times> json) list"

definition requirements_json :: "payment_requirements \<Rightarrow> json" where
  "requirements_json r =
     JObj [(''scheme'', JStr (pr_scheme r)), (''network'', JStr (pr_network r)),
           (''maxAmountRequired'', JStr (pr_max_amount_required r)), (''resource'', JStr (pr_resource r)),
           (''description'', JStr (pr_description r)), (''mimeType'', JStr (pr_mime_type r)),
           (''payTo'', JStr (pr_pay_to r)), (''maxTimeoutSeconds'', JInt (pr_max_timeout_seconds r)),
           (''asset'', JStr (pr_asset r)), (''extra'', JObj (pr_extra r))]"

record payment_required =
  pd_error :: string
  pd_accepts :: "payment_requirements list"

definition payment_required_json :: "payment_required \<Rightarrow> json" where
  "payment_required_json d =
     JObj [(''x402Version'', JInt X402_VERSION), (''error'', JStr (pd_error d)),
           (''accepts'', JList (map requirements_json (pd_accepts d)))]"

record payment_payload =
  pp_scheme :: string
  pp_network :: string
  pp_payload :: "(string \<times> json) list"
  pp_version :: int

fun text_or_empty :: "json \<Rightarrow> string" where
  "text_or_empty (JStr s) = s"
| "text_or_empty _ = []"

definition pp_transaction :: "payment_payload \<Rightarrow> string" where
  "pp_transaction p = text_or_empty (obj_get ''transaction'' (JObj (pp_payload p)))"

text \<open>\<^verbatim>\<open>version != 1\<close>: Python's \<^verbatim>\<open>True\<close> and \<^verbatim>\<open>1.0\<close> are equal to 1.\<close>

fun equals_one :: "json \<Rightarrow> bool" where
  "equals_one (JInt i) \<longleftrightarrow> i = 1"
| "equals_one (JBool b) \<longleftrightarrow> b"
| "equals_one (JFloat f) \<longleftrightarrow> float_repr f = ''1.0''"
| "equals_one _ \<longleftrightarrow> False"

fun mapping_items :: "json \<Rightarrow> (string \<times> json) list" where
  "mapping_items (JObj kvs) = kvs"
| "mapping_items _ = []"

definition decode_payload :: "codecs \<Rightarrow> string \<Rightarrow> exn + payment_payload" where
  "decode_payload cod header =
     (let raw = strip header
      in if raw = [] then Inl (X402Error ''the X-PAYMENT header is empty'')
         else if MAX_PAYLOAD_BYTES < py_len raw then Inl (X402Error ''the X-PAYMENT header is too large'')
         else
           (case Option.bind (b64decode False True raw) (json_loads cod) of
              None \<Rightarrow> Inl (X402Error ''the X-PAYMENT header is not base64 JSON'')
            | Some body \<Rightarrow>
                if \<not> is_mapping body then Inl (X402Error ''the X-PAYMENT header is not a JSON object'')
                else if \<not> equals_one (obj_get ''x402Version'' body)
                  then Inl (X402Error (''x402 version '' @ py_repr (obj_get ''x402Version'' body)
                         @ '' is not supported; this speaks '' @ show_int X402_VERSION))
                else Inr \<lparr>pp_scheme = str_or_empty (obj_get ''scheme'' body), pp_network = str_or_empty (obj_get ''network'' body),
                          pp_payload = mapping_items (obj_get ''payload'' body), pp_version = X402_VERSION\<rparr>))"

definition payload_json :: "payment_payload \<Rightarrow> json" where
  "payload_json p =
     JObj [(''x402Version'', JInt (pp_version p)), (''scheme'', JStr (pp_scheme p)), (''network'', JStr (pp_network p)),
           (''payload'', JObj (pp_payload p))]"

record verify_result =
  vr_valid :: bool
  vr_payer :: string
  vr_reason :: string
  vr_amount :: string

definition or_null :: "string \<Rightarrow> json" where
  "or_null s = (if s = [] then JNull else JStr s)"

definition verify_json :: "verify_result \<Rightarrow> json" where
  "verify_json v =
     JObj [(''isValid'', JBool (vr_valid v)), (''payer'', JStr (vr_payer v)), (''invalidReason'', or_null (vr_reason v)),
           (''amount'', JStr (vr_amount v))]"

record settle_result =
  sr_success :: bool
  sr_network :: string
  sr_transaction :: string
  sr_payer :: string
  sr_reason :: string

definition settle_json :: "settle_result \<Rightarrow> json" where
  "settle_json r =
     JObj [(''success'', JBool (sr_success r)), (''transaction'', JStr (sr_transaction r)), (''network'', JStr (sr_network r)),
           (''payer'', JStr (sr_payer r)), (''errorReason'', or_null (sr_reason r))]"

definition settle_encode :: "settle_result \<Rightarrow> string" where
  "settle_encode r = b64encode False (json_dumps '','' '':'' (settle_json r))"

definition supported_json :: "(string \<times> string) list \<Rightarrow> json" where
  "supported_json kinds =
     JObj [(''kinds'', JList (map (\<lambda>(scheme, network).
        JObj [(''x402Version'', JInt X402_VERSION), (''scheme'', JStr scheme), (''network'', JStr network)]) kinds))]"

section \<open>The service\<close>

definition QUOTE_TTL :: timedelta where "QUOTE_TTL = td_minutes 10"
definition DEFAULT_TIMEOUT_S :: int where "DEFAULT_TIMEOUT_S = 120"

record x402_network = payment_network +
  net_verify :: "nat \<Rightarrow> string \<Rightarrow> invoice \<Rightarrow> exn + verify_result"
  net_settle :: "nat \<Rightarrow> string \<Rightarrow> exn + settle_result"

record x402_service =
  xs_billing :: billing_service
  xs_network :: x402_network
  xs_price :: money
  xs_resource :: string
  xs_codecs :: codecs

definition supported :: "x402_service \<Rightarrow> (string \<times> string) list" where
  "supported xs = [(SCHEME, net_network (xs_network xs))]"

definition x402_invoice :: "x402_service \<Rightarrow> string \<Rightarrow> money \<Rightarrow> datetime \<Rightarrow> string \<Rightarrow> string \<Rightarrow> invoice" where
  "x402_invoice xs account amount now hex price_text =
     \<lparr>inv_id = new_invoice_id hex, inv_account = account, inv_sku = ''x402'',
      inv_tokens = tokens_for (cat_pricing (bs_catalog (xs_billing xs))) amount, inv_price = amount,
      inv_asset = bs_asset (xs_billing xs), inv_amount = price_text, inv_destination = net_destination (xs_network xs),
      inv_created_at = now, inv_expires_at = now + QUOTE_TTL, inv_status = INV_PENDING, inv_kind = ''x402'',
      inv_tx_hash = [], inv_payer = []\<rparr>"

definition requirements ::
  "x402_service \<Rightarrow> string \<Rightarrow> string \<Rightarrow> money option \<Rightarrow> ('z world_scheme, exn, payment_requirements \<times> invoice) gw" where
  "requirements xs account resource price =
     (let amount = (case price of None \<Rightarrow> xs_price xs | Some p \<Rightarrow> p)
      in bind_gw now_utc (\<lambda>now.
         bind_gw token_hex (\<lambda>hex.
         bind_gw tick (\<lambda>t.
         bind_gw (lift_gw (net_quote (xs_network xs) t amount (bs_asset (xs_billing xs)))) (\<lambda>price_text.
         bind_gw (store_put_invoice (x402_invoice xs account amount now hex price_text)) (\<lambda>i.
           return_gw
             (\<lparr>pr_scheme = SCHEME, pr_network = net_network (xs_network xs), pr_max_amount_required = inv_amount i,
               pr_resource = (if resource = [] then xs_resource xs else resource),
               pr_description = show_commas (inv_tokens i) @ '' CodeZard tokens'', pr_pay_to = inv_destination i,
               pr_asset = bs_asset (xs_billing xs), pr_max_timeout_seconds = DEFAULT_TIMEOUT_S, pr_mime_type = ''application/json'',
               pr_extra = [(''memo'', JStr (inv_memo i)), (''invoice'', JStr (inv_id i)), (''tokens'', JInt (inv_tokens i))]\<rparr>, i)))))))"

definition x402_challenge :: "x402_service \<Rightarrow> string \<Rightarrow> string \<Rightarrow> string \<Rightarrow> ('z world_scheme, exn, payment_required) gw" where
  "x402_challenge xs account reason resource =
     bind_gw (requirements xs account resource None) (\<lambda>(r, _). return_gw \<lparr>pd_error = reason, pd_accepts = [r]\<rparr>)"

text \<open>\<^verbatim>\<open>_invoice_of\<close>: the stored invoice a requirement names, while it is open.\<close>

definition invoice_of :: "payment_requirements \<Rightarrow> ('z world_scheme, exn, invoice option) gw" where
  "invoice_of r =
     (let invoice_id = str_or_empty (obj_get ''invoice'' (JObj (pr_extra r)))
      in if invoice_id = [] then return_gw None
         else
           bind_gw (store_invoice invoice_id) (\<lambda>found.
             case found of
               None \<Rightarrow> return_gw None
             | Some i \<Rightarrow> bind_gw now_utc (\<lambda>now. return_gw (if inv_is_open i now then Some i else None))))"

definition invalid :: "string \<Rightarrow> verify_result" where
  "invalid reason = \<lparr>vr_valid = False, vr_payer = [], vr_reason = reason, vr_amount = []\<rparr>"

definition x402_verify ::
  "x402_service \<Rightarrow> payment_payload \<Rightarrow> payment_requirements \<Rightarrow> ('z world_scheme, exn, verify_result) gw" where
  "x402_verify xs payload r =
     (if pp_scheme payload \<noteq> SCHEME
        then return_gw (invalid (''scheme '' @ repr_str (pp_scheme payload) @ '' is not supported''))
      else if pp_network payload \<noteq> net_network (xs_network xs)
        then return_gw (invalid (''this is '' @ net_network (xs_network xs) @ '', not '' @ repr_str (pp_network payload)))
      else if pp_transaction payload = [] then return_gw (invalid ''the payload carries no signed transaction'')
      else
        bind_gw (invoice_of r) (\<lambda>found.
          case found of
            None \<Rightarrow> return_gw (invalid ''that payment requirement is unknown or expired'')
          | Some i \<Rightarrow> bind_gw tick (\<lambda>t. lift_gw (net_verify (xs_network xs) t (pp_transaction payload) i))))"

definition first_text :: "string \<Rightarrow> string \<Rightarrow> string" where
  "first_text s t = (if s = [] then t else s)"

definition x402_settle ::
  "x402_service \<Rightarrow> payment_payload \<Rightarrow> payment_requirements \<Rightarrow> ('z world_scheme, exn, settle_result) gw" where
  "x402_settle xs payload r =
     bind_gw (x402_verify xs payload r) (\<lambda>verified.
       if \<not> vr_valid verified
       then return_gw \<lparr>sr_success = False, sr_network = net_network (xs_network xs), sr_transaction = [], sr_payer = [],
                       sr_reason = vr_reason verified\<rparr>
       else
         bind_gw tick (\<lambda>t.
         bind_gw (lift_gw (net_settle (xs_network xs) t (pp_transaction payload))) (\<lambda>result.
           if \<not> sr_success result then return_gw result
           else
             bind_gw (invoice_of r) (\<lambda>found.
               case found of
                 None \<Rightarrow> return_gw result
               | Some i \<Rightarrow>
                   let payer = first_text (sr_payer result) (first_text (vr_payer verified) (inv_account i))
                   in then_gw (store_put_invoice (inv_paid i (sr_transaction result) payer))
                        (then_gw
                           (credit payer (inv_tokens i) PURCHASE (''x402:'' @ sr_transaction result) (inv_price i)
                              (''x402 '' @ utf8_middle_dot @ '' '' @ inv_amount i @ '' '' @ inv_asset i))
                           (return_gw result))))))"

text \<open>What \<^verbatim>\<open>redeem\<close> builds from the invoice the header names.\<close>

definition redeem_requirements :: "x402_service \<Rightarrow> string \<Rightarrow> invoice \<Rightarrow> payment_requirements" where
  "redeem_requirements xs resource i =
     \<lparr>pr_scheme = SCHEME, pr_network = net_network (xs_network xs), pr_max_amount_required = inv_amount i,
      pr_resource = (if resource = [] then xs_resource xs else resource), pr_description = [],
      pr_pay_to = inv_destination i, pr_asset = inv_asset i, pr_max_timeout_seconds = 300,
      pr_mime_type = ''application/json'', pr_extra = [(''memo'', JStr (inv_memo i)), (''invoice'', JStr (inv_id i))]\<rparr>"

definition redeem ::
  "x402_service \<Rightarrow> string \<Rightarrow> string \<Rightarrow> ('z world_scheme, exn, string \<times> settle_result) gw" where
  "redeem xs header resource =
     bind_gw (lift_gw (decode_payload (xs_codecs xs) header)) (\<lambda>payload.
       let invoice_id = str_or_empty (obj_get ''invoice'' (JObj (pp_payload payload)))
       in bind_gw (if invoice_id = [] then return_gw None else store_invoice invoice_id) (\<lambda>found.
            case found of
              None \<Rightarrow> raise_gw (X402Error ''that payment does not name an invoice this gateway issued'')
            | Some i \<Rightarrow>
                bind_gw
                  (x402_settle xs payload (redeem_requirements xs resource i)) (\<lambda>result.
                  if \<not> sr_success result
                  then raise_gw (X402Error (first_text (sr_reason result) ''the payment could not be settled''))
                  else return_gw (first_text (sr_payer result) (inv_account i), result))))"

section \<open>Redeeming a payment\<close>

text \<open>A live quote: the invoice is pending and no reading of the clock is past its end.\<close>

definition live :: "invoice \<Rightarrow> 'z world_scheme \<Rightarrow> bool" where
  "live i w \<longleftrightarrow> inv_status i = INV_PENDING \<and> (\<forall>t. w_clock w t < inv_expires_at i)"

lemma invoice_of_reads:
  fixes w :: "'z world_scheme"
  assumes "db_ok w" "str_or_empty (obj_get ''invoice'' (JObj (pr_extra r))) = k" "k \<noteq> []" "db_invoice w k = Some i"
  shows "invoice_of r w = (Inr (if inv_is_open i (w_clock w (w_tick w)) then Some i else None), w\<lparr>w_tick := w_tick w + 1\<rparr>)"
  using assms sqlite.get_invoice_reads [OF assms(1), of k]
  by (simp add: invoice_of_def now_utc_def tick_def gw_simps)

lemma live_open: "live i w \<Longrightarrow> inv_is_open i (w_clock w t)"
  by (simp add: live_def inv_is_open_def)

text \<open>A verified transaction that the ledger took: the invoice is paid and the payer is credited, once.\<close>

lemma settle_credits:
  fixes w :: "'z world_scheme"
  assumes ok: "billing_ok w" "ids_fresh w" and i: "db_invoice w k = Some i" "live i w" "storable_invoice i" "0 \<le> inv_tokens i"
    and r: "str_or_empty (obj_get ''invoice'' (JObj (pr_extra r))) = k" "k \<noteq> []"
    and p: "pp_scheme payload = SCHEME" "pp_network payload = net_network (xs_network xs)" "pp_transaction payload \<noteq> []"
    and net: "net_verify (xs_network xs) (w_tick w + 1) (pp_transaction payload) i = Inr verified" "vr_valid verified"
      "net_settle (xs_network xs) (w_tick w + 2) (pp_transaction payload) = Inr result" "sr_success result"
    and payer: "payer = first_text (sr_payer result) (first_text (vr_payer verified) (inv_account i))"
    and ref: "''x402:'' @ sr_transaction result \<notin> le_reference ` set (db_entries w)"
  shows "\<exists>w' e. x402_settle xs payload r w = (Inr result, w') \<and> db_ok w' \<and> db_entries w' = db_entries w @ [e]
     \<and> le_account e = payer \<and> le_kind e = PURCHASE \<and> le_tokens e = inv_tokens i \<and> le_amount e = inv_price i
     \<and> le_reference e = ''x402:'' @ sr_transaction result
     \<and> db_invoice w' = (db_invoice w)(k \<mapsto> inv_paid i (sr_transaction result) payer)"
proof -
  have db: "db_ok w" using ok(1) by (simp add: billing_ok_def)
  let ?w2 = "w\<lparr>w_tick := w_tick w + 2\<rparr>" and ?w3 = "w\<lparr>w_tick := w_tick w + 3\<rparr>" and ?w4 = "w\<lparr>w_tick := w_tick w + 4\<rparr>"
  have "x402_verify xs payload r w = (Inr verified, ?w2)"
    using invoice_of_reads [OF db r i(1)] live_open [OF i(2)] p net(1)
    by (simp add: x402_verify_def tick_def gw_simps)
  moreover have "invoice_of r ?w3 = (Inr (Some i), ?w4)"
    using invoice_of_reads [of ?w3 r k i] db r i(1) live_open [OF i(2)] by simp
  moreover obtain w5 where w5: "store_put_invoice (inv_paid i (sr_transaction result) payer) ?w4 = (Inr (inv_paid i (sr_transaction result) payer), w5)"
      "db_ok w5" "db_entries w5 = db_entries w" "db_invoice w5 = (db_invoice w)(k \<mapsto> inv_paid i (sr_transaction result) payer)"
      "w_clock w5 = w_clock w" "w_hex w5 = w_hex w" "w_tick w5 = w_tick w + 4"
    using put_paid [of ?w4 k i "sr_transaction result" payer] db i(1,3) by auto
  moreover have "billing_ok w5" "ids_fresh w5"
    using later_world_ok [OF ok(1) w5(2,3,5)] later_world_fresh [OF ok(2) w5(3,6)] w5(7) by simp_all
  moreover have "sqlite_int (inv_tokens i)" "sqlite_int (micros (inv_price i))" using i(3) by (auto simp: storable_invoice_def)
  moreover have "''x402:'' @ sr_transaction result \<notin> le_reference ` set (db_entries w5)" using ref w5(3) by simp
  ultimately obtain w' e where w': "credit payer (inv_tokens i) PURCHASE (''x402:'' @ sr_transaction result) (inv_price i)
        (''x402 '' @ utf8_middle_dot @ '' '' @ inv_amount i @ '' '' @ inv_asset i) w5 = (Inr e, w')" "db_ok w'"
      "db_entries w' = db_entries w5 @ [e]" "db_invoice w' = db_invoice w5"
      and e: "le_account e = payer" "le_kind e = PURCHASE" "le_tokens e = inv_tokens i" "le_amount e = inv_price i"
        "le_reference e = ''x402:'' @ sr_transaction result"
    using credit_new [of w5 "inv_tokens i" "inv_price i" "''x402:'' @ sr_transaction result"] i(4)
    by (fastforce simp: credit_row_def)
  have "x402_settle xs payload r w = (Inr result, w')"
    using \<open>x402_verify xs payload r w = _\<close> net(2-4) \<open>invoice_of r ?w3 = _\<close> w5(1) w'(1)
    unfolding payer by (simp add: x402_settle_def tick_def gw_simps Let_def eval_nat_numeral)
  with w' w5(3,4) e show ?thesis by auto
qed

lemma redeem_settles:
  fixes w :: "'z world_scheme"
  assumes "db_ok w" "decode_payload (xs_codecs xs) header = Inr payload"
    and "str_or_empty (obj_get ''invoice'' (JObj (pp_payload payload))) = k" "k \<noteq> []" "db_invoice w k = Some i"
  shows "redeem xs header resource w =
     bind_gw (x402_settle xs payload (redeem_requirements xs resource i)) (\<lambda>result.
       if \<not> sr_success result then raise_gw (X402Error (first_text (sr_reason result) ''the payment could not be settled''))
       else return_gw (first_text (sr_payer result) (inv_account i), result)) w"
    and "str_or_empty (obj_get ''invoice'' (JObj (pr_extra (redeem_requirements xs resource i)))) = k"
proof -
  show "redeem xs header resource w =
     bind_gw (x402_settle xs payload (redeem_requirements xs resource i)) (\<lambda>result.
       if \<not> sr_success result then raise_gw (X402Error (first_text (sr_reason result) ''the payment could not be settled''))
       else return_gw (first_text (sr_payer result) (inv_account i), result)) w"
    unfolding redeem_def
    using assms(2-5) sqlite.get_invoice_reads [OF assms(1), of k]
    by (simp add: bind_lift bind_gw_Inr [of "store_invoice k" w "Some i" w])
  show "str_or_empty (obj_get ''invoice'' (JObj (pr_extra (redeem_requirements xs resource i)))) = k"
    using db_invoice_id [OF assms(1,5)] by (simp add: redeem_requirements_def str_or_empty_def)
qed

lemma redeem_closed:
  fixes w :: "'z world_scheme"
  assumes "db_ok w" "decode_payload (xs_codecs xs) header = Inr payload"
    and "str_or_empty (obj_get ''invoice'' (JObj (pp_payload payload))) = k" "k \<noteq> []" "db_invoice w k = Some i"
    and "inv_status i \<noteq> INV_PENDING"
  shows "\<exists>e w'. redeem xs header resource w = (Inl (X402Error e), w') \<and> db_entries w' = db_entries w \<and> db_invoice w' = db_invoice w"
proof -
  have "\<exists>reason w'. x402_verify xs payload (redeem_requirements xs resource i) w = (Inr (invalid reason), w')
      \<and> db_entries w' = db_entries w \<and> db_invoice w' = db_invoice w"
    using invoice_of_reads [OF assms(1) redeem_settles(2) [OF assms(1-5), of resource] assms(4,5)] assms(6)
    by (auto simp: x402_verify_def gw_simps inv_is_open_def)
  then show ?thesis
    unfolding redeem_settles(1) [OF assms(1-5)]
    by (auto simp: x402_settle_def bind_gw_def invalid_def return_gw_def raise_gw_def)
qed

text \<open>C6. A payment header buys once, for whoever signed. When the transaction in it verifies against the invoice
  it names and the ledger takes it, the account that paid gains one PURCHASE row with the invoice's
  tokens, whatever account the invoice was raised for, and the invoice is paid by that transaction; the
  call names the payer the ledger reported. The same header a second time buys nothing and is refused.\<close>

theorem redeem_credits_the_payer_once:
  fixes w :: "'z world_scheme"
  assumes ok: "billing_ok w" "ids_fresh w" and i: "db_invoice w k = Some i" "live i w" "storable_invoice i" "0 \<le> inv_tokens i"
    and header: "decode_payload (xs_codecs xs) header = Inr payload"
      "str_or_empty (obj_get ''invoice'' (JObj (pp_payload payload))) = k" "k \<noteq> []"
    and p: "pp_scheme payload = SCHEME" "pp_network payload = net_network (xs_network xs)" "pp_transaction payload \<noteq> []"
    and net: "net_verify (xs_network xs) (w_tick w + 1) (pp_transaction payload) i = Inr verified" "vr_valid verified"
      "net_settle (xs_network xs) (w_tick w + 2) (pp_transaction payload) = Inr result" "sr_success result"
    and ref: "''x402:'' @ sr_transaction result \<notin> le_reference ` set (db_entries w)"
  shows "\<exists>w' e. redeem xs header resource w = (Inr (first_text (sr_payer result) (inv_account i), result), w')
     \<and> db_entries w' = db_entries w @ [e] \<and> le_kind e = PURCHASE \<and> le_tokens e = inv_tokens i \<and> le_amount e = inv_price i
     \<and> le_account e = first_text (sr_payer result) (first_text (vr_payer verified) (inv_account i))
     \<and> db_invoice w' k = Some (inv_paid i (sr_transaction result) (le_account e))
     \<and> (\<exists>reason w''. redeem xs header again w' = (Inl (X402Error reason), w'') \<and> db_entries w'' = db_entries w')"
proof -
  have db: "db_ok w" using ok(1) by (simp add: billing_ok_def)
  note r = redeem_settles [OF db header i(1), of resource]
  from settle_credits [OF ok i r(2) header(3) p net refl ref] obtain w' e where
    w': "x402_settle xs payload (redeem_requirements xs resource i) w = (Inr result, w')" "db_ok w'"
      "db_entries w' = db_entries w @ [e]"
      "db_invoice w' = (db_invoice w)(k \<mapsto> inv_paid i (sr_transaction result) (le_account e))"
    and e: "le_account e = first_text (sr_payer result) (first_text (vr_payer verified) (inv_account i))" "le_kind e = PURCHASE"
      "le_tokens e = inv_tokens i" "le_amount e = inv_price i" by force
  have paid: "db_invoice w' k = Some (inv_paid i (sr_transaction result) (le_account e))" using w'(4) by simp
  have "inv_status (inv_paid i (sr_transaction result) (le_account e)) \<noteq> INV_PENDING" by (simp add: inv_paid_def)
  from redeem_closed [OF w'(2) header paid this, of again] obtain reason w'' where
    "redeem xs header again w' = (Inl (X402Error reason), w'')" "db_entries w'' = db_entries w'" by blast
  moreover have "redeem xs header resource w = (Inr (first_text (sr_payer result) (inv_account i), result), w')"
    using w'(1) net(4) by (simp add: r(1) bind_gw_def return_gw_def)
  ultimately show ?thesis using w'(3) e paid by blast
qed

section \<open>Examples\<close>

lemma b64encode_visible: "c \<in> set (b64encode u bs) \<Longrightarrow> 33 \<le> byte c \<and> byte c < 128"
proof -
  have "list_all (\<lambda>d. d < 64) (b64_digits (map byte bs))" by (rule b64_digits_bound) (rule bytes_bound)
  then show "c \<in> set (b64encode u bs) \<Longrightarrow> ?thesis"
    using b64_char_visible padding_is_pad by (fastforce simp: b64encode_def Let_def list_all_iff byte_def)
qed

lemma b64encode_bounds: "bs \<noteq> [] \<Longrightarrow> b64encode u bs \<noteq> []" "length (b64encode u bs) \<le> 2 * length bs + 3"
proof -
  have "length (b64_digits ns) \<le> 2 * length ns" "ns \<noteq> [] \<Longrightarrow> b64_digits ns \<noteq> []" for ns
    by (induction ns rule: b64_digits.induct) auto
  from this [of "map byte bs"] show "bs \<noteq> [] \<Longrightarrow> b64encode u bs \<noteq> []" "length (b64encode u bs) \<le> 2 * length bs + 3"
    by (auto simp: b64encode_def b64_padding_def Let_def nat_le_iff)
qed

lemma decode_encoded:
  assumes "json_loads cod body = Some (JObj kvs)" "body \<noteq> []" "length body \<le> 8000" "equals_one (obj_get ''x402Version'' (JObj kvs))"
  shows "decode_payload cod (b64encode False body) =
     Inr \<lparr>pp_scheme = str_or_empty (obj_get ''scheme'' (JObj kvs)), pp_network = str_or_empty (obj_get ''network'' (JObj kvs)),
          pp_payload = mapping_items (obj_get ''payload'' (JObj kvs)), pp_version = X402_VERSION\<rparr>"
proof -
  let ?h = "b64encode False body"
  have ne: "?h \<noteq> []" using b64encode_bounds(1) assms(2) .
  have "strip ?h = ?h"
    by (rule strip_visible) (use ne b64encode_visible [of "hd ?h" False body] b64encode_visible [of "last ?h" False body] in auto)
  moreover have "py_len ?h = length ?h"
    by (rule py_len_ascii) (use b64encode_visible in \<open>auto simp: ascii_def list_all_iff\<close>)
  moreover have "length ?h \<le> MAX_PAYLOAD_BYTES" using b64encode_bounds(2) [of False body] assms(3) by (simp add: MAX_PAYLOAD_BYTES_def)
  ultimately show ?thesis using ne assms(1,4) by (simp add: decode_payload_def b64decode_encode)
qed

definition sample_payload :: string where
  "sample_payload = (let q = [dquote]
     in ''{'' @ q @ ''x402Version'' @ q @ '':1,'' @ q @ ''scheme'' @ q @ '':'' @ q @ ''exact'' @ q @ '','' @ q @ ''network'' @ q @ '':'' @ q @ ''t'' @ q
        @ '','' @ q @ ''payload'' @ q @ '':{'' @ q @ ''transaction'' @ q @ '':'' @ q @ ''xdr'' @ q @ '','' @ q @ ''invoice'' @ q @ '':'' @ q @ ''cz01'' @ q @ ''}}'')"

definition sample_kvs :: "(string \<times> json) list" where
  "sample_kvs = [(''x402Version'', JInt 1), (''scheme'', JStr ''exact''), (''network'', JStr ''t''),
     (''payload'', JObj [(''transaction'', JStr ''xdr''), (''invoice'', JStr ''cz01'')])]"

definition x402_codecs :: codecs where
  "x402_codecs = \<lparr>cd_float = (\<lambda>s. Finite s 0 False), cd_wide = (\<lambda>_. None)\<rparr>"

lemma sample_payload_read: "json_loads x402_codecs sample_payload = Some (JObj sample_kvs)"
  by code_simp

definition sample_verified :: verify_result where
  "sample_verified = \<lparr>vr_valid = True, vr_payer = ''GP'', vr_reason = [], vr_amount = ''80.0000000''\<rparr>"

definition sample_settled :: settle_result where
  "sample_settled = \<lparr>sr_success = True, sr_network = ''t'', sr_transaction = ''ff'', sr_payer = ''GP'', sr_reason = []\<rparr>"

definition sample_x402 :: x402_service where
  "sample_x402 = \<lparr>xs_billing = sample_service,
     xs_network = \<lparr>net_network = ''t'', net_destination = ''GD'', net_payment_for = \<lambda>_ _. Inr None, net_quote = \<lambda>_ _ _. Inr ''80.0000000'',
        net_verify = \<lambda>_ _ _. Inr sample_verified, net_settle = \<lambda>_ _. Inr sample_settled\<rparr>,
     xs_price = Money 1000000, xs_resource = ''/runs'', xs_codecs = x402_codecs\<rparr>"

theorem redeem_credits_the_payer_once_witness:
  "\<exists>w' e. redeem sample_x402 (b64encode False sample_payload) [] (invoice_world sample_invoice) = (Inr (''GP'', sample_settled), w')
     \<and> db_entries w' = [e] \<and> le_account e = ''GP'' \<and> le_tokens e = inv_tokens sample_invoice"
proof -
  note i = invoice_world_facts [OF sample_invoice_storable]
  have id: "inv_id sample_invoice = ''cz01''" by (simp add: sample_invoice_def)
  have "int (t mod 1000000) < INVOICE_TTL" for t :: nat
  proof -
    have "int (t mod 1000000) < 1000000" by simp
    then show ?thesis by (simp add: INVOICE_TTL_def td_minutes_def)
  qed
  then have alive: "live sample_invoice (invoice_world sample_invoice)"
    by (simp add: live_def sample_invoice_def invoice_world_def sample_world_def)
  define payload where "payload = \<lparr>pp_scheme = ''exact'', pp_network = ''t'', pp_payload = [(''transaction'', JStr ''xdr''), (''invoice'', JStr ''cz01'')], pp_version = X402_VERSION\<rparr>"
  have len: "sample_payload \<noteq> []" "length sample_payload \<le> 8000" by (simp_all add: sample_payload_def Let_def)
  have header: "decode_payload (xs_codecs sample_x402) (b64encode False sample_payload) = Inr payload"
    using decode_encoded [OF sample_payload_read len] by (simp add: sample_kvs_def str_or_empty_def payload_def sample_x402_def)
  have p: "str_or_empty (obj_get ''invoice'' (JObj (pp_payload payload))) = ''cz01''" "''cz01'' \<noteq> []"
    "pp_scheme payload = SCHEME" "pp_network payload = net_network (xs_network sample_x402)" "pp_transaction payload \<noteq> []"
    by (simp_all add: payload_def str_or_empty_def SCHEME_def sample_x402_def pp_transaction_def)
  have net: "net_verify (xs_network sample_x402) n t j = Inr sample_verified" "vr_valid sample_verified"
    "net_settle (xs_network sample_x402) n t = Inr sample_settled" "sr_success sample_settled" for n t j
    by (simp_all add: sample_x402_def sample_verified_def sample_settled_def)
  have ref: "''x402:'' @ sr_transaction sample_settled \<notin> le_reference ` set (db_entries (invoice_world sample_invoice))" using i(4) by simp
  from redeem_credits_the_payer_once [OF i(1,3) i(2) [unfolded id] alive sample_invoice_storable sample_invoice_pending(2) header p net ref, of "[]" "[]"] i(4)
  show ?thesis by (fastforce simp: first_text_def sample_settled_def)
qed

end
