(* ===== verification/Stellar.thy ===== *)
theory Stellar
  imports X402
begin

text \<open>
  \<^verbatim>\<open>infrastructure/billing/stellar.py\<close>: the payment network over Horizon, and the verifier of signatures.

  What Horizon answers is an argument (\<open>hz_get\<close>, \<open>hz_post\<close>: no answer, or a status and a body that may not be
  JSON), and so is what \<^verbatim>\<open>stellar_sdk\<close> reads in a signed envelope (\<open>sdk_from_xdr\<close>) and its keys. The time of a
  payment is read by \<^verbatim>\<open>datetime.fromisoformat\<close>, an argument too: nothing reads it afterwards. Decimal division
  and printing are those of \<^verbatim>\<open>decimal\<close>. Texts of library exceptions are left out of messages.
\<close>

section \<open>Configuration\<close>

record network_settings =
  ns_horizon :: string
  ns_passphrase :: string
  ns_x402 :: string
  ns_explorer :: string

definition NETWORKS :: "string \<Rightarrow> network_settings" where
  "NETWORKS n =
     (if n = ''public''
      then \<lparr>ns_horizon = ''https://horizon.stellar.org'', ns_passphrase = ''Public Global Stellar Network ; September 2015'',
            ns_x402 = ''stellar'', ns_explorer = ''https://stellar.expert/explorer/public''\<rparr>
      else \<lparr>ns_horizon = ''https://horizon-testnet.stellar.org'', ns_passphrase = ''Test SDF Network ; September 2015'',
            ns_x402 = ''stellar-testnet'', ns_explorer = ''https://stellar.expert/explorer/testnet''\<rparr>)"

definition STROOPS_EXP :: int where "STROOPS_EXP = - 7"
definition PAYMENT_PAGE :: int where "PAYMENT_PAGE = 50"

record stellar_config =
  sc_network :: string
  sc_horizon_url :: string
  sc_destination :: string
  sc_asset :: string
  sc_usdc_issuer :: string
  sc_xlm_usd :: string

definition sc_horizon :: "stellar_config \<Rightarrow> string" where
  "sc_horizon cfg =
     rev (dropWhile (\<lambda>c. c = CHR ''/'') (rev (first_text (sc_horizon_url cfg) (ns_horizon (NETWORKS (sc_network cfg))))))"

definition explorer_tx :: "stellar_config \<Rightarrow> string \<Rightarrow> string" where
  "explorer_tx cfg tx_hash = ns_explorer (NETWORKS (sc_network cfg)) @ ''/tx/'' @ tx_hash"

section \<open>Decimals\<close>

text \<open>\<^verbatim>\<open>a / b\<close> in the default context.\<close>

fun strip_zeros :: "nat \<Rightarrow> nat \<Rightarrow> nat \<times> nat" where
  "strip_zeros 0 c = (c, 0)"
| "strip_zeros (Suc k) c = (if c mod 10 = 0 then (case strip_zeros k (c div 10) of (d, n) \<Rightarrow> (d, n + 1)) else (c, 0))"

definition dec_div :: "int \<Rightarrow> int \<Rightarrow> int \<Rightarrow> int \<Rightarrow> exn + decimal" where
  "dec_div a e b f =
     (if b = 0 then Inl (DecimalSignal (if a = 0 then ''InvalidOperation'' else ''DivisionByZero''))
      else if a = 0 then Inr (Fin 0 (e - f))
      else
        let shift = int (ndigits (nat \<bar>b\<bar>)) - int (ndigits (nat \<bar>a\<bar>)) + int PREC + 1;
            x = nat \<bar>a\<bar> * 10 ^ nat shift; y = nat \<bar>b\<bar> * 10 ^ nat (- shift);
            q = x div y
        in if x mod y \<noteq> 0
           then dec_finish (sgn a * sgn b * int (if q mod 5 = 0 then q + 1 else q)) (e - f - shift)
           else (case strip_zeros (nat shift) q of
                   (d, n) \<Rightarrow> dec_finish (sgn a * sgn b * int d) (e - f - shift + int n)))"

text \<open>\<^verbatim>\<open>str(Decimal)\<close> of a finite decimal.\<close>

definition dec_str :: "int \<Rightarrow> int \<Rightarrow> string" where
  "dec_str c e =
     (let ds = show_nat (nat \<bar>c\<bar>); leftdigits = e + int (length ds);
          dot = (if e \<le> 0 \<and> - 6 < leftdigits then leftdigits else 1);
          body = (if dot \<le> 0 then ''0.'' @ replicate (nat (- dot)) (CHR ''0'') @ ds
                  else if int (length ds) \<le> dot then ds @ replicate (nat (dot - int (length ds))) (CHR ''0'')
                  else take (nat dot) ds @ ''.'' @ drop (nat dot) ds);
          ex = (if leftdigits = dot then []
                else ''E'' @ (if 0 \<le> leftdigits - dot then ''+'' else []) @ show_int (leftdigits - dot))
      in (if c < 0 then ''-'' else []) @ body @ ex)"

definition amount_text :: "int \<Rightarrow> int \<Rightarrow> exn + string" where
  "amount_text c e =
     (case dec_quantize ROUND_UP STROOPS_EXP c e of Inl x \<Rightarrow> Inl x | Inr m \<Rightarrow> Inr (dec_str m STROOPS_EXP))"

text \<open>\<^verbatim>\<open>_decimal\<close>: what cannot be read as a finite number is zero.\<close>

definition decimal_or_zero :: "json \<Rightarrow> int \<times> int" where
  "decimal_or_zero v =
     (case decimal_of (if truthy v then py_str v else ''0'') of
        Some (Fin c e) \<Rightarrow> (c, e)
      | _ \<Rightarrow> (0, 0))"

section \<open>Horizon\<close>

datatype horizon_reply = Unreachable | Reply int "json option"

record horizon =
  hz_get :: "nat \<Rightarrow> string \<Rightarrow> (string \<times> string) list \<Rightarrow> horizon_reply"
  hz_post :: "nat \<Rightarrow> string \<Rightarrow> (string \<times> string) list \<Rightarrow> horizon_reply"
  hz_time :: "nat \<Rightarrow> string \<Rightarrow> datetime"

definition json_or :: "json \<Rightarrow> json \<Rightarrow> json" where
  "json_or a b = (if truthy a then a else b)"

definition records_of :: "json \<Rightarrow> json list" where
  "records_of body = items_of (obj_get ''records'' (obj_get ''_embedded'' body))"

definition payment_of :: "horizon \<Rightarrow> nat \<Rightarrow> json \<Rightarrow> observed_payment option" where
  "payment_of hz t r =
     (if obj_get ''type'' r \<noteq> JStr ''payment'' \<and> obj_get ''type'' r \<noteq> JStr ''create_account'' then None
      else
        let tx = obj_get ''transaction'' r
        in Some
          \<lparr>pay_tx_hash = str_or_empty (obj_get ''transaction_hash'' r),
           pay_payer = str_or_empty (json_or (obj_get ''from'' r) (obj_get ''funder'' r)),
           pay_destination = str_or_empty (json_or (obj_get ''to'' r) (obj_get ''account'' r)),
           pay_asset =
             (if (case r of JObj kvs \<Rightarrow> map_of kvs ''asset_type'' = None \<or> map_of kvs ''asset_type'' = Some (JStr ''native'') | _ \<Rightarrow> True)
              then ''XLM''
              else upper (if truthy (obj_get ''asset_code'' r) then py_str (obj_get ''asset_code'' r) else ''?'')),
           pay_amount =
             (let v = json_or (obj_get ''amount'' r) (obj_get ''starting_balance'' r) in if truthy v then py_str v else ''0''),
           pay_memo = (if is_mapping tx \<and> obj_get ''memo_type'' tx = JStr ''text'' then str_or_empty (obj_get ''memo'' tx) else []),
           pay_at = hz_time hz t (py_str (obj_get ''created_at'' r))\<rparr>)"

fun first_with_memo :: "horizon \<Rightarrow> nat \<Rightarrow> string \<Rightarrow> json list \<Rightarrow> observed_payment option" where
  "first_with_memo hz t memo [] = None"
| "first_with_memo hz t memo (r # rs) =
     (case payment_of hz t r of
        Some p \<Rightarrow> if pay_memo p = memo then Some p else first_with_memo hz t memo rs
      | None \<Rightarrow> first_with_memo hz t memo rs)"

definition not_json :: exn where
  "not_json = ValueError ''the body is not JSON''"

definition payment_for :: "stellar_config \<Rightarrow> horizon \<Rightarrow> nat \<Rightarrow> invoice \<Rightarrow> exn + observed_payment option" where
  "payment_for cfg hz t i =
     (case hz_get hz t (sc_horizon cfg @ ''/accounts/'' @ inv_destination i @ ''/payments'')
             [(''order'', ''desc''), (''limit'', show_int PAYMENT_PAGE), (''join'', ''transactions'')] of
        Unreachable \<Rightarrow> Inl (PaymentNetworkError ''Horizon could not be reached'')
      | Reply status body \<Rightarrow>
          if status = 404 then Inr None
          else if 400 \<le> status then Inl (PaymentNetworkError (''Horizon answered '' @ show_int status))
          else
            (case body of
               None \<Rightarrow> Inl not_json
             | Some b \<Rightarrow> Inr (first_with_memo hz t (inv_memo i) (records_of b))))"

text \<open>The rate: a positive amount the DEX offers, else the configured one. An error of the connection or of
  the body falls back too.\<close>

fun first_positive :: "json list \<Rightarrow> (int \<times> int) option" where
  "first_positive [] = None"
| "first_positive (r # rs) =
     (let (c, e) = decimal_or_zero (obj_get ''destination_amount'' r) in if 0 < c then Some (c, e) else first_positive rs)"

definition xlm_usd :: "stellar_config \<Rightarrow> horizon \<Rightarrow> nat \<Rightarrow> int \<times> int" where
  "xlm_usd cfg hz t =
     (let fallback = decimal_or_zero (JStr (sc_xlm_usd cfg))
      in if sc_usdc_issuer cfg = [] then fallback
         else
           (case hz_get hz t (sc_horizon cfg @ ''/paths/strict-send'')
                   [(''source_asset_type'', ''native''), (''source_amount'', ''1''),
                    (''destination_assets'', ''USDC:'' @ sc_usdc_issuer cfg)] of
              Reply status (Some b) \<Rightarrow>
                if status < 400 then (case first_positive (records_of b) of Some r \<Rightarrow> r | None \<Rightarrow> fallback) else fallback
            | _ \<Rightarrow> fallback))"

text \<open>\<^verbatim>\<open>price.decimal\<close>, and what is done with it.\<close>

definition with_decimal :: "exn + decimal \<Rightarrow> (int \<Rightarrow> int \<Rightarrow> exn + 'a) \<Rightarrow> exn + 'a" where
  "with_decimal d f =
     (case d of Inl x \<Rightarrow> Inl x | Inr (Fin c e) \<Rightarrow> f c e | Inr _ \<Rightarrow> Inl (DecimalSignal ''InvalidOperation''))"

definition money_decimal :: "money \<Rightarrow> exn + decimal" where
  "money_decimal m = dec_div (micros m) 0 MICROS 0"

definition stellar_quote :: "stellar_config \<Rightarrow> horizon \<Rightarrow> nat \<Rightarrow> money \<Rightarrow> string \<Rightarrow> exn + string" where
  "stellar_quote cfg hz t price asset =
     (if upper (first_text asset (sc_asset cfg)) = ''USDC'' then with_decimal (money_decimal price) amount_text
      else
        (case xlm_usd cfg hz t of
           (c, f) \<Rightarrow>
             if c \<le> 0
             then Inl (PaymentNetworkError (''there is no XLM/USD rate: the DEX could not be asked and no fallback rate ''
                    @ ''is configured (GATEWAY_BILLING__XLM_USD)''))
             else with_decimal (money_decimal price) (\<lambda>p e. with_decimal (dec_div p e c f) amount_text)))"

definition horizon_error :: "json \<Rightarrow> string" where
  "horizon_error body =
     (let codes = obj_get ''result_codes'' (obj_get ''extras'' body)
      in if is_mapping codes then
           (let detail = join '', '' (map py_str (list_of (obj_get ''operations'' codes)));
                headline = (if truthy (obj_get ''transaction'' codes) then py_str (obj_get ''transaction'' codes) else ''the transaction failed'')
            in if detail = [] then headline else headline @ '' ('' @ detail @ '')'')
         else if truthy (obj_get ''title'' body) then py_str (obj_get ''title'' body) else ''Horizon refused the transaction'')"

definition stellar_settle :: "stellar_config \<Rightarrow> horizon \<Rightarrow> nat \<Rightarrow> string \<Rightarrow> exn + settle_result" where
  "stellar_settle cfg hz t transaction =
     (let network = ns_x402 (NETWORKS (sc_network cfg));
          refused = (\<lambda>tx reason. Inr \<lparr>sr_success = False, sr_network = network, sr_transaction = tx, sr_payer = [], sr_reason = reason\<rparr>)
      in case hz_post hz t (sc_horizon cfg @ ''/transactions'') [(''tx'', transaction)] of
           Unreachable \<Rightarrow> refused [] ''Horizon could not be reached''
         | Reply status b \<Rightarrow>
             (let body = (case b of Some (JObj kvs) \<Rightarrow> JObj kvs | _ \<Rightarrow> JObj [])
              in if 400 \<le> status then refused [] (horizon_error body)
                 else if (case map_of (mapping_items body) ''successful'' of None \<Rightarrow> False | Some v \<Rightarrow> \<not> truthy v)
                   then refused (str_or_empty (obj_get ''hash'' body)) ''the transaction was included and failed''
                 else Inr \<lparr>sr_success = True, sr_network = network, sr_transaction = str_or_empty (obj_get ''hash'' body),
                           sr_payer = str_or_empty (obj_get ''source_account'' body), sr_reason = []\<rparr>))"

section \<open>Signed envelopes\<close>

text \<open>What \<^verbatim>\<open>stellar_sdk\<close> reads in an envelope: the account it spends from, the text of its memo (\<open>None\<close> for another
  kind of memo), its operations, and which of its signatures a given account made for this network.\<close>

record sdk_asset =
  as_code :: "string option"
  as_issuer :: "string option"

datatype operation = PaymentOperation string sdk_asset string | OtherOperation

record envelope =
  env_source :: string
  env_memo :: "string option"
  env_operations :: "operation list"
  env_signatures :: "string list"
  env_verifies :: "string \<Rightarrow> string \<Rightarrow> bool"

record sdk =
  sdk_from_xdr :: "string \<Rightarrow> string \<Rightarrow> envelope option"

definition signed_by :: "envelope \<Rightarrow> string \<Rightarrow> bool" where
  "signed_by env address = list_ex (env_verifies env address) (env_signatures env)"

definition asset_code :: "sdk_asset \<Rightarrow> string" where
  "asset_code a =
     (if (as_code a = None \<or> as_code a = Some ''XLM'') \<and> as_issuer a = None then ''XLM''
      else case as_code a of None \<Rightarrow> ''XLM'' | Some c \<Rightarrow> upper (first_text c ''XLM''))"

definition memo_text :: "string option \<Rightarrow> string" where
  "memo_text m = (case m of None \<Rightarrow> [] | Some s \<Rightarrow> s)"

text \<open>The first payment to the right place in the right asset decides.\<close>

fun paying_operation :: "invoice \<Rightarrow> string \<Rightarrow> operation list \<Rightarrow> exn + verify_result" where
  "paying_operation i payer [] =
     Inr \<lparr>vr_valid = False, vr_payer = payer, vr_reason = ''no operation pays '' @ inv_asset i @ '' to '' @ inv_destination i, vr_amount = []\<rparr>"
| "paying_operation i payer (OtherOperation # ops) = paying_operation i payer ops"
| "paying_operation i payer (PaymentOperation dest asset amount # ops) =
     (if dest \<noteq> inv_destination i \<or> asset_code asset \<noteq> upper (inv_asset i) then paying_operation i payer ops
      else
        (case (decimal_or_zero (JStr amount), decimal_or_zero (JStr (inv_amount i))) of
           ((c, e), (d, f)) \<Rightarrow>
             (case amount_text c e of
                Inl x \<Rightarrow> Inl x
              | Inr paid \<Rightarrow>
                  if fin_le d f c e then Inr \<lparr>vr_valid = True, vr_payer = payer, vr_reason = [], vr_amount = paid\<rparr>
                  else Inr \<lparr>vr_valid = False, vr_payer = payer,
                            vr_reason = ''it pays '' @ paid @ '' and the price is '' @ inv_amount i, vr_amount = paid\<rparr>)))"

definition stellar_verify :: "stellar_config \<Rightarrow> sdk option \<Rightarrow> string \<Rightarrow> invoice \<Rightarrow> exn + verify_result" where
  "stellar_verify cfg lib transaction i =
     (case lib of
        None \<Rightarrow> Inr (invalid (''this gateway cannot read signed transactions: the Stellar dependency is not ''
                    @ ''installed (pip install -e '' @ [dquote] @ ''.[stellar]'' @ [dquote] @ '')''))
      | Some l \<Rightarrow>
          (case sdk_from_xdr l transaction (ns_passphrase (NETWORKS (sc_network cfg))) of
             None \<Rightarrow> Inr (invalid ''the transaction could not be read'')
           | Some env \<Rightarrow>
               let payer = env_source env; memo = memo_text (env_memo env);
                   refused = (\<lambda>reason. Inr \<lparr>vr_valid = False, vr_payer = payer, vr_reason = reason, vr_amount = []\<rparr>)
               in if memo \<noteq> inv_memo i
                  then refused (''the transaction'' @ [char_of (39::nat)] @ ''s memo is '' @ repr_str memo @ '', not '' @ repr_str (inv_memo i))
                  else if \<not> signed_by env payer
                  then refused (''the transaction is not signed by its source account for '' @ sc_network cfg)
                  else paying_operation i payer (env_operations env)))"

text \<open>\<^verbatim>\<open>StellarNetwork\<close>, as the port the services take.\<close>

definition stellar_network :: "stellar_config \<Rightarrow> horizon \<Rightarrow> sdk option \<Rightarrow> x402_network" where
  "stellar_network cfg hz lib =
     \<lparr>net_network = ns_x402 (NETWORKS (sc_network cfg)), net_destination = sc_destination cfg,
      net_payment_for = payment_for cfg hz, net_quote = stellar_quote cfg hz,
      net_verify = (\<lambda>_. stellar_verify cfg lib), net_settle = stellar_settle cfg hz\<rparr>"

section \<open>Signatures\<close>

text \<open>\<^verbatim>\<open>StellarSignatures\<close>, over the SDK's keys: whether an address is a key, and its two ways to check a message.\<close>

record keypair =
  kp_is_key :: "string \<Rightarrow> bool"
  kp_verify_message :: "string \<Rightarrow> string \<Rightarrow> string \<Rightarrow> bool"
  kp_verify :: "string \<Rightarrow> string \<Rightarrow> string \<Rightarrow> bool"

definition signatures_available :: "keypair option \<Rightarrow> bool" where
  "signatures_available kp \<longleftrightarrow> kp \<noteq> None"

definition signatures_verify :: "keypair option \<Rightarrow> string \<Rightarrow> string \<Rightarrow> string \<Rightarrow> bool" where
  "signatures_verify kp address message signature =
     (case kp of
        None \<Rightarrow> False
      | Some k \<Rightarrow>
          (case b64decode False True signature of
             None \<Rightarrow> False
           | Some raw \<Rightarrow> kp_is_key k address \<and> (kp_verify_message k address message raw \<or> kp_verify k address message raw)))"

section \<open>What a verified envelope pays\<close>

definition pays :: "invoice \<Rightarrow> operation \<Rightarrow> bool" where
  "pays i op \<longleftrightarrow> (\<exists>asset amount c e d f. op = PaymentOperation (inv_destination i) asset amount \<and> asset_code asset = upper (inv_asset i)
     \<and> decimal_or_zero (JStr amount) = (c, e) \<and> decimal_or_zero (JStr (inv_amount i)) = (d, f) \<and> fin_le d f c e)"

lemma paying_operation_pays:
  "paying_operation i payer ops = Inr v \<Longrightarrow> vr_valid v \<Longrightarrow> vr_payer v = payer \<and> (\<exists>op \<in> set ops. pays i op)"
proof (induction i payer ops rule: paying_operation.induct)
  case (3 i payer dest asset amount ops)
  obtain c e d f where d: "decimal_or_zero (JStr amount) = (c, e)" "decimal_or_zero (JStr (inv_amount i)) = (d, f)" by fastforce
  show ?case
  proof (cases "dest \<noteq> inv_destination i \<or> asset_code asset \<noteq> upper (inv_asset i)")
    case True
    with 3 show ?thesis by auto
  next
    case False
    with 3 d have "vr_payer v = payer" "fin_le d f c e" by (auto split: sum.splits if_splits)
    with False d have "pays i (PaymentOperation dest asset amount)" by (auto simp: pays_def)
    with \<open>vr_payer v = payer\<close> show ?thesis by auto
  qed
qed auto

text \<open>C8. What an x402 verification promises. An envelope is called valid only when it was read for this network,
  carries the invoice's memo, is signed by the account it spends from, and has an operation that pays at
  least the invoice's amount to the invoice's destination in an asset of the invoice's code; and the payer
  reported is that account.\<close>

theorem verified_envelope_pays_the_invoice:
  assumes "stellar_verify cfg lib transaction i = Inr v" "vr_valid v"
  shows "\<exists>l env. lib = Some l \<and> sdk_from_xdr l transaction (ns_passphrase (NETWORKS (sc_network cfg))) = Some env
     \<and> memo_text (env_memo env) = inv_memo i \<and> signed_by env (env_source env) \<and> vr_payer v = env_source env
     \<and> (\<exists>op \<in> set (env_operations env). pays i op)"
  using assms paying_operation_pays [of i _ _ v]
  by (auto simp: stellar_verify_def Let_def invalid_def split: option.splits if_splits)

section \<open>Whose asset it is\<close>

text \<open>A payment of \<open>amount\<close> units of an asset called \<open>code\<close> that \<open>issuer\<close> issued, as Horizon reports it.\<close>

definition issued_payment :: "string \<Rightarrow> string \<Rightarrow> string \<Rightarrow> string \<Rightarrow> string \<Rightarrow> string \<Rightarrow> json" where
  "issued_payment code issuer sender dest amount memo =
     JObj [(''type'', JStr ''payment''), (''transaction_hash'', JStr ''f00d''), (''created_at'', JStr ''2026-01-01T00:00:00Z''),
           (''asset_type'', JStr ''credit_alphanum4''), (''asset_code'', JStr code), (''asset_issuer'', JStr issuer),
           (''from'', JStr sender), (''to'', JStr dest), (''amount'', JStr amount),
           (''transaction'', JObj [(''memo_type'', JStr ''text''), (''memo'', JStr memo)])]"

lemma issued_payment_is_read:
  assumes "dest \<noteq> []" "amount \<noteq> []" "code \<noteq> []"
  shows "\<exists>p. payment_of hz t (issued_payment code issuer payer dest amount memo) = Some p \<and> pay_payer p = payer
     \<and> pay_destination p = dest \<and> pay_asset p = upper code \<and> pay_amount p = amount \<and> pay_memo p = memo"
  using assms by (auto simp: payment_of_def issued_payment_def Let_def json_or_def str_or_empty_def)

lemma issued_operation_pays:
  assumes "code \<in> {''XLM'', ''USDC''}"
  shows "asset_code \<lparr>as_code = Some code, as_issuer = Some issuer\<rparr> = upper code"
  using assms by (auto simp: asset_code_def first_text_def)

text \<open>C36. Anybody's token settles an invoice. Neither the reading of a payment nor the comparison with the invoice
  looks at who issued the asset, only at its code: for an invoice in XLM or USDC, a payment of the asked
  number of units of an asset of the same code, whoever issued it, is returned as the
  payment of the invoice and settles it, and an envelope's operation paying in it counts as paying in the
  invoice's asset.\<close>

theorem counterfeit_asset_settles:
  assumes "inv_asset i \<in> {''XLM'', ''USDC''}" "inv_amount i = stroops_text n" "n < 10 ^ 24" "inv_destination i \<noteq> []"
    and "hz_get hz t = (\<lambda>url params. Reply 200 (Some (JObj [(''_embedded'', JObj [(''records'',
          JList (issued_payment (inv_asset i) issuer payer (inv_destination i) (inv_amount i) (inv_memo i) # others))])])))"
  shows "(\<exists>p. payment_for cfg hz t i = Inr (Some p) \<and> pay_payer p = payer \<and> settles p i TOLERANCE_BPS = Inr True)
     \<and> asset_code \<lparr>as_code = Some (inv_asset i), as_issuer = Some issuer\<rparr> = upper (inv_asset i)"
proof
  have "inv_amount i \<noteq> []" "inv_asset i \<noteq> []" "upper (upper (inv_asset i)) = upper (inv_asset i)"
    using assms(1,2) by (auto simp: stroops_text_def)
  moreover from this obtain p where p: "payment_of hz t (issued_payment (inv_asset i) issuer payer (inv_destination i) (inv_amount i) (inv_memo i)) = Some p"
    "pay_payer p = payer" "pay_destination p = inv_destination i" "pay_asset p = upper (inv_asset i)"
    "pay_amount p = inv_amount i" "pay_memo p = inv_memo i"
    using issued_payment_is_read [OF assms(4)] by blast
  ultimately have "settles p i TOLERANCE_BPS = Inr True"
    using settles_stroops [of p n i n] assms(2,3) by (simp add: inv_memo_def)
  moreover have "payment_for cfg hz t i = Inr (Some p)"
    using p by (simp add: payment_for_def assms(5) records_of_def items_of_def) (simp add: issued_payment_def)
  ultimately show "\<exists>p. payment_for cfg hz t i = Inr (Some p) \<and> pay_payer p = payer \<and> settles p i TOLERANCE_BPS = Inr True"
    using p(2) by blast
  show "asset_code \<lparr>as_code = Some (inv_asset i), as_issuer = Some issuer\<rparr> = upper (inv_asset i)"
    using assms(1) by (rule issued_operation_pays)
qed

definition forger_horizon :: "invoice \<Rightarrow> horizon" where
  "forger_horizon i = \<lparr>hz_get = (\<lambda>t url params. Reply 200 (Some (JObj [(''_embedded'', JObj [(''records'',
       JList [issued_payment (inv_asset i) ''GF'' ''GF'' (inv_destination i) (inv_amount i) (inv_memo i)])])]))),
     hz_post = (\<lambda>t url params. Unreachable), hz_time = (\<lambda>t s. 0)\<rparr>"

definition testnet :: stellar_config where
  "testnet = \<lparr>sc_network = ''testnet'', sc_horizon_url = [], sc_destination = ''GD'', sc_asset = ''XLM'',
     sc_usdc_issuer = [], sc_xlm_usd = ''0.10''\<rparr>"

lemma sample_stroops: "''80.0000000'' = stroops_text 800000000"
  by (simp add: stroops_text_def show_nat.simps pad_digits_numeral digit_char_def char_of_def bit_0)

theorem counterfeit_asset_settles_witness:
  "\<exists>p. payment_for testnet (forger_horizon sample_invoice) 0 sample_invoice = Inr (Some p) \<and> pay_payer p = ''GF''
     \<and> settles p sample_invoice TOLERANCE_BPS = Inr True"
proof -
  have "inv_amount sample_invoice = stroops_text 800000000" "inv_asset sample_invoice \<in> {''XLM'', ''USDC''}"
    "inv_destination sample_invoice \<noteq> []"
    by (simp_all add: sample_invoice_def sample_stroops)
  moreover have "hz_get (forger_horizon i) 0 = (\<lambda>url params. Reply 200 (Some (JObj [(''_embedded'', JObj [(''records'',
          JList [issued_payment (inv_asset i) ''GF'' ''GF'' (inv_destination i) (inv_amount i) (inv_memo i)])])])))" for i
    by (simp add: forger_horizon_def)
  ultimately show ?thesis
    using counterfeit_asset_settles [of sample_invoice 800000000 "forger_horizon sample_invoice" 0 "''GF''" "''GF''" "[]" testnet]
    by simp
qed

definition sample_envelope :: envelope where
  "sample_envelope = \<lparr>env_source = ''GB'', env_memo = Some ''cz01'',
     env_operations = [OtherOperation, PaymentOperation ''GD'' \<lparr>as_code = Some ''XLM'', as_issuer = None\<rparr> ''80.0000000''],
     env_signatures = [''s1''], env_verifies = (\<lambda>address s. address = ''GB'' \<and> s = ''s1'')\<rparr>"

theorem verified_envelope_pays_the_invoice_witness:
  "\<exists>op \<in> set (env_operations sample_envelope). pays sample_invoice op"
proof -
  let ?lib = "\<lparr>sdk_from_xdr = \<lambda>tx passphrase. Some sample_envelope\<rparr>"
  have "decimal_or_zero (JStr ''80.0000000'') = (800000000, - 7)"
    using decimal_of_stroops [of 800000000] by (simp add: decimal_or_zero_def sample_stroops [symmetric])
  moreover have "amount_text 800000000 (- 7) = Inr (dec_str 800000000 (- 7))"
    using ndigits_le_iff [of 28 800000000] by (simp add: amount_text_def dec_quantize_def STROOPS_EXP_def PREC_def)
  moreover have "asset_code \<lparr>as_code = Some ''XLM'', as_issuer = None\<rparr> = upper ''XLM''" by code_simp
  ultimately have "stellar_verify testnet (Some ?lib) ''AAAA'' sample_invoice
     = Inr \<lparr>vr_valid = True, vr_payer = ''GB'', vr_reason = [], vr_amount = dec_str 800000000 (- 7)\<rparr>"
    by (simp add: stellar_verify_def sample_envelope_def sample_invoice_def memo_text_def inv_memo_def signed_by_def fin_le_def)
  from verified_envelope_pays_the_invoice [OF this] show ?thesis by auto
qed

end
