(* ===== verification/Payment_Gate.thy ===== *)
theory Payment_Gate
  imports X402 Identity Billing_Periods
begin

text \<open>
  \<^verbatim>\<open>api/payment_gate.py\<close>: which account pays for what a request starts.

  The container is the three services the gate reads, each of which may be absent. The time at which a
  session is checked is an argument, and so is the path of the request. The settlement that \<^verbatim>\<open>_paid_account\<close>
  leaves on the request is the second result; it is empty when nothing was settled.
\<close>

record container =
  cn_billing :: "billing_service option"
  cn_identity :: "identity_service option"
  cn_x402 :: "x402_service option"

definition session_account :: "container \<Rightarrow> string \<Rightarrow> int \<Rightarrow> exn + string" where
  "session_account c authorization now =
     (case partition_at (CHR '' '') authorization of
        (scheme, _, token) \<Rightarrow>
          if lower scheme \<noteq> ''bearer'' \<or> token = [] then Inr []
          else
            (case cn_identity c of
               None \<Rightarrow> Inr []
             | Some svc \<Rightarrow>
                 (case account_of svc (strip token) now of
                    Inr account \<Rightarrow> Inr account
                  | Inl e \<Rightarrow> if is_identity_error e then Inr [] else Inl e)))"

text \<open>\<^verbatim>\<open>_refuse\<close>: always raises.\<close>

definition refuse :: "container \<Rightarrow> string \<Rightarrow> string \<Rightarrow> string \<Rightarrow> ('z world_scheme, exn, 'a) gw" where
  "refuse c account reason path =
     (let unpriced = raise_gw (PaymentRequiredError (payment_required_json \<lparr>pd_error = reason, pd_accepts = []\<rparr>))
      in case cn_x402 c of
           None \<Rightarrow> unpriced
         | Some xs \<Rightarrow>
             bind_gw
               (catch_gw (bind_gw (x402_challenge xs account reason path) (\<lambda>d. return_gw (Some d)))
                  (\<lambda>e. if is_exception e then return_gw None else raise_gw e))
               (\<lambda>document. case document of
                  None \<Rightarrow> unpriced
                | Some d \<Rightarrow> raise_gw (PaymentRequiredError (payment_required_json d))))"

definition paid_account :: "container \<Rightarrow> string \<Rightarrow> string \<Rightarrow> ('z world_scheme, exn, string \<times> string) gw" where
  "paid_account c header path =
     (case cn_x402 c of
        None \<Rightarrow> return_gw ([], [])
      | Some xs \<Rightarrow>
          catch_gw
            (bind_gw (redeem xs header path) (\<lambda>(account, settlement). return_gw (account, settle_encode settlement)))
            (\<lambda>e. case e of X402Error m \<Rightarrow> refuse c [] m path | _ \<Rightarrow> raise_gw e))"

definition NOT_SIGNED_IN :: string where
  "NOT_SIGNED_IN = ''this gateway charges for runs: sign in or pay per call''"

text \<open>The second half of \<^verbatim>\<open>payer_of\<close>: what is asked of the account, or of nobody.\<close>

definition admit ::
  "container \<Rightarrow> billing_service \<Rightarrow> string \<Rightarrow> string \<Rightarrow> string \<Rightarrow> ('z world_scheme, exn, string \<times> string) gw" where
  "admit c billing path account settlement =
     then_gw
       (if account = [] then refuse c [] NOT_SIGNED_IN path else return_gw ())
       (then_gw
          (catch_gw (then_gw (authorize billing account 0) (return_gw ()))
             (\<lambda>e. case e of
                InsufficientFundsError needed available \<Rightarrow> refuse c account (str_exn e) path
              | _ \<Rightarrow> raise_gw e))
          (return_gw (account, settlement)))"

definition payer_of ::
  "container \<Rightarrow> string \<Rightarrow> string \<Rightarrow> string \<Rightarrow> int \<Rightarrow> ('z world_scheme, exn, string \<times> string) gw" where
  "payer_of c authorization x_payment path now =
     (case cn_billing c of
        None \<Rightarrow> return_gw ([], [])
      | Some billing \<Rightarrow>
          bind_gw (lift_gw (session_account c authorization now)) (\<lambda>signed_in.
          bind_gw
            (if signed_in = [] \<and> x_payment \<noteq> [] \<and> cn_x402 c \<noteq> None then paid_account c x_payment path
             else return_gw (signed_in, [])) (\<lambda>(account, settlement).
          admit c billing path account settlement)))"

section \<open>The gate keeps the books\<close>

lemma time_ok_quote: "time_ok t \<Longrightarrow> dt_ok (t + QUOTE_TTL)"
  by (rule time_ok_later) (simp_all add: QUOTE_TTL_def td_minutes_def MONTH_def td_days_def)

lemma keeps_requirements: "keeps (billing_from L) (requirements xs account resource price)"
  unfolding requirements_def Let_def
  by (intro keeps_bind_yields [OF yields_now] keeps_bind keeps_lift keeps_token_hex keeps_tick keeps_return
      yields_keeps [OF yields_put_invoice])
    (simp_all add: invoice_times_ok_def x402_invoice_def time_ok_now time_ok_quote)

lemma keeps_x402_challenge [keeps_intros]: "keeps (billing_from L) (x402_challenge xs account reason resource)"
  unfolding x402_challenge_def by (intro keeps_bind keeps_requirements) (auto simp: keeps_return)

lemma yields_invoice_of:
  "yields (billing_from L) (invoice_of r) (\<lambda>found. \<forall>i. found = Some i \<longrightarrow> invoice_times_ok i)"
  unfolding invoice_of_def Let_def
  by (intro yields_if yields_return yields_bind [OF yields_invoice] yields_option yields_bind [OF yields_now]) auto

lemma keeps_verify: "keeps (billing_from L) (x402_verify xs payload r)"
  unfolding x402_verify_def
  by (intro keeps_if keeps_return keeps_bind yields_keeps [OF yields_invoice_of] keeps_option keeps_tick keeps_lift)

lemma keeps_settle: "keeps (billing_from L) (x402_settle xs payload r)"
  unfolding x402_settle_def Let_def
  by (intro keeps_bind keeps_verify keeps_if keeps_return keeps_tick keeps_lift keeps_bind_yields [OF yields_invoice_of]
      keeps_option keeps_then keeps_credit yields_keeps [OF yields_put_invoice])
    (auto simp: invoice_times_ok_def inv_paid_def)

lemma keeps_redeem [keeps_intros]: "keeps (billing_from L) (redeem xs header resource)"
  unfolding redeem_def Let_def
  by (intro keeps_bind keeps_lift keeps_option keeps_raise keeps_if keeps_return keeps_settle
      yields_keeps [OF yields_invoice])

lemma refuse_raises: "\<exists>e. fst (refuse c account reason path w) = Inl e"
  by (simp add: refuse_def Let_def gw_simps split: option.splits prod.splits sum.splits)

lemma paid_account_Inr:
  fixes w :: "'z world_scheme"
  assumes "paid_account c header path w = (Inr (account, settlement), w1)" "cn_x402 c = Some xs"
  obtains result where "redeem xs header path w = (Inr (account, result), w1)" "settlement = settle_encode result"
proof (cases "redeem xs header path w")
  case (Pair r w2)
  show ?thesis
  proof (cases r)
    case (Inl e)
    with Pair assms obtain m where "refuse c [] m path w2 = (Inr (account, settlement), w1)"
      by (auto simp: paid_account_def catch_gw_def bind_gw_def raise_gw_def split: exn.splits)
    moreover obtain x where "fst (refuse c [] m path w2 :: (exn + string \<times> string) \<times> 'z world_scheme) = Inl x"
      using refuse_raises by blast
    ultimately show ?thesis by simp
  next
    case (Inr x)
    with Pair assms that show ?thesis
      by (cases x) (simp add: paid_account_def catch_gw_def bind_gw_def return_gw_def)
  qed
qed

lemma authorize_Inr:
  fixes w :: "'z world_scheme"
  assumes "billing_ok w" "chain_ok bs" "0 < bs_reserve bs" "authorize bs a needed w = (Inr b, w1)"
  shows "bs_reserve bs \<le> token_sum (account_ledger w1 a) \<and> billing_ok w1 \<and> prefix (db_entries w) (db_entries w1)"
proof -
  obtain r w2 where st: "settle_period bs a w = (r, w2)" by fastforce
  have "billing_from (db_entries w) (snd (authorize bs a needed w))"
    by (rule keepsD [OF keeps_authorize [OF assms(2)]]) (simp add: assms(1) billing_from_def)
  moreover have "bs_reserve bs \<le> token_sum (account_ledger w1 a)"
  proof (cases r)
    case (Inl e)
    with st assms(4) show ?thesis by (simp add: authorize_def then_gw_def bind_gw_def)
  next
    case (Inr s)
    then have ok: "db_ok w2" "ledger_ok w2" using settle_keeps_ok [OF assms(1,2) st] by (simp_all add: billing_ok_def)
    then have "bal_total (balance_of a (account_ledger w2 a)) = max 0 (token_sum (account_ledger w2 a))"
      by (intro total_is_sum) (simp_all add: ledger_ok_def)
    with Inr st assms(3,4) show ?thesis
      by (auto simp: authorize_def then_gw_def bind_gw_Inr [of "settle_period bs a"] bind_balance [OF ok(1)] can_afford_def
          Let_def raise_gw_def return_gw_def split: if_splits)
  qed
  ultimately show ?thesis using assms(4) by (simp add: billing_from_def)
qed

lemma admit_Inr:
  fixes w :: "'z world_scheme"
  assumes "admit c bs path account settlement w = (Inr x, w')"
  shows "account \<noteq> [] \<and> x = (account, settlement) \<and> (\<exists>b. authorize bs account 0 w = (Inr b, w'))"
proof (cases "account = []")
  case True
  moreover obtain y where "fst (refuse c [] NOT_SIGNED_IN path w :: (exn + unit) \<times> 'z world_scheme) = Inl y"
    using refuse_raises by blast
  ultimately show ?thesis using assms by (simp add: admit_def then_gw_def bind_gw_def split: prod.splits)
next
  case False
  obtain r w1 where a: "authorize bs account 0 w = (r, w1)" by fastforce
  show ?thesis
  proof (cases r)
    case (Inl e)
    have "\<exists>y. fst (refuse c account m path w1 :: (exn + unit) \<times> 'z world_scheme) = Inl y" for m
      by (rule refuse_raises)
    then have "\<exists>y. fst ((case e of InsufficientFundsError needed available \<Rightarrow> refuse c account (str_exn e) path | _ \<Rightarrow> raise_gw e) w1
        :: (exn + unit) \<times> 'z world_scheme) = Inl y"
      by (simp add: raise_gw_def split: exn.splits)
    with a Inl False assms show ?thesis
      by (auto simp: admit_def then_gw_def bind_gw_def catch_gw_def return_gw_def split: prod.splits)
  next
    case (Inr b)
    with a False assms show ?thesis by (auto simp: admit_def then_gw_def bind_gw_def catch_gw_def return_gw_def)
  qed
qed

text \<open>C5. Who pays is known and can pay. Where billing is on, a request gets past the gate only with an account:
  the one a valid session token names, or, when there is no session, the one a payment header redeemed
  for. That account's rows then add up to at least the reserve, and on the way the ledger has only
  gained rows and kept its invariant.\<close>

theorem payer_is_identified_and_solvent:
  fixes w :: "'z world_scheme"
  assumes "billing_ok w" "cn_billing c = Some bs" "chain_ok bs" "0 < bs_reserve bs"
    and "payer_of c authorization x_payment path now w = (Inr (account, settlement), w')"
  shows "account \<noteq> [] \<and> bs_reserve bs \<le> token_sum (account_ledger w' account)
     \<and> billing_ok w' \<and> prefix (db_entries w) (db_entries w')
     \<and> (session_account c authorization now = Inr account \<and> settlement = []
        \<or> session_account c authorization now = Inr []
          \<and> (\<exists>xs result w1. cn_x402 c = Some xs \<and> redeem xs x_payment path w = (Inr (account, result), w1)
               \<and> settlement = settle_encode result))"
proof -
  from assms(2,5) obtain a0 where a0: "session_account c authorization now = Inr a0"
    by (cases "session_account c authorization now") (auto simp: payer_of_def bind_gw_def lift_gw_def)
  show ?thesis
  proof (cases "a0 = [] \<and> x_payment \<noteq> [] \<and> cn_x402 c \<noteq> None")
    case True
    then obtain xs where xs: "cn_x402 c = Some xs" by blast
    from assms(2,5) a0 True obtain acc set w1 where paid: "paid_account c x_payment path w = (Inr (acc, set), w1)"
      by (cases "paid_account c x_payment path w"; cases "fst (paid_account c x_payment path w)")
         (auto simp: payer_of_def bind_lift bind_gw_Inl)
    from paid_account_Inr [OF paid xs] obtain result where
      red: "redeem xs x_payment path w = (Inr (acc, result), w1)" "set = settle_encode result" .
    have "billing_from (db_entries w) (snd (redeem xs x_payment path w))"
      by (rule keepsD [OF keeps_redeem]) (simp add: assms(1) billing_from_def)
    then have w1: "billing_ok w1" "prefix (db_entries w) (db_entries w1)" using red(1) by (simp_all add: billing_from_def)
    from assms(2,5) a0 True have "acc \<noteq> [] \<and> (account, settlement) = (acc, set) \<and> (\<exists>b. authorize bs acc 0 w1 = (Inr b, w'))"
      by (intro admit_Inr [where c = c and path = path]) (simp add: payer_of_def bind_lift bind_gw_Inr [of "paid_account c x_payment path" w, OF paid])
    then show ?thesis using authorize_Inr [OF w1(1) assms(3,4)] red a0 xs True w1(2) prefix_order.trans by fastforce
  next
    case False
    with assms(2,5) a0 have "admit c bs path a0 [] w = (Inr (account, settlement), w')"
      by (auto simp: payer_of_def bind_lift bind_return)
    then have "a0 \<noteq> [] \<and> (account, settlement) = (a0, []) \<and> (\<exists>b. authorize bs a0 0 w = (Inr b, w'))" by (rule admit_Inr)
    then show ?thesis using authorize_Inr [OF assms(1,3,4)] a0 by fastforce
  qed
qed

section \<open>A refusal is a price\<close>

text \<open>C22. A caller with no session and no payment is told the price, and the price can be paid. The answer is a
  402 whose document asks for the quoted amount at the network's address and names an invoice; that
  invoice is stored, pending, for that amount, and no row was written to the ledger. When the network
  cannot be asked, the 402 stands without a price.\<close>

theorem unpaid_request_is_told_the_price:
  fixes w :: "'z world_scheme"
  assumes "db_ok w" "cn_billing c = Some bs" "cn_x402 c = Some xs" "session_account c authorization now = Inr []"
    and "quote = net_quote (xs_network xs) (w_tick w + 2) (xs_price xs) (bs_asset (xs_billing xs))"
    and "\<And>amount. quote = Inr amount \<Longrightarrow> i = x402_invoice xs [] (xs_price xs) (w_clock w (w_tick w)) (w_hex w (w_tick w + 1)) amount
           \<and> storable_invoice i \<and> db_invoice w (inv_id i) = None"
    and "\<And>e. quote = Inl e \<Longrightarrow> is_exception e"
  shows "\<exists>accepts w'. payer_of c authorization [] path now w =
       (Inl (PaymentRequiredError (payment_required_json \<lparr>pd_error = NOT_SIGNED_IN, pd_accepts = accepts\<rparr>)), w')
     \<and> db_entries w' = db_entries w
     \<and> (case quote of
          Inl e \<Rightarrow> accepts = []
        | Inr amount \<Rightarrow> (\<exists>r. accepts = [r] \<and> pr_max_amount_required r = amount \<and> pr_pay_to r = net_destination (xs_network xs)
            \<and> obj_get ''invoice'' (JObj (pr_extra r)) = JStr (inv_id i) \<and> db_invoice w' (inv_id i) = Some i
            \<and> inv_status i = INV_PENDING \<and> inv_amount i = amount))"
proof -
  let ?w3 = "w\<lparr>w_tick := w_tick w + 3\<rparr>"
  have gate: "payer_of c authorization [] path now w = then_gw (refuse c [] NOT_SIGNED_IN path :: ('z world_scheme, exn, unit) gw) k w"
    if "k = then_gw (catch_gw (then_gw (authorize bs [] 0) (return_gw ()))
             (\<lambda>e. case e of InsufficientFundsError needed available \<Rightarrow> refuse c [] (str_exn e) path | _ \<Rightarrow> raise_gw e))
          (return_gw ([], []))" for k
    using assms(2-4) that by (simp add: payer_of_def bind_lift bind_return admit_def)
  show ?thesis
  proof (cases quote)
    case (Inl e)
    then have "requirements xs [] path None w = (Inl e, ?w3)"
      using assms(5) by (simp add: requirements_def Let_def now_utc_def token_hex_def tick_def gw_simps eval_nat_numeral)
    with Inl assms(3,7) show ?thesis
      by (simp add: gate refuse_def Let_def x402_challenge_def gw_simps)
  next
    case (Inr amount)
    from assms(6) [OF Inr] have i: "i = x402_invoice xs [] (xs_price xs) (w_clock w (w_tick w)) (w_hex w (w_tick w + 1)) amount"
      "storable_invoice i" "db_invoice w (inv_id i) = None" by auto
    have "db_ok ?w3" "db_invoice ?w3 (inv_id i) = None" using assms(1) i(3) by simp_all
    then obtain w' where w': "store_put_invoice i ?w3 = (Inr i, w')" "db_entries w' = db_entries w" "db_invoice w' (inv_id i) = Some i"
      using sqlite.put_invoice_writes [of ?w3 i] i(2) by auto
    from Inr assms(5) w'(1) i(1) obtain r where r: "requirements xs [] path None w = (Inr (r, i), w')" "pr_max_amount_required r = amount"
        "pr_pay_to r = net_destination (xs_network xs)" "obj_get ''invoice'' (JObj (pr_extra r)) = JStr (inv_id i)"
      by (simp add: requirements_def Let_def now_utc_def token_hex_def tick_def gw_simps eval_nat_numeral x402_invoice_def)
    from r(1) assms(3) have "payer_of c authorization [] path now w =
        (Inl (PaymentRequiredError (payment_required_json \<lparr>pd_error = NOT_SIGNED_IN, pd_accepts = [r]\<rparr>)), w')"
      by (simp add: gate refuse_def Let_def x402_challenge_def gw_simps)
    moreover have "inv_status i = INV_PENDING" "inv_amount i = amount" by (simp_all add: i(1) x402_invoice_def)
    ultimately show ?thesis using Inr w'(2,3) r(2-4) by (intro exI [of _ "[r]"] exI [of _ w']) (simp del: obj_get.simps)
  qed
qed

section \<open>Examples\<close>

definition sample_container :: container where
  "sample_container = \<lparr>cn_billing = Some weekly_service, cn_identity = Some sample_identity, cn_x402 = Some sample_x402\<rparr>"

definition sample_token :: string where
  "sample_token = seal sample_identity (session_claims \<lparr>se_address = sample_address, se_expires_at = 2000\<rparr>)"

lemma sample_session: "session_account sample_container (''Bearer '' @ sample_token) 1201 = Inr sample_address"
proof -
  let ?s = "\<lparr>se_address = sample_address, se_expires_at = 2000\<rparr>"
  have a: "is_address sample_address" by (simp add: is_address_def sample_address_def list_all_iff byte_def)
  have "open_token sample_identity sample_token = Inr (JObj (session_claims ?s))"
    unfolding sample_token_def
    by (rule open_session_token) (use sample_identity_ok address_plain [OF a] in \<open>simp_all add: instant_def\<close>)
  moreover have "strip sample_token = sample_token"
    unfolding sample_token_def seal_def Let_def by (rule strip_token) (simp_all add: sample_identity_def)
  moreover have "sample_token \<noteq> []" by (simp add: sample_token_def seal_def Let_def)
  moreover have "partition_at (CHR '' '') (''Bearer '' @ t) = (''Bearer'', True, t)" for t by (simp add: partition_at_def)
  moreover have "lower ''Bearer'' = ''bearer''" by code_simp
  ultimately show ?thesis
    using a by (simp add: session_account_def sample_container_def account_of_def session_claims_def int_claim_of_int)
qed

lemma sample_container_facts:
  "cn_billing sample_container = Some weekly_service" "cn_x402 sample_container = Some sample_x402"
  by (simp_all add: sample_container_def)

theorem payer_is_identified_and_solvent_witness:
  "\<exists>w'. payer_of sample_container (''Bearer '' @ sample_token) [] ''/runs'' 1201 sample_world = (Inr (sample_address, []), w')
     \<and> 50000 \<le> token_sum (account_ledger w' sample_address)"
proof (rule weekly_settles [of sample_address])
  fix s w1
  assume s: "settle_period weekly_service sample_address sample_world = (Inr s, w1)" "token_sum (account_ledger w1 sample_address) = 833333"
  have "sample_address \<noteq> []" by (simp add: sample_address_def)
  with authorize_settled [OF sample_world_ok weekly_service_facts(2) s(1), of 0] s(2)
  have "payer_of sample_container (''Bearer '' @ sample_token) [] ''/runs'' 1201 sample_world = (Inr (sample_address, []), w1)"
    by (simp add: payer_of_def sample_container_facts sample_session [simplified] bind_lift bind_return admit_def weekly_reserve gw_simps)
  with payer_is_identified_and_solvent [OF sample_world_ok sample_container_facts(1) weekly_service_facts(2) _ this]
  show ?thesis by (simp add: weekly_reserve)
qed

theorem unpaid_request_is_told_the_price_witness:
  "\<exists>r w'. payer_of sample_container [] [] ''/runs'' 1201 sample_world =
       (Inl (PaymentRequiredError (payment_required_json \<lparr>pd_error = NOT_SIGNED_IN, pd_accepts = [r]\<rparr>)), w')
     \<and> pr_max_amount_required r = ''80.0000000''"
proof -
  let ?i = "x402_invoice sample_x402 [] (xs_price sample_x402) (w_clock sample_world (w_tick sample_world))
      (w_hex sample_world (w_tick sample_world + 1)) ''80.0000000''"
  have db: "db_ok sample_world" using sample_world_ok by (simp add: billing_ok_def)
  have "tokens_for (cat_pricing (bs_catalog (xs_billing sample_x402))) (xs_price sample_x402) \<in> {0..2 ^ 62}"
    using zdiv_mono2 [of 1000000000000 1 "micros (per_million default_pricing)"]
    by (auto simp: tokens_for_def sample_x402_def sample_service_def default_catalog_def PER_MILLION_def)
  then have "storable_invoice ?i"
    by (simp add: storable_invoice_def x402_invoice_def sqlite_int_def sample_x402_def sample_world_def dt_ok_def QUOTE_TTL_def td_minutes_def)
  moreover have "db_invoice sample_world k = None" for k by (simp add: db_invoice_def sample_world_def)
  moreover have "session_account sample_container [] 1201 = Inr []"
    by (simp add: session_account_def partition_at_def lower_def)
  ultimately show ?thesis
    using unpaid_request_is_told_the_price [OF db sample_container_facts, of "[]" 1201 "Inr ''80.0000000''" ?i "''/runs''"]
    by (auto simp: sample_x402_def)
qed

end
