(* ===== verification/Stream_Scan.thy ===== *)
theory Stream_Scan
  imports Billing_Money Json_Text
begin

text \<open>
  \<^verbatim>\<open>StreamScan\<close> of \<^verbatim>\<open>application/orchestration.py\<close>: the artifact and the usage read out of the agent's event
  stream while it goes past. A chunk is a string of bytes. Reading a line may raise, when the cost panel
  of a \<^verbatim>\<open>done\<close> event cannot be read as a usage; the scan is then never used again.
\<close>

definition MAX_TAIL :: nat where "MAX_TAIL = 8192"

record stream_scan =
  ss_artifact :: string
  ss_usage :: usage
  ss_tail :: string

definition new_scan :: stream_scan where
  "new_scan = \<lparr>ss_artifact = [], ss_usage = usage_default, ss_tail = []\<rparr>"

text \<open>\<^verbatim>\<open>ARTIFACT_ID.search\<close>: the first run of exactly 24 hexadecimal digits between word boundaries.\<close>

definition is_word_char :: "char \<Rightarrow> bool" where
  "is_word_char c \<longleftrightarrow> is_digit c \<or> 65 \<le> byte c \<and> byte c \<le> 90 \<or> 97 \<le> byte c \<and> byte c \<le> 122 \<or> byte c = 95"

definition is_lower_hex :: "char \<Rightarrow> bool" where
  "is_lower_hex c \<longleftrightarrow> is_digit c \<or> 97 \<le> byte c \<and> byte c \<le> 102"

fun artifact_search :: "bool \<Rightarrow> string \<Rightarrow> string option" where
  "artifact_search inside [] = None"
| "artifact_search inside (c # cs) =
     (let found = take 24 (c # cs); rest = drop 24 (c # cs)
      in if \<not> inside \<and> length found = 24 \<and> list_all is_lower_hex found \<and> (rest = [] \<or> \<not> is_word_char (hd rest))
         then Some found
         else artifact_search (is_word_char c) cs)"

definition read_event :: "string \<Rightarrow> json \<Rightarrow> stream_scan \<Rightarrow> exn + stream_scan" where
  "read_event line event s =
     (if obj_get ''type'' event = JStr ''done'' then
        let project = obj_get ''project'' event; cost = obj_get ''cost'' event;
            s1 = (if is_mapping project \<and> truthy (obj_get ''id'' project)
                  then s\<lparr>ss_artifact := py_str (obj_get ''id'' project)\<rparr> else s)
        in if is_mapping cost then map_sum id (\<lambda>u. s1\<lparr>ss_usage := u\<rparr>) (usage_from_agent cost) else Inr s1
      else if ss_artifact s = [] \<and> obj_get ''name'' event = JStr ''artifact'' then
        (case artifact_search False line of Some a \<Rightarrow> Inr (s\<lparr>ss_artifact := a\<rparr>) | None \<Rightarrow> Inr s)
      else Inr s)"

definition read_line :: "codecs \<Rightarrow> string \<Rightarrow> stream_scan \<Rightarrow> exn + stream_scan" where
  "read_line cod line s =
     (if \<not> starts_with ''data: '' line then Inr s
      else
        (case json_loads cod (drop 6 line) of
           Some event \<Rightarrow> if is_mapping event then read_event line event s else Inr s
         | None \<Rightarrow> Inr s))"

fun read_lines :: "codecs \<Rightarrow> string list \<Rightarrow> stream_scan \<Rightarrow> exn + stream_scan" where
  "read_lines cod [] s = Inr s"
| "read_lines cod (l # ls) s = (case read_line cod l s of Inl e \<Rightarrow> Inl e | Inr s' \<Rightarrow> read_lines cod ls s')"

definition feed :: "codecs \<Rightarrow> string \<Rightarrow> stream_scan \<Rightarrow> exn + stream_scan" where
  "feed cod chunk s =
     (let lines = split_on newline (ss_tail s @ chunk)
      in read_lines cod (butlast lines) (s\<lparr>ss_tail := keep_last MAX_TAIL (last lines)\<rparr>))"

fun feed_all :: "codecs \<Rightarrow> string list \<Rightarrow> stream_scan \<Rightarrow> exn + stream_scan" where
  "feed_all cod [] s = Inr s"
| "feed_all cod (c # cs) s = (case feed cod c s of Inl e \<Rightarrow> Inl e | Inr s' \<Rightarrow> feed_all cod cs s')"

section \<open>Chunks do not matter\<close>

definition with_tail :: "string \<Rightarrow> exn + stream_scan \<Rightarrow> exn + stream_scan" where
  "with_tail t = map_sum id (\<lambda>s. s\<lparr>ss_tail := t\<rparr>)"

lemma with_tail_simps [simp]:
  "with_tail t (Inl e) = Inl e" "with_tail t (Inr s) = Inr (s\<lparr>ss_tail := t\<rparr>)" "with_tail t (with_tail u r) = with_tail t r"
  by (simp_all add: with_tail_def) (cases r; simp)

text \<open>Reading a line does not look at the tail.\<close>

lemma read_event_tail: "read_event l ev (s\<lparr>ss_tail := t\<rparr>) = with_tail t (read_event l ev s)"
  by (cases "usage_from_agent (obj_get ''cost'' ev)") (simp_all add: read_event_def Let_def split: option.splits)

lemma read_line_tail: "read_line cod l (s\<lparr>ss_tail := t\<rparr>) = with_tail t (read_line cod l s)"
  by (simp add: read_line_def read_event_tail split: option.splits)

lemma read_lines_tail: "read_lines cod ls (s\<lparr>ss_tail := t\<rparr>) = with_tail t (read_lines cod ls s)"
  by (induction ls arbitrary: s) (auto simp: read_line_tail split: sum.splits)

lemma read_lines_append:
  "read_lines cod (xs @ ys) s = (case read_lines cod xs s of Inl e \<Rightarrow> Inl e | Inr s' \<Rightarrow> read_lines cod ys s')"
  by (induction xs arbitrary: s) (auto split: sum.splits)

lemma last_line_open: "c \<notin> set (last (split_on c s))"
  by (induction s) (auto split: list.splits)

lemma split_on_open: "c \<notin> set t \<Longrightarrow> \<exists>r rest. split_on c (t @ ys) = (t @ r) # rest"
proof (induction t)
  case Nil
  then show ?case using split_on_nonempty [of c ys] by (cases "split_on c ys") auto
qed auto

text \<open>What is kept between two chunks is the whole partial line, as long as no line outgrows the cap.\<close>

lemma feed_all_lines:
  assumes "list_all (\<lambda>l. length l \<le> MAX_TAIL) (split_on newline (ss_tail s @ concat chunks))" "newline \<notin> set (ss_tail s)"
  shows "feed_all cod chunks s =
     (let lines = split_on newline (ss_tail s @ concat chunks) in with_tail (last lines) (read_lines cod (butlast lines) s))"
  using assms
proof (induction chunks arbitrary: s)
  case Nil
  have "split_on newline t = [t]" if "newline \<notin> set t" for t using that by (induction t) auto
  with Nil show ?case by simp
next
  case (Cons c cs)
  let ?L = "split_on newline (ss_tail s @ c)"
  let ?t = "last ?L" and ?s = "s\<lparr>ss_tail := last ?L\<rparr>"
  have split: "split_on newline (ss_tail s @ concat (c # cs)) = butlast ?L @ split_on newline (?t @ concat cs)"
    using split_on_append [of newline "ss_tail s @ c" "concat cs"] by simp
  obtain r rest where "split_on newline (?t @ concat cs) = (?t @ r) # rest"
    using split_on_open [OF last_line_open] by blast
  with Cons.prems(1) split have t: "length ?t \<le> MAX_TAIL" by simp
  then have fed: "feed cod c s = with_tail ?t (read_lines cod (butlast ?L) s)"
    by (simp add: feed_def Let_def keep_last_def read_lines_tail)
  show ?case
  proof (cases "read_lines cod (butlast ?L) s")
    case (Inl e)
    then show ?thesis unfolding split Let_def by (simp add: fed read_lines_append butlast_append split_on_nonempty)
  next
    case (Inr s')
    have "feed_all cod cs (s'\<lparr>ss_tail := ?t\<rparr>) = (let lines = split_on newline (?t @ concat cs)
        in with_tail (last lines) (read_lines cod (butlast lines) (s'\<lparr>ss_tail := ?t\<rparr>)))"
      using Cons.IH [of "s'\<lparr>ss_tail := ?t\<rparr>"] Cons.prems(1) split last_line_open [of newline "ss_tail s @ c"] by simp
    with Inr show ?thesis unfolding split Let_def
      by (simp add: fed read_lines_append butlast_append split_on_nonempty read_lines_tail)
  qed
qed

text \<open>C9. How the network cuts the stream does not matter. While no line is longer than the 8192 bytes kept
  between two chunks, any two sequences of chunks with the same bytes leave the same artifact and the same
  usage, the ones read from the complete lines of the stream in order, and fail on the same ones.\<close>

theorem scan_ignores_chunking:
  assumes "concat chunks = concat chunks'" "list_all (\<lambda>l. length l \<le> MAX_TAIL) (split_on newline (concat chunks))"
  shows "feed_all cod chunks new_scan = feed_all cod chunks' new_scan
     \<and> feed_all cod chunks new_scan =
         with_tail (last (split_on newline (concat chunks)))
           (read_lines cod (butlast (split_on newline (concat chunks))) new_scan)"
  using feed_all_lines [of new_scan chunks cod] feed_all_lines [of new_scan chunks' cod] assms
  by (simp add: new_scan_def Let_def)

text \<open>Past those 8192 bytes it does matter. An event whose line is longer and arrives in two chunks is lost:
  the end that was kept does not start a data line any more, so the event is not read, although the same
  bytes in one chunk name the artifact.\<close>

theorem long_event_is_lost_when_split:
  assumes "newline \<notin> set (p @ q)" "\<not> starts_with ''data: '' (keep_last MAX_TAIL p @ q)" "read_line cod (p @ q) new_scan = Inr s"
  shows "feed_all cod [p @ q @ [newline]] new_scan = Inr (s\<lparr>ss_tail := []\<rparr>)
     \<and> feed_all cod [p, q @ [newline]] new_scan = Inr new_scan"
proof -
  have line: "split_on newline (t @ [newline]) = [t, []]" if "newline \<notin> set t" for t
    using that by (induction t) auto
  have open_line: "split_on newline t = [t]" if "newline \<notin> set t" for t using that by (induction t) auto
  have "newline \<notin> set (keep_last MAX_TAIL p @ q)" using assms(1) by (auto simp: keep_last_def dest: in_set_dropD)
  then have "feed cod (q @ [newline]) (new_scan\<lparr>ss_tail := keep_last MAX_TAIL p\<rparr>) = Inr new_scan"
    using assms(2) line [of "keep_last MAX_TAIL p @ q"]
    by (simp add: feed_def Let_def read_line_def keep_last_def [of _ "[]"] new_scan_def)
  moreover have "feed cod p new_scan = Inr (new_scan\<lparr>ss_tail := keep_last MAX_TAIL p\<rparr>)"
    using assms(1) open_line [of p] by (simp add: feed_def Let_def new_scan_def)
  moreover have "feed cod (p @ q @ [newline]) new_scan = Inr (s\<lparr>ss_tail := []\<rparr>)"
    using assms(1,3) line [of "p @ q"] read_line_tail [of cod "p @ q" "[]" new_scan]
    by (simp add: feed_def Let_def keep_last_def new_scan_def)
  ultimately show ?thesis by simp
qed

section \<open>Examples\<close>

definition scan_codecs :: codecs where
  "scan_codecs = \<lparr>cd_float = (\<lambda>s. Finite s 0 False), cd_wide = (\<lambda>_. None)\<rparr>"

definition done_line :: string where
  "done_line = (let q = [dquote]
     in ''data: {'' @ q @ ''type'' @ q @ '':'' @ q @ ''done'' @ q @ '','' @ q @ ''project'' @ q @ '':{'' @ q @ ''id'' @ q @ '':'' @ q @ ''a1'' @ q @ ''}}'')"

theorem scan_ignores_chunking_witness:
  "feed_all scan_codecs [take 9 done_line, drop 9 done_line @ [newline]] new_scan
     = feed_all scan_codecs [done_line @ [newline]] new_scan
   \<and> feed_all scan_codecs [done_line @ [newline]] new_scan = Inr (new_scan\<lparr>ss_artifact := ''a1''\<rparr>)"
proof -
  have "concat [take 9 done_line, drop 9 done_line @ [newline]] = concat [done_line @ [newline]]" by simp
  moreover have "list_all (\<lambda>l. length l \<le> MAX_TAIL) (split_on newline (concat [done_line @ [newline]]))" by code_simp
  moreover have "feed_all scan_codecs [done_line @ [newline]] new_scan = Inr (new_scan\<lparr>ss_artifact := ''a1''\<rparr>)" by code_simp
  ultimately show ?thesis
    using scan_ignores_chunking [of "[take 9 done_line, drop 9 done_line @ [newline]]" "[done_line @ [newline]]" scan_codecs]
    by (simp only: refl simp_thms)
qed

text \<open>An artifact event with a detail of \<open>n\<close> characters.\<close>

definition artifact_id :: string where "artifact_id = ''0123456789abcdef01234567''"

definition long_event :: "nat \<Rightarrow> (string \<times> json) list" where
  "long_event n = [(''summary'', JStr artifact_id), (''name'', JStr ''artifact''), (''detail'', JStr (replicate n (CHR ''x'')))]"

definition long_start :: "nat \<Rightarrow> string" where
  "long_start n = (let q = [dquote]
     in ''data: {'' @ q @ ''summary'' @ q @ '':'' @ q @ artifact_id @ q @ '','' @ q @ ''name'' @ q @ '':'' @ q @ ''artifact'' @ q @ '',''
        @ q @ ''detail'' @ q @ '':'' @ q @ replicate n (CHR ''x''))"

lemma json_string_letters:
  "list_all (\<lambda>c. 32 \<le> byte c \<and> byte c \<le> 126 \<and> byte c \<noteq> 34 \<and> byte c \<noteq> 92) s \<Longrightarrow> json_string s = dquote # s @ [dquote]"
proof -
  assume *: "list_all (\<lambda>c. 32 \<le> byte c \<and> byte c \<le> 126 \<and> byte c \<noteq> 34 \<and> byte c \<noteq> 92) s"
  then have "code_points s = map byte s" by (intro code_points_plain) (auto simp: plain_def list_all_iff)
  moreover have "concat (map json_char (map byte s)) = s"
    using * by (induction s) (auto simp: json_char_def)
  ultimately show ?thesis by (simp add: json_string_def)
qed

lemma long_line: "long_start n @ [dquote, CHR ''}''] = ''data: '' @ json_dumps '','' '':'' (JObj (long_event n))"
  by (simp add: long_start_def long_event_def artifact_id_def json_string_letters list_all_iff byte_def)

lemma artifact_search_found:
  "length i = 24 \<Longrightarrow> list_all is_lower_hex i \<Longrightarrow> \<not> is_word_char x \<Longrightarrow> artifact_search False (i @ x # cs) = Some i"
  by (cases i) (simp_all add: Let_def)

lemma artifact_search_skip:
  "artifact_search True (c # cs) = artifact_search (is_word_char c) cs"
  "\<not> is_lower_hex c \<Longrightarrow> artifact_search b (c # cs) = artifact_search (is_word_char c) cs"
  "\<not> is_lower_hex e \<Longrightarrow> artifact_search b (c # d # e # cs) = artifact_search (is_word_char c) (d # e # cs)"
  by (simp_all add: Let_def eval_nat_numeral)

lemma long_event_read: "read_line cod (long_start n @ [dquote, CHR ''}'']) new_scan = Inr (new_scan\<lparr>ss_artifact := artifact_id\<rparr>)"
proof -
  have "json_loads cod (json_dumps '','' '':'' (JObj (long_event n))) = Some (JObj (long_event n))"
    by (rule loads_dumps) (auto simp: long_event_def plain_def artifact_id_def byte_def list_all_iff)
  moreover have "artifact_search False (long_start n @ [dquote, CHR ''}'']) = Some artifact_id"
  proof -
    have nonhex: "\<not> is_lower_hex c" if "c \<in> {CHR ''t'', CHR ''s'', CHR ''u'', CHR ''m'', CHR ''r'', CHR ''y'', CHR '':'', CHR '' '', CHR ''{'', dquote}" for c
      using that by (auto simp: is_lower_hex_def is_digit_def byte_def dquote_def)
    have found: "artifact_search False (artifact_id @ dquote # cs) = Some artifact_id" for cs
      by (rule artifact_search_found)
        (simp_all add: artifact_id_def is_lower_hex_def is_word_char_def is_digit_def byte_def dquote_def)
    have word: "is_word_char (CHR ''d'')" "is_word_char (CHR ''a'')" "is_word_char (CHR ''t'')" "is_word_char (CHR ''s'')" "is_word_char (CHR ''u'')"
      "is_word_char (CHR ''m'')" "is_word_char (CHR ''r'')" "is_word_char (CHR ''y'')" "\<not> is_word_char (CHR '':'')" "\<not> is_word_char (CHR '' '')"
      "\<not> is_word_char (CHR ''{'')" "\<not> is_word_char dquote"
      by (simp_all add: is_word_char_def is_digit_def byte_def dquote_def)
    show ?thesis unfolding long_start_def Let_def
      by (simp add: artifact_search_skip word nonhex found del: artifact_search.simps)
  qed
  moreover have "starts_with ''data: '' (''data: '' @ x)" "drop 6 (''data: '' @ x) = x" for x
    by (simp_all add: starts_with_def)
  moreover have "read_event l (JObj (long_event n)) new_scan =
      (case artifact_search False l of Some a \<Rightarrow> Inr (new_scan\<lparr>ss_artifact := a\<rparr>) | None \<Rightarrow> Inr new_scan)" for l
    by (simp add: read_event_def long_event_def new_scan_def split: option.splits)
  ultimately show ?thesis unfolding read_line_def long_line by (simp only: is_mapping.simps if_True option.case simp_thms if_False)
qed

lemma long_start_cut:
  assumes "MAX_TAIL \<le> n"
  shows "\<not> starts_with ''data: '' (keep_last MAX_TAIL (long_start n) @ q)"
proof -
  have "keep_last MAX_TAIL (xs @ replicate n (CHR ''x'')) = replicate MAX_TAIL (CHR ''x'')" for xs
    using assms by (simp add: keep_last_def)
  then have "keep_last MAX_TAIL (long_start n) = replicate MAX_TAIL (CHR ''x'')"
    unfolding long_start_def Let_def append_assoc [symmetric] by blast
  then show ?thesis by (cases MAX_TAIL) (simp_all add: starts_with_def MAX_TAIL_def)
qed

theorem long_event_is_lost_when_split_witness:
  "feed_all scan_codecs [long_start 9000 @ [dquote, CHR ''}''] @ [newline]] new_scan = Inr (new_scan\<lparr>ss_artifact := artifact_id\<rparr>)
   \<and> feed_all scan_codecs [long_start 9000, [dquote, CHR ''}''] @ [newline]] new_scan = Inr new_scan"
proof -
  have nl: "newline = CHR 0x0A" "dquote = CHR 0x22" by code_simp+
  have "newline \<notin> set (long_start n @ [dquote, CHR ''}''])" for n
    unfolding long_start_def Let_def artifact_id_def nl by simp
  moreover have "MAX_TAIL \<le> 9000" by (simp add: MAX_TAIL_def)
  moreover have "new_scan\<lparr>ss_artifact := a\<rparr>\<lparr>ss_tail := []\<rparr> = new_scan\<lparr>ss_artifact := a\<rparr>" for a by (simp add: new_scan_def)
  ultimately show ?thesis
    using long_event_is_lost_when_split [of "long_start 9000" "[dquote, CHR ''}'']" scan_codecs, OF _ long_start_cut long_event_read]
    by simp
qed

end
