(* ===== verification/Orchestration.thy ===== *)
theory Orchestration
  imports Stream_Scan Run_Store Run_Log Proxy_Service Billing_Periods
begin

text \<open>
  \<^verbatim>\<open>application/orchestration.py\<close>: a run carried from an idea to a generated project.

  The state is the gateway's: the upstream clients with their wire, the run store, the run log, the books,
  and the readings of the monotonic clock and the run ids, which a counter draws from two functions.
  \<open>sy_out\<close> is what the generator \<^verbatim>\<open>generate\<close> has yielded. How the body of a stream arrives is an argument
  (\<open>or_arrives\<close>): its chunks, and then its end or the exception that cuts it, the cancellation of the task
  included. What the consumer of the generator does at a \<^verbatim>\<open>yield\<close> is an argument of \<open>generate\<close>: it asks for
  the next chunk, or throws, which is how a generator that is dropped while suspended is closed.
  Closing a stream may raise, and then what the \<^verbatim>\<open>finally\<close> of \<open>generate\<close> does after it is not done. Texts of library
  exceptions are left out of messages.
\<close>

section \<open>The prompt\<close>

definition utf8_a_acute :: string where "utf8_a_acute = map char_of [195::nat, 161]"
definition utf8_e_acute :: string where "utf8_e_acute = map char_of [195::nat, 169]"
definition utf8_arrow :: string where "utf8_arrow = map char_of [226::nat, 134, 146]"

definition HEADER :: string where
  "HEADER = ''Gener'' @ utf8_a_acute @ '' un proyecto completo, con su estructura de archivos, README y tests.''"

definition entity_text :: "json \<Rightarrow> string" where
  "entity_text e =
     (let name = str_or_empty (obj_get ''name'' e);
          listed = join '', '' (map py_str (list_of (obj_get ''fields'' e)));
          detail = (if listed \<noteq> [] then listed else strip (str_or_empty (obj_get ''description'' e)))
      in if detail \<noteq> [] then name @ '' ('' @ detail @ '')'' else name)"

definition flow_text :: "json \<Rightarrow> string" where
  "flow_text f = py_str (obj_get ''name'' f) @ '': '' @ join ('' '' @ utf8_arrow @ '' '') (map py_str (list_of (obj_get ''steps'' f)))"

definition section_of :: "string \<Rightarrow> string list \<Rightarrow> string list" where
  "section_of title items = (if items = [] then [] else [title @ join ''; '' items])"

definition prompt_for :: "json \<Rightarrow> string" where
  "prompt_for plan =
     (let sections =
            section_of ''Entidades: '' (map entity_text (items_of (obj_get ''entities'' plan)))
          @ section_of ''Roles: '' (map (\<lambda>r. str_or_empty (obj_get ''name'' r)) (items_of (obj_get ''roles'' plan)))
          @ section_of ''Flujos: '' (map flow_text (items_of (obj_get ''flows'' plan)))
          @ section_of ''Restricciones: '' (map (\<lambda>c. str_or_empty (obj_get ''statement'' c)) (items_of (obj_get ''constraints'' plan)))
          @ section_of (''Decisiones que el plan deja abiertas (resolvelas y dej'' @ utf8_a_acute @ '' dicho qu'' @ utf8_e_acute @ '' asumiste): '')
              (map py_str (list_of (obj_get ''openQuestions'' plan)))
      in join [newline]
           ([HEADER, [], str_or_empty (obj_get ''purpose'' plan)] @ (if sections = [] then [] else [] # sections)))"

section \<open>Reading what an agent sent\<close>

definition questions_of :: "json \<Rightarrow> json list" where
  "questions_of answer =
     (let nested = obj_get ''questionnaire'' answer; source = (if is_mapping nested then nested else answer)
      in filter (\<lambda>q. is_mapping q \<and> strip (str_or_empty (obj_get ''text'' q)) \<noteq> []) (list_of (obj_get ''questions'' source)))"

definition is_plan :: "json \<Rightarrow> bool" where
  "is_plan answer \<longleftrightarrow> is_mapping answer \<and> strip (str_or_empty (obj_get ''purpose'' answer)) \<noteq> []
     \<and> list_ex (\<lambda>field. items_of (obj_get field answer) \<noteq> []) [''entities'', ''roles'', ''flows'', ''constraints'']"

section \<open>The gateway's state\<close>

record system =
  sy_client :: client_state
  sy_runs :: run_store
  sy_log :: run_log
  sy_world :: world
  sy_mono :: "nat \<Rightarrow> monotonic"
  sy_token :: "nat \<Rightarrow> string"
  sy_tick :: nat
  sy_out :: "string list"

record orchestrator =
  or_registry :: registry
  or_send :: "unit client"
  or_stream :: "unit client"
  or_arrives :: "upstream_outcome \<Rightarrow> string list \<times> exn option"
  or_pm_service :: string
  or_backend_service :: string
  or_pm_token :: string
  or_backend_token :: string
  or_locale :: string
  or_console :: bool
  or_meter :: "billing_service option"
  or_codecs :: codecs

type_synonym 'a sys = "(system, exn, 'a) gw"

definition on_client :: "(client_state, exn, 'a) gw \<Rightarrow> 'a sys" where
  "on_client = zoom sy_client (\<lambda>c s. s\<lparr>sy_client := c\<rparr>)"

definition on_runs :: "(monotonic \<Rightarrow> (run_store, exn, 'a) gw) \<Rightarrow> 'a sys" where
  "on_runs f = (\<lambda>s. zoom sy_runs (\<lambda>r s. s\<lparr>sy_runs := r, sy_tick := sy_tick s + 1\<rparr>) (f (sy_mono s (sy_tick s))) s)"

definition on_log :: "(run_log, exn, 'a) gw \<Rightarrow> 'a sys" where
  "on_log = zoom sy_log (\<lambda>l s. s\<lparr>sy_log := l\<rparr>)"

definition on_world :: "(world, exn, 'a) gw \<Rightarrow> 'a sys" where
  "on_world = zoom sy_world (\<lambda>w s. s\<lparr>sy_world := w\<rparr>)"

definition monotonic_now :: "monotonic sys" where
  "monotonic_now = (\<lambda>s. (Inr (sy_mono s (sy_tick s)), s\<lparr>sy_tick := sy_tick s + 1\<rparr>))"

definition new_run_id :: "string sys" where
  "new_run_id = (\<lambda>s. (Inr (sy_token s (sy_tick s)), s\<lparr>sy_tick := sy_tick s + 1\<rparr>))"

definition put :: "run \<Rightarrow> run sys" where "put r = on_runs (run_store_put r)"
definition get :: "string \<Rightarrow> run sys" where "get k = on_runs (run_store_get k)"

text \<open>A move of a run, at the time it is made.\<close>

definition move :: "(monotonic \<Rightarrow> run \<Rightarrow> exn + run) \<Rightarrow> run \<Rightarrow> run sys" where
  "move f r = bind_gw monotonic_now (\<lambda>now. lift_gw (f now r))"

section \<open>Talking to the agents\<close>

definition agent_headers :: "string \<Rightarrow> headers" where
  "agent_headers token = (''content-type'', ''application/json'') # (if token \<noteq> [] then [(''x-mirag-token'', token)] else [])"

definition agent_request :: "string \<Rightarrow> string \<Rightarrow> string \<Rightarrow> string \<Rightarrow> inbound_request" where
  "agent_request http_method path body token =
     \<lparr>in_method = http_method, in_path = path, in_headers = agent_headers token, in_query_params = [], in_body = body,
      in_client_host = None, in_scheme = ''http'', in_host = None, in_request_id = None\<rparr>"

definition dumps :: "(string \<times> json) list \<Rightarrow> string" where
  "dumps kvs = json_dumps '', '' '': '' (JObj kvs)"

definition agent_answer :: "orchestrator \<Rightarrow> string \<Rightarrow> upstream_outcome \<Rightarrow> exn + json" where
  "agent_answer orc operation response =
     (case json_loads (or_codecs orc) (if uo_body response = [] then ''{}'' else uo_body response) of
        None \<Rightarrow> Inl (OrchestrationError (or_pm_service orc) (operation @ '' did not answer JSON''))
      | Some answer \<Rightarrow>
          if uo_status response < 400 \<and> is_mapping answer then Inr answer
          else
            let error = obj_get ''error'' answer;
                fallback = operation @ '' answered '' @ show_int (uo_status response);
                detail = obj_get ''message'' error
            in if truthy error \<and> \<not> is_mapping error then Inl (OtherException ''AttributeError'')
               else Inl (OrchestrationError (or_pm_service orc) (if truthy detail then py_str detail else fallback)))"

definition ask_pm :: "orchestrator \<Rightarrow> string \<Rightarrow> (string \<times> json) list \<Rightarrow> json sys" where
  "ask_pm orc operation payload =
     bind_gw
       (on_client (proxied (or_registry orc) (or_send orc) (or_pm_service orc)
          (agent_request ''POST'' (''api/v1/'' @ operation) (dumps (payload @ [(''locale'', JStr (or_locale orc))])) (or_pm_token orc)) None))
       (\<lambda>response. lift_gw (agent_answer orc operation response))"

text \<open>\<^verbatim>\<open>_open\<close>: a stream whose status is a refusal is read, closed and raised.\<close>

definition open_stream :: "orchestrator \<Rightarrow> inbound_request \<Rightarrow> upstream_outcome sys" where
  "open_stream orc request =
     bind_gw (on_client (proxied (or_registry orc) (or_stream orc) (or_backend_service orc) request None)) (\<lambda>stream.
       if uo_status stream < 400 then return_gw stream
       else
         bind_gw
           (finally_gw
              (lift_gw (case or_arrives orc stream of (chunks, None) \<Rightarrow> Inr (take 4096 (concat chunks)) | (_, Some e) \<Rightarrow> Inl e))
              (on_client (aclose stream))) (\<lambda>body.
           let detail = (case json_loads (or_codecs orc) body of
                           Some v \<Rightarrow> str_or_empty (obj_get ''message'' (obj_get ''error'' v)) | None \<Rightarrow> [])
           in if uo_status stream = 410 then raise_gw ProjectGoneError
              else raise_gw (OrchestrationError (or_backend_service orc)
                     (if detail \<noteq> [] then detail else ''the agent answered '' @ show_int (uo_status stream)))))"

section \<open>The moves\<close>

definition questionnaire_json :: "string \<Rightarrow> json list \<Rightarrow> json" where
  "questionnaire_json reason questions = JObj [(''reason'', JStr reason), (''questions'', JList questions)]"

definition plan_turn :: "orchestrator \<Rightarrow> run \<Rightarrow> run sys" where
  "plan_turn orc r =
     bind_gw
       (ask_pm orc ''plan''
          [(''idea'', JStr (run_idea r)),
           (''answers'', JList (map (\<lambda>a. JObj [(''questionId'', JStr (ans_question_id a)), (''value'', JStr (ans_value a))]) (run_answers r))),
           (''round'', JInt (run_rounds r)), (''maxRounds'', JInt MAX_ROUNDS)]) (\<lambda>answer.
       if questions_of answer \<noteq> [] then
         (if rounds_left r \<le> 0
          then raise_gw (OrchestrationError (or_pm_service orc)
                 (''the PM asked for round '' @ show_int (run_rounds r + 1) @ '' of '' @ show_int MAX_ROUNDS))
          else move (asked (run_summary r) (questionnaire_json (str_or_empty (obj_get ''reason'' answer)) (questions_of answer))) r)
       else if \<not> is_plan answer
         then raise_gw (OrchestrationError (or_pm_service orc) ''the PM returned neither a plan nor questions'')
       else move (proposed answer) r)"

definition start :: "orchestrator \<Rightarrow> string \<Rightarrow> string \<Rightarrow> run sys" where
  "start orc idea account =
     then_gw
       (case or_meter orc of
          Some billing \<Rightarrow> if account \<noteq> [] then on_world (then_gw (authorize billing account 0) (return_gw ())) else return_gw ()
        | None \<Rightarrow> return_gw ())
       (bind_gw new_run_id (\<lambda>token.
        bind_gw monotonic_now (\<lambda>created.
        bind_gw monotonic_now (\<lambda>updated.
        bind_gw (lift_gw (run_start idea account token created updated)) (\<lambda>fresh.
        bind_gw (move describing fresh) (\<lambda>r.
        bind_gw (ask_pm orc ''analyze'' [(''idea'', JStr (run_idea r))]) (\<lambda>answer.
        let summary = str_or_empty (obj_get ''summary'' answer); questionnaire = obj_get ''questionnaire'' answer
        in bind_gw
             (if questions_of questionnaire \<noteq> []
              then move (asked summary (questionnaire_json (str_or_empty (obj_get ''reason'' questionnaire)) (questions_of questionnaire))) r
              else bind_gw (move (asked summary (questionnaire_json [] [])) r) (plan_turn orc))
             put)))))))"

definition answer_questions :: "orchestrator \<Rightarrow> string \<Rightarrow> answer list \<Rightarrow> run sys" where
  "answer_questions orc k answers =
     bind_gw (get k) (\<lambda>r.
     bind_gw (bind_gw monotonic_now (\<lambda>now. return_gw (answering answers now r))) (\<lambda>answered.
     bind_gw (plan_turn orc answered) put))"

definition reject :: "orchestrator \<Rightarrow> string \<Rightarrow> string \<Rightarrow> run sys" where
  "reject orc k feedback =
     (let reason = strip feedback
      in if reason = [] then raise_gw (ValueError ''a rejection needs a reason'')
         else
           bind_gw (get k) (\<lambda>r.
           bind_gw (move rejected r) (\<lambda>r1.
           bind_gw (move revising r1) (\<lambda>r2.
           bind_gw (ask_pm orc ''revise'' [(''plan'', case run_plan r2 of Some p \<Rightarrow> p | None \<Rightarrow> JNull), (''feedback'', JStr reason)]) (\<lambda>answer.
             if \<not> is_plan answer then raise_gw (OrchestrationError (or_pm_service orc) ''the PM did not return a revised plan'')
             else bind_gw (move (proposed answer) r2) put)))))"

definition approve :: "string \<Rightarrow> run sys" where
  "approve k = bind_gw (get k) (\<lambda>r. bind_gw (move approved r) put)"

section \<open>Generating\<close>

text \<open>\<^verbatim>\<open>type(error).__name__\<close>; a library exception that is modelled by its text carries its name there.\<close>

fun exn_name :: "exn \<Rightarrow> string" where
  "exn_name (ServiceNotFoundError _) = ''ServiceNotFoundError''"
| "exn_name (InstanceNotFoundError _ _) = ''InstanceNotFoundError''"
| "exn_name (DuplicateServiceError _) = ''DuplicateServiceError''"
| "exn_name (UpstreamError _ _ _) = ''UpstreamError''"
| "exn_name (UpstreamTimeoutError _ _) = ''UpstreamTimeoutError''"
| "exn_name (UpstreamConnectionError _ _) = ''UpstreamConnectionError''"
| "exn_name (OrchestrationError _ _) = ''OrchestrationError''"
| "exn_name (CircuitOpenError _) = ''CircuitOpenError''"
| "exn_name (RunNotFoundError _) = ''RunNotFoundError''"
| "exn_name (IllegalTransitionError _ _) = ''IllegalTransitionError''"
| "exn_name (ValueError _) = ''ValueError''"
| "exn_name (RuntimeError _) = ''RuntimeError''"
| "exn_name OverflowError = ''OverflowError''"
| "exn_name TypeError = ''TypeError''"
| "exn_name (DecimalSignal s) = s"
| "exn_name (OtherException s) = s"
| "exn_name ConsoleDisabledError = ''ConsoleDisabledError''"
| "exn_name (NoProjectError _) = ''NoProjectError''"
| "exn_name ProjectGoneError = ''ProjectGoneError''"
| "exn_name (BillingError _) = ''BillingError''"
| "exn_name (InsufficientFundsError _ _) = ''InsufficientFundsError''"
| "exn_name (UnknownProductError _) = ''UnknownProductError''"
| "exn_name (InvoiceNotFoundError _) = ''InvoiceNotFoundError''"
| "exn_name (SubscriptionContractError _) = ''SubscriptionContractError''"
| "exn_name (X402Error _) = ''X402Error''"
| "exn_name (PaymentRequiredError _) = ''PaymentRequiredError''"
| "exn_name (IdentityError _) = ''IdentityError''"
| "exn_name (UnverifiableError _) = ''UnverifiableError''"
| "exn_name (PaymentNetworkError _) = ''PaymentNetworkError''"
| "exn_name IntegrityError = ''IntegrityError''"
| "exn_name CancelledError = ''CancelledError''"
| "exn_name GeneratorExit = ''GeneratorExit''"

definition yield_chunk :: "string \<Rightarrow> unit sys" where
  "yield_chunk c = modify_gw (\<lambda>s. s\<lparr>sy_out := sy_out s @ [c]\<rparr>)"

definition resumed :: "exn option \<Rightarrow> unit sys" where
  "resumed thrown = (case thrown of None \<Rightarrow> return_gw () | Some e \<Rightarrow> raise_gw e)"

text \<open>The loop over the chunks: kept, yielded, read. \<open>n\<close> counts the yields.\<close>

fun pump :: "codecs \<Rightarrow> string \<Rightarrow> (nat \<Rightarrow> exn option) \<Rightarrow> exn option \<Rightarrow> nat \<Rightarrow> string list \<Rightarrow> stream_scan \<Rightarrow> stream_scan sys" where
  "pump cod k consumer ending n [] scan = (case ending of None \<Rightarrow> return_gw scan | Some e \<Rightarrow> raise_gw e)"
| "pump cod k consumer ending n (c # cs) scan =
     then_gw (on_log (log_append k c))
       (then_gw (yield_chunk c)
          (then_gw (resumed (consumer n))
             (bind_gw (lift_gw (feed cod c scan)) (pump cod k consumer ending (n + 1) cs))))"

definition fail_run :: "run \<Rightarrow> string \<Rightarrow> run sys" where
  "fail_run r message = bind_gw (move (failed message) r) put"

definition generation_failed :: "run \<Rightarrow> exn \<Rightarrow> 'a sys" where
  "generation_failed r e =
     (if e = CancelledError then then_gw (fail_run r ''the connection was lost during generation'') (raise_gw e)
      else if is_exception e then then_gw (fail_run r (exn_name e @ '': '' @ str_exn e)) (raise_gw e)
      else raise_gw e)"

definition charge_run :: "orchestrator \<Rightarrow> run \<Rightarrow> usage \<Rightarrow> run sys" where
  "charge_run orc r u =
     (case or_meter orc of
        None \<Rightarrow> return_gw r
      | Some billing \<Rightarrow>
          if run_account r = [] \<or> usage_is_empty u then return_gw r
          else
            bind_gw
              (catch_gw (on_world (charge billing (run_account r) (run_id r) u))
                 (\<lambda>e. if is_exception e then return_gw None else raise_gw e)) (\<lambda>entry.
              case entry of
                None \<Rightarrow> return_gw r
              | Some e \<Rightarrow> bind_gw monotonic_now (\<lambda>now. return_gw (billed \<bar>le_tokens e\<bar> now r))))"

definition follow_stream :: "orchestrator \<Rightarrow> (nat \<Rightarrow> exn option) \<Rightarrow> run \<Rightarrow> upstream_outcome \<Rightarrow> stream_scan sys" where
  "follow_stream orc consumer r stream =
     (case or_arrives orc stream of
        (chunks, ending) \<Rightarrow>
          finally_gw
            (catch_gw (pump (or_codecs orc) (run_id r) consumer ending 0 chunks new_scan) (generation_failed r))
            (then_gw (on_client (aclose stream)) (on_log (modify_gw (log_end (run_id r))))))"

definition generation_request :: "orchestrator \<Rightarrow> run \<Rightarrow> inbound_request" where
  "generation_request orc r =
     agent_request ''POST'' ''api/v1/chat''
       (dumps [(''question'', JStr (prompt_for (case run_plan r of Some p \<Rightarrow> p | None \<Rightarrow> JObj []))), (''locale'', JStr (or_locale orc))])
       (or_backend_token orc)"

text \<open>What follows the stream, when it was not cut.\<close>

definition conclude :: "orchestrator \<Rightarrow> run \<Rightarrow> stream_scan \<Rightarrow> unit sys" where
  "conclude orc r scan =
     (if ss_artifact scan = [] then then_gw (fail_run r ''the agent produced no artifact'') (return_gw ())
      else
        bind_gw (move (delivered (ss_artifact scan)) r) (\<lambda>done_run.
        bind_gw (charge_run orc done_run (ss_usage scan)) (\<lambda>final.
        then_gw (put final) (return_gw ()))))"

definition generate :: "orchestrator \<Rightarrow> (nat \<Rightarrow> exn option) \<Rightarrow> string \<Rightarrow> unit sys" where
  "generate orc consumer k =
     bind_gw (get k) (\<lambda>r0.
     bind_gw (move generating r0) (\<lambda>r.
     then_gw (put r)
       (bind_gw
          (on_client (proxied (or_registry orc) (or_stream orc) (or_backend_service orc) (generation_request orc r) None)) (\<lambda>stream.
        then_gw (on_log (log_start (run_id r)))
          (bind_gw (follow_stream orc consumer r stream) (conclude orc r))))))"

section \<open>The project\<close>

definition artifact_of :: "string \<Rightarrow> string sys" where
  "artifact_of k = bind_gw (get k) (\<lambda>r. if run_artifact_id r = [] then raise_gw (NoProjectError k) else return_gw (run_artifact_id r))"

definition open_console :: "orchestrator \<Rightarrow> string \<Rightarrow> string \<Rightarrow> upstream_outcome sys" where
  "open_console orc k command =
     (if \<not> or_console orc then raise_gw ConsoleDisabledError
      else
        bind_gw (artifact_of k) (\<lambda>artifact.
        open_stream orc (agent_request ''POST'' (''api/v1/artifacts/'' @ artifact @ ''/exec'') (dumps [(''command'', JStr command)]) (or_backend_token orc))))"

definition open_download :: "orchestrator \<Rightarrow> string \<Rightarrow> upstream_outcome sys" where
  "open_download orc k =
     bind_gw (artifact_of k) (\<lambda>artifact.
     open_stream orc (agent_request ''GET'' (''api/v1/artifacts/'' @ artifact @ ''/download'') [] (or_backend_token orc)))"

section \<open>What the parts leave behind\<close>

definition store_ready :: "run_store \<Rightarrow> bool" where
  "store_ready st \<longleftrightarrow> run_store_ok st \<and> 1 \<le> rs_max st"

definition log_ready :: "run_log \<Rightarrow> bool" where
  "log_ready l \<longleftrightarrow> log_ok l \<and> 1 \<le> rl_max_runs l"

definition stored :: "system \<Rightarrow> string \<Rightarrow> run option" where
  "stored s k = map_of (rs_runs (sy_runs s)) k"

lemma put_lookup:
  assumes "store_ready st"
  shows "store_ready (snd (run_store_put r now st)) \<and> fst (run_store_put r now st) = Inr r
     \<and> map_of (rs_runs (snd (run_store_put r now st))) (run_id r) = Some r"
proof -
  have ok: "run_store_ok st" "1 \<le> rs_max st" using assms by (simp_all add: store_ready_def)
  let ?st = "snd (run_store_put r now st)"
  have "run_store_ok ?st" by (rule put_ok [OF ok])
  moreover have "(run_id r, r) \<in> set (rs_runs ?st)" using recent_after_put [OF ok, of r now] by (auto simp: recent_def)
  ultimately have "map_of (rs_runs ?st) (run_id r) = Some r"
    by (simp add: run_store_ok_def dict_ok_def dict_keys_def)
  with put_runs [OF ok, of r now] \<open>run_store_ok ?st\<close> ok show ?thesis by (simp add: store_ready_def)
qed

lemma put_effect:
  assumes "store_ready (sy_runs s)"
  shows "\<exists>st t. put r s = (Inr r, s\<lparr>sy_runs := st, sy_tick := t\<rparr>) \<and> store_ready st \<and> map_of (rs_runs st) (run_id r) = Some r"
  using put_lookup [OF assms, of r "sy_mono s (sy_tick s)"]
  by (auto simp: put_def on_runs_def zoom_def split: prod.splits)

lemma fail_run_effect:
  assumes "store_ready (sy_runs s)" "FAILABLE (run_st r)"
  shows "\<exists>st t r'. fail_run r message s = (Inr r', s\<lparr>sy_runs := st, sy_tick := t\<rparr>) \<and> store_ready st
     \<and> map_of (rs_runs st) (run_id r) = Some r' \<and> run_st r' = FAILED \<and> run_error r' = message"
proof -
  let ?s = "s\<lparr>sy_tick := sy_tick s + 1\<rparr>" and ?now = "sy_mono s (sy_tick s)"
  let ?r = "r\<lparr>run_st := FAILED, run_updated_at := ?now, run_error := message\<rparr>"
  have "failed message ?now r = Inr ?r" using assms(2) by (simp add: failed_def moved_def may_def)
  then have "fail_run r message s = put ?r ?s"
    by (simp add: fail_run_def move_def monotonic_now_def bind_gw_def lift_gw_def)
  with put_effect [of ?s ?r] assms(1) show ?thesis by fastforce
qed

lemma generation_failed_effect:
  assumes "store_ready (sy_runs s)" "FAILABLE (run_st r)"
  shows "\<exists>st t. generation_failed r e s = (Inl e, s\<lparr>sy_runs := st, sy_tick := t\<rparr>) \<and> store_ready st
     \<and> (if e = GeneratorExit then st = sy_runs s
        else \<exists>r'. map_of (rs_runs st) (run_id r) = Some r' \<and> run_st r' = FAILED)"
    (is "\<exists>st t. ?g = _ \<and> _")
proof (cases "e = GeneratorExit")
  case True
  then have "?g = (Inl e, s\<lparr>sy_runs := sy_runs s, sy_tick := sy_tick s\<rparr>)"
    by (simp add: generation_failed_def raise_gw_def)
  with True assms(1) show ?thesis by (metis (full_types))
next
  case False
  then have "e = CancelledError \<or> is_exception e" by (cases e) auto
  then have "\<exists>message. ?g = then_gw (fail_run r message) (raise_gw e) s"
    by (cases "e = CancelledError") (auto simp: generation_failed_def)
  then obtain message where "?g = then_gw (fail_run r message) (raise_gw e) s" by blast
  moreover obtain st t r' where f: "fail_run r message s = (Inr r', s\<lparr>sy_runs := st, sy_tick := t\<rparr>)" "store_ready st"
      "map_of (rs_runs st) (run_id r) = Some r'" "run_st r' = FAILED"
    using fail_run_effect [OF assms, of message] by blast
  ultimately have "?g = (Inl e, s\<lparr>sy_runs := st, sy_tick := t\<rparr>)"
    by (simp add: then_gw_def bind_gw_def raise_gw_def)
  with f False show ?thesis by auto
qed

text \<open>What the generator hears of the stream, and how many chunks it yields.\<close>

fun heard :: "codecs \<Rightarrow> (nat \<Rightarrow> exn option) \<Rightarrow> exn option \<Rightarrow> nat \<Rightarrow> string list \<Rightarrow> stream_scan \<Rightarrow> exn + stream_scan" where
  "heard cod consumer ending n [] scan = (case ending of None \<Rightarrow> Inr scan | Some e \<Rightarrow> Inl e)"
| "heard cod consumer ending n (c # cs) scan =
     (case consumer n of
        Some e \<Rightarrow> Inl e
      | None \<Rightarrow> (case feed cod c scan of Inl e \<Rightarrow> Inl e | Inr scan' \<Rightarrow> heard cod consumer ending (n + 1) cs scan'))"

text \<open>A log that readers still wait on.\<close>

definition log_open :: "string \<Rightarrow> run_log \<Rightarrow> bool" where
  "log_open k l \<longleftrightarrow> log_has k l \<and> \<not> log_ended k l"

lemma log_append_effect:
  assumes "log_ready l" "log_open k l"
  shows "\<exists>l'. log_append k c l = (Inr (), l') \<and> log_ready l' \<and> log_open k l'"
proof (cases "map_of (rl_chunks l) k")
  case (Some a)
  with append_chunk_ok [of l k a c] assms show ?thesis
    by (fastforce simp: log_append_def then_gw_def bind_gw_def log_ready_def log_has_def log_open_def log_ended_def)
next
  case None
  with assms show ?thesis by (simp add: log_open_def log_has_def)
qed

lemma pump_effect:
  assumes "log_ready (sy_log s)" "log_open k (sy_log s)"
  shows "\<exists>l m. pump cod k consumer ending n chunks scan s =
       (heard cod consumer ending n chunks scan, s\<lparr>sy_log := l, sy_out := sy_out s @ take m chunks\<rparr>)
     \<and> log_ready l \<and> log_open k l \<and> (\<forall>sc. heard cod consumer ending n chunks scan = Inr sc \<longrightarrow> m = length chunks)"
  using assms
proof (induction chunks arbitrary: s n scan)
  case Nil
  then have "s\<lparr>sy_log := sy_log s, sy_out := sy_out s @ take 0 []\<rparr> = s" by simp
  with Nil show ?case
    by (intro exI [of _ "sy_log s"] exI [of _ 0]) (auto simp: return_gw_def raise_gw_def split: option.splits)
next
  case (Cons c cs)
  from log_append_effect [OF Cons.prems] obtain l1 where l1: "log_append k c (sy_log s) = (Inr (), l1)" "log_ready l1" "log_open k l1"
    by blast
  let ?s = "s\<lparr>sy_log := l1, sy_out := sy_out s @ [c]\<rparr>"
  have run: "pump cod k consumer ending n (c # cs) scan s =
      (case consumer n of
         Some e \<Rightarrow> (Inl e, ?s)
       | None \<Rightarrow> (case feed cod c scan of Inl e \<Rightarrow> (Inl e, ?s) | Inr sc \<Rightarrow> pump cod k consumer ending (n + 1) cs sc ?s))"
    using l1(1) by (cases "consumer n"; cases "feed cod c scan") (simp_all add: then_gw_def bind_gw_def on_log_def zoom_def
        yield_chunk_def modify_gw_def resumed_def return_gw_def raise_gw_def lift_gw_def)
  show ?case
  proof (cases "consumer n")
    case (Some e)
    with l1(2,3) show ?thesis unfolding run by (intro exI [of _ l1] exI [of _ 1]) simp
  next
    case None
    show ?thesis
    proof (cases "feed cod c scan")
      case (Inl e)
      with None l1(2,3) show ?thesis unfolding run by (intro exI [of _ l1] exI [of _ 1]) simp
    next
      case (Inr sc)
      from Cons.IH [of ?s "n + 1" sc] l1(2,3) obtain l m where
        "pump cod k consumer ending (n + 1) cs sc ?s =
           (heard cod consumer ending (n + 1) cs sc, ?s\<lparr>sy_log := l, sy_out := sy_out ?s @ take m cs\<rparr>)"
        "log_ready l" "log_open k l" "\<forall>sc'. heard cod consumer ending (n + 1) cs sc = Inr sc' \<longrightarrow> m = length cs" by auto
      with None Inr show ?thesis unfolding run by (intro exI [of _ l] exI [of _ "Suc m"]) simp
    qed
  qed
qed

lemma end_effect: "log_ready l \<Longrightarrow> log_has k l \<Longrightarrow> log_ready (log_end k l) \<and> log_ended k (log_end k l)"
proof -
  assume ok: "log_ready l" and "log_has k l"
  then have "map_of (rl_ended l) k \<noteq> None" unfolding log_has_def key_present by (simp add: log_ready_def log_ok_def)
  then have "log_ended k (log_end k l)" "rl_max_runs (log_end k l) = rl_max_runs l"
    by (auto simp: log_end_def log_ended_def wake_def Let_def dict_simps)
  then show ?thesis using ok end_ok [of l k] by (simp add: log_ready_def)
qed

lemma follow_stream_effect:
  assumes "store_ready (sy_runs s)" "FAILABLE (run_st r)" "log_ready (sy_log s)" "log_open (run_id r) (sy_log s)"
    and "or_arrives orc stream = (chunks, ending)" "res = heard (or_codecs orc) consumer ending 0 chunks new_scan"
    and "aclose stream (sy_client s) = (closed, c2)"
  shows "\<exists>st t l m. follow_stream orc consumer r stream s =
       (case closed of Inl e \<Rightarrow> Inl e | Inr _ \<Rightarrow> res,
        s\<lparr>sy_runs := st, sy_tick := t, sy_log := l, sy_out := sy_out s @ take m chunks, sy_client := c2\<rparr>)
     \<and> store_ready st \<and> (log_ended (run_id r) l \<longleftrightarrow> closed = Inr ())
     \<and> (case res of
          Inr sc \<Rightarrow> st = sy_runs s \<and> m = length chunks
        | Inl e \<Rightarrow> if e = GeneratorExit then st = sy_runs s
                   else \<exists>r'. map_of (rs_runs st) (run_id r) = Some r' \<and> run_st r' = FAILED)"
proof -
  let ?p = "pump (or_codecs orc) (run_id r) consumer ending 0 chunks new_scan"
  obtain l m where p: "?p s = (res, s\<lparr>sy_log := l, sy_out := sy_out s @ take m chunks\<rparr>)"
    "log_ready l" "log_open (run_id r) l" "\<forall>sc. res = Inr sc \<longrightarrow> m = length chunks"
    using pump_effect [OF assms(3,4), of "or_codecs orc" consumer ending 0 chunks new_scan] assms(6) by blast
  let ?s = "s\<lparr>sy_log := l, sy_out := sy_out s @ take m chunks\<rparr>"
  define l' where "l' = (if closed = Inr () then log_end (run_id r) l else l)"
  have l': "log_ended (run_id r) l' \<longleftrightarrow> closed = Inr ()"
    using p(2,3) end_effect [of l "run_id r"] by (simp add: l'_def log_open_def)
  have fin: "then_gw (on_client (aclose stream)) (on_log (modify_gw (log_end (run_id r)))) (?s\<lparr>sy_runs := st, sy_tick := t\<rparr>)
      = (closed, ?s\<lparr>sy_runs := st, sy_tick := t, sy_log := l', sy_client := c2\<rparr>)" for st t
    using assms(7) by (cases closed) (simp_all add: then_gw_def bind_gw_def on_client_def on_log_def zoom_def modify_gw_def l'_def)
  show ?thesis
  proof (cases res)
    case (Inr sc)
    then have "catch_gw ?p (generation_failed r) s = (Inr sc, ?s\<lparr>sy_runs := sy_runs s, sy_tick := sy_tick s\<rparr>)"
      using p(1) by (simp add: catch_gw_def)
    with Inr fin [of "sy_tick s" "sy_runs s"] p assms(1,5) l' show ?thesis
      by (intro exI [of _ "sy_runs s"] exI [of _ "sy_tick s"] exI [of _ l'] exI [of _ m])
         (simp add: follow_stream_def finally_gw_def split: sum.splits)
  next
    case (Inl e)
    obtain st t where g: "generation_failed r e ?s = (Inl e :: exn + stream_scan, ?s\<lparr>sy_runs := st, sy_tick := t\<rparr>)" "store_ready st"
      "if e = GeneratorExit then st = sy_runs ?s else \<exists>r'. map_of (rs_runs st) (run_id r) = Some r' \<and> run_st r' = FAILED"
      using generation_failed_effect [of ?s r e] assms(1,2) by auto
    have "catch_gw ?p (generation_failed r) s = (Inl e, ?s\<lparr>sy_runs := st, sy_tick := t\<rparr>)"
      using p(1) Inl g(1) by (simp add: catch_gw_def)
    with Inl fin [of t st] g(2,3) assms(5) l' show ?thesis
      by (intro exI [of _ st] exI [of _ t] exI [of _ l'] exI [of _ m])
         (simp add: follow_stream_def finally_gw_def cong: if_cong split: sum.splits)
  qed
qed

section \<open>A generation, from its start to its end\<close>

text \<open>A run that may be generated, in a gateway whose store and log have room.\<close>

definition approved_in :: "system \<Rightarrow> run \<Rightarrow> bool" where
  "approved_in s r \<longleftrightarrow> run_st r = PLAN_APPROVED \<and> store_ready (sy_runs s) \<and> log_ready (sy_log s)
     \<and> map_of (rs_runs (sweep (sy_mono s (sy_tick s)) (sy_runs s))) (run_id r) = Some r"

definition generating_run :: "monotonic \<Rightarrow> run \<Rightarrow> run" where
  "generating_run now r = r\<lparr>run_st := BACKEND_GENERATION, run_updated_at := now\<rparr>"

lemma get_effect:
  assumes "approved_in s r"
  shows "get (run_id r) s = (Inr r, s\<lparr>sy_runs := sweep (sy_mono s (sy_tick s)) (sy_runs s), sy_tick := sy_tick s + 1\<rparr>)"
    "store_ready (sweep (sy_mono s (sy_tick s)) (sy_runs s))"
  using assms sweep_ok [of "sy_runs s"]
  by (auto simp: approved_in_def get_def on_runs_def zoom_def run_store_get_def store_ready_def)

text \<open>The part before the stream: the run is stored as being generated and nothing else has changed.\<close>

lemma generate_begins:
  assumes "approved_in s r"
  shows "\<exists>st t. store_ready st \<and> map_of (rs_runs st) (run_id r) = Some (generating_run (sy_mono s (sy_tick s + 1)) r) \<and>
     generate orc consumer (run_id r) s =
       bind_gw
         (on_client (proxied (or_registry orc) (or_stream orc) (or_backend_service orc) (generation_request orc r) None)) (\<lambda>stream.
         then_gw (on_log (log_start (run_id r)))
           (bind_gw (follow_stream orc consumer (generating_run (sy_mono s (sy_tick s + 1)) r) stream)
              (conclude orc (generating_run (sy_mono s (sy_tick s + 1)) r))))
         (s\<lparr>sy_runs := st, sy_tick := t\<rparr>)"
proof -
  let ?g = "generating_run (sy_mono s (sy_tick s + 1)) r"
  let ?s1 = "s\<lparr>sy_runs := sweep (sy_mono s (sy_tick s)) (sy_runs s), sy_tick := sy_tick s + 2\<rparr>"
  obtain st t where p: "put ?g ?s1 = (Inr ?g, ?s1\<lparr>sy_runs := st, sy_tick := t\<rparr>)" "store_ready st" "map_of (rs_runs st) (run_id ?g) = Some ?g"
    using put_effect [of ?s1 ?g] get_effect(2) [OF assms] by auto
  have st: "run_st r = PLAN_APPROVED" using assms by (simp add: approved_in_def)
  have "generation_request orc ?g = generation_request orc r" "run_id ?g = run_id r"
    by (simp_all add: generation_request_def generating_run_def)
  moreover have "move generating r (s\<lparr>sy_runs := x, sy_tick := sy_tick s + 1\<rparr>) = (Inr ?g, s\<lparr>sy_runs := x, sy_tick := sy_tick s + 2\<rparr>)" for x
    using st by (simp add: move_def monotonic_now_def bind_gw_def lift_gw_def generating_def moved_def may_def generating_run_def)
  ultimately show ?thesis
    using p unfolding generate_def bind_gw_Inr [of "get (run_id r)" s, OF get_effect(1) [OF assms]]
    by (intro exI [of _ st] exI [of _ t]) (simp add: bind_gw_Inr [of "move generating r"] then_gw_def bind_gw_Inr [of "put _"])
qed

text \<open>Charging can only raise what the orchestrator catches.\<close>

lemma entry_of_row_raises: "entry_of_row row = Inl e \<Longrightarrow> is_exception e"
  by (auto simp: entry_of_row_def bind_sum_def entry_kind_of_def not_valid_def time_of_def split: sum.splits option.splits if_splits)

lemma store_append_raises: "store_append x w = (Inl e, w') \<Longrightarrow> is_exception e"
  by (auto simp: store_append_def catch_gw_def then_gw_def bind_gw_def insert_ledger_def select_reference_def gets_gw_def return_gw_def
      raise_gw_def lift_gw_def dest: entry_of_row_raises split: if_splits option.splits prod.splits sum.splits)

lemma billable_raises: "billable p u = Inl e \<Longrightarrow> is_exception e"
  by (auto simp: billable_def money_scaled_def split: if_splits sum.splits)

lemma charge_raises: "charge bs a k u w = (Inl e, w') \<Longrightarrow> is_exception e"
  by (auto simp: charge_def entry_id_def token_hex_def now_utc_def tick_def gw_simps dest: billable_raises store_append_raises
      split: sum.splits if_splits prod.splits)

text \<open>The books after a delivery, and what the run records of it.\<close>

definition charged_by :: "orchestrator \<Rightarrow> run \<Rightarrow> usage \<Rightarrow> world \<Rightarrow> (exn + ledger_entry option) \<times> world" where
  "charged_by orc r u w =
     (case or_meter orc of
        None \<Rightarrow> (Inr None, w)
      | Some billing \<Rightarrow> if run_account r = [] \<or> usage_is_empty u then (Inr None, w) else charge billing (run_account r) (run_id r) u w)"

definition recorded :: "int \<Rightarrow> exn + ledger_entry option \<Rightarrow> int" where
  "recorded before result = (case result of Inr (Some e) \<Rightarrow> \<bar>le_tokens e\<bar> | _ \<Rightarrow> before)"

lemma recorded_simps [simp]:
  "recorded n (Inl e) = n" "recorded n (Inr None) = n" "recorded n (Inr (Some e')) = \<bar>le_tokens e'\<bar>"
  by (simp_all add: recorded_def)

lemma charge_run_effect:
  "\<exists>t r'. charge_run orc r u s = (Inr r', s\<lparr>sy_tick := t, sy_world := snd (charged_by orc r u (sy_world s))\<rparr>)
     \<and> run_id r' = run_id r \<and> run_st r' = run_st r \<and> run_artifact_id r' = run_artifact_id r
     \<and> run_charged r' = recorded (run_charged r) (fst (charged_by orc r u (sy_world s)))"
proof (cases "\<exists>billing. or_meter orc = Some billing \<and> \<not> (run_account r = [] \<or> usage_is_empty u)")
  case False
  then have "charge_run orc r u s = (Inr r, s)" "charged_by orc r u (sy_world s) = (Inr None, sy_world s)"
    by (auto simp: charge_run_def charged_by_def return_gw_def split: option.splits)
  then show ?thesis by (intro exI [of _ "sy_tick s"] exI [of _ r]) simp
next
  case True
  then obtain billing where b: "or_meter orc = Some billing" "\<not> (run_account r = [] \<or> usage_is_empty u)" by blast
  obtain res w where c: "charge billing (run_account r) (run_id r) u (sy_world s) = (res, w)" by fastforce
  have cb: "charged_by orc r u (sy_world s) = (res, w)" using b c by (simp add: charged_by_def)
  show ?thesis
  proof (cases res)
    case (Inl e)
    then have "is_exception e" using c charge_raises by blast
    with Inl b c cb show ?thesis
      by (intro exI [of _ "sy_tick s"] exI [of _ r]) (simp add: charge_run_def on_world_def zoom_def gw_simps)
  next
    case (Inr entry)
    show ?thesis
    proof (cases entry)
      case None
      with Inr b c have "charge_run orc r u s = (Inr r, s\<lparr>sy_tick := sy_tick s, sy_world := w\<rparr>)"
        by (simp add: charge_run_def on_world_def zoom_def gw_simps)
      with None Inr cb show ?thesis by (intro exI [of _ "sy_tick s"] exI [of _ r]) simp
    next
      case (Some e)
      with Inr b c have "charge_run orc r u s =
          (Inr (billed \<bar>le_tokens e\<bar> (sy_mono s (sy_tick s)) r), s\<lparr>sy_tick := sy_tick s + 1, sy_world := w\<rparr>)"
        by (simp add: charge_run_def on_world_def zoom_def gw_simps monotonic_now_def)
      with Some Inr cb show ?thesis
        by (intro exI [of _ "sy_tick s + 1"] exI [of _ "billed \<bar>le_tokens e\<bar> (sy_mono s (sy_tick s)) r"]) (simp add: billed_def)
    qed
  qed
qed

lemma conclude_effect:
  assumes "store_ready (sy_runs s)" "run_st r = BACKEND_GENERATION"
  shows "\<exists>st t w final. conclude orc r scan s = (Inr (), s\<lparr>sy_runs := st, sy_tick := t, sy_world := w\<rparr>)
     \<and> map_of (rs_runs st) (run_id r) = Some final
     \<and> (if ss_artifact scan = [] then run_st final = FAILED \<and> w = sy_world s
        else run_st final = ZIP_READY \<and> run_artifact_id final = ss_artifact scan \<and> w = snd (charged_by orc r (ss_usage scan) (sy_world s))
          \<and> run_charged final = recorded (run_charged r) (fst (charged_by orc r (ss_usage scan) (sy_world s))))"
proof (cases "ss_artifact scan = []")
  case True
  have "FAILABLE (run_st r)" using assms(2) by (simp add: FAILABLE_def)
  from fail_run_effect [OF assms(1) this, of "''the agent produced no artifact''"] obtain st t r' where
    f: "fail_run r ''the agent produced no artifact'' s = (Inr r', s\<lparr>sy_runs := st, sy_tick := t\<rparr>)"
    "map_of (rs_runs st) (run_id r) = Some r'" "run_st r' = FAILED" by blast
  with True show ?thesis
    by (intro exI [of _ st] exI [of _ t] exI [of _ "sy_world s"] exI [of _ r']) (simp add: conclude_def then_gw_def bind_gw_def return_gw_def)
next
  case False
  let ?d = "r\<lparr>run_st := ZIP_READY, run_updated_at := sy_mono s (sy_tick s), run_artifact_id := ss_artifact scan\<rparr>"
  let ?s1 = "s\<lparr>sy_tick := sy_tick s + 1\<rparr>"
  have move: "move (delivered (ss_artifact scan)) r s = (Inr ?d, ?s1)"
    using assms(2) by (simp add: move_def monotonic_now_def bind_gw_def lift_gw_def delivered_def moved_def may_def)
  have same: "charged_by orc ?d u w = charged_by orc r u w" for u w by (simp add: charged_by_def cong: option.case_cong if_cong)
  obtain t r' where c: "charge_run orc ?d (ss_usage scan) ?s1 =
      (Inr r', ?s1\<lparr>sy_tick := t, sy_world := snd (charged_by orc r (ss_usage scan) (sy_world s))\<rparr>)"
    "run_id r' = run_id r" "run_st r' = ZIP_READY" "run_artifact_id r' = ss_artifact scan"
    "run_charged r' = recorded (run_charged r) (fst (charged_by orc r (ss_usage scan) (sy_world s)))"
    using charge_run_effect [of orc ?d "ss_usage scan" ?s1] same by auto
  let ?s2 = "?s1\<lparr>sy_tick := t, sy_world := snd (charged_by orc r (ss_usage scan) (sy_world s))\<rparr>"
  obtain st t' where p: "put r' ?s2 = (Inr r', ?s2\<lparr>sy_runs := st, sy_tick := t'\<rparr>)" "map_of (rs_runs st) (run_id r') = Some r'"
    using put_effect [of ?s2 r'] assms(1) by auto
  have "conclude orc r scan s = (Inr (), s\<lparr>sy_runs := st, sy_tick := t', sy_world := snd (charged_by orc r (ss_usage scan) (sy_world s))\<rparr>)"
    using False move c(1) p(1) by (simp add: conclude_def then_gw_def bind_gw_def return_gw_def)
  with False c p(2) show ?thesis by (intro exI) auto
qed

lemma generate_streams:
  assumes "approved_in s r"
    and "proxied (or_registry orc) (or_stream orc) (or_backend_service orc) (generation_request orc r) None (sy_client s) = (Inr stream, c1)"
    and "or_arrives orc stream = (chunks, ending)" "res = heard (or_codecs orc) consumer ending 0 chunks new_scan"
    and "aclose stream c1 = (closed, c2)"
  shows "\<exists>st t l m g. g = generating_run (sy_mono s (sy_tick s + 1)) r \<and> store_ready st \<and> (log_ended (run_id r) l \<longleftrightarrow> closed = Inr ())
     \<and> generate orc consumer (run_id r) s =
         (let s1 = s\<lparr>sy_runs := st, sy_tick := t, sy_log := l, sy_out := sy_out s @ take m chunks, sy_client := c2\<rparr>
          in case closed of Inl e \<Rightarrow> (Inl e, s1) | Inr _ \<Rightarrow> (case res of Inl e \<Rightarrow> (Inl e, s1) | Inr scan \<Rightarrow> conclude orc g scan s1))
     \<and> (case res of
          Inr sc \<Rightarrow> m = length chunks \<and> map_of (rs_runs st) (run_id r) = Some g
        | Inl e \<Rightarrow> if e = GeneratorExit then map_of (rs_runs st) (run_id r) = Some g
                   else \<exists>r'. map_of (rs_runs st) (run_id r) = Some r' \<and> run_st r' = FAILED)"
proof -
  let ?g = "generating_run (sy_mono s (sy_tick s + 1)) r"
  have g: "run_id ?g = run_id r" "FAILABLE (run_st ?g)" by (simp_all add: generating_run_def FAILABLE_def)
  from generate_begins [OF assms(1), of orc consumer] obtain st t where st: "store_ready st" "map_of (rs_runs st) (run_id r) = Some ?g"
    and begun: "generate orc consumer (run_id r) s =
       bind_gw
         (on_client (proxied (or_registry orc) (or_stream orc) (or_backend_service orc) (generation_request orc r) None)) (\<lambda>stream.
         then_gw (on_log (log_start (run_id r))) (bind_gw (follow_stream orc consumer ?g stream) (conclude orc ?g)))
         (s\<lparr>sy_runs := st, sy_tick := t\<rparr>)" by blast
  have "log_ready (sy_log s)" using assms(1) by (simp add: approved_in_def)
  then obtain l where l: "log_start (run_id r) (sy_log s) = (Inr (), l)" "log_ready l" "log_open (run_id r) l"
    using start_ok [of "sy_log s" "run_id r"] by (auto simp: log_ready_def log_has_def log_open_def)
  let ?s = "s\<lparr>sy_runs := st, sy_tick := t, sy_client := c1, sy_log := l\<rparr>"
  from follow_stream_effect [of ?s ?g orc stream chunks ending res consumer closed c2] st(1) g l(2,3) assms(3-5)
  obtain st' t' l' m where f: "follow_stream orc consumer ?g stream ?s =
      (case closed of Inl e \<Rightarrow> Inl e | Inr _ \<Rightarrow> res,
       ?s\<lparr>sy_runs := st', sy_tick := t', sy_log := l', sy_out := sy_out s @ take m chunks, sy_client := c2\<rparr>)"
    "store_ready st'" "log_ended (run_id r) l' \<longleftrightarrow> closed = Inr ()"
    "case res of Inr sc \<Rightarrow> st' = st \<and> m = length chunks
      | Inl e \<Rightarrow> if e = GeneratorExit then st' = st else \<exists>r'. map_of (rs_runs st') (run_id r) = Some r' \<and> run_st r' = FAILED"
    by (auto cong: sum.case_cong if_cong)
  have "generate orc consumer (run_id r) s = bind_gw (follow_stream orc consumer ?g stream) (conclude orc ?g) ?s"
    using assms(2) l(1) by (simp add: begun bind_gw_def then_gw_def on_client_def on_log_def zoom_def)
  with f st(2) show ?thesis
    by (intro exI [of _ st'] exI [of _ t'] exI [of _ l'] exI [of _ m] exI [of _ ?g]) (auto simp: bind_gw_def Let_def split: sum.splits if_splits)
qed

text \<open>C3. How a generation settles its run, with every way it may end. Once the agent's stream is open, and
  whatever arrives on it, the caller is given the chunks in order and unchanged, up to where it stopped, and
  the stream is closed. When closing it succeeds, the log is ended and the run is stored as ready with the
  artifact the stream named, or as failed; a generator closed while it is suspended, which reaches neither of the
  two handlers, leaves the run as being generated. When closing it raises, that exception is the outcome, the log
  is never ended, and a stream that was heard to its end leaves the run as being generated too. The account is
  charged exactly when the run is ready, and the run records what it was charged; every other end changes
  nothing in the books.\<close>

theorem generation_settles_the_run:
  assumes "approved_in s r"
    and "proxied (or_registry orc) (or_stream orc) (or_backend_service orc) (generation_request orc r) None (sy_client s) = (Inr stream, c1)"
    and "or_arrives orc stream = (chunks, ending)"
    and "heard (or_codecs orc) consumer ending 0 chunks new_scan = outcome"
    and "aclose stream c1 = (closed, c2)"
  shows "\<exists>s' final m.
       generate orc consumer (run_id r) s = (case closed of Inl e \<Rightarrow> Inl e | Inr _ \<Rightarrow> map_sum id (\<lambda>_. ()) outcome, s')
     \<and> stored s' (run_id r) = Some final \<and> sy_client s' = c2
     \<and> (log_ended (run_id r) (sy_log s') \<longleftrightarrow> closed = Inr ()) \<and> sy_out s' = sy_out s @ take m chunks
     \<and> (case outcome of
          Inl e \<Rightarrow> run_st final = (if e = GeneratorExit then BACKEND_GENERATION else FAILED) \<and> sy_world s' = sy_world s
        | Inr scan \<Rightarrow> m = length chunks \<and>
            (if closed \<noteq> Inr () then run_st final = BACKEND_GENERATION \<and> sy_world s' = sy_world s
             else if ss_artifact scan = [] then run_st final = FAILED \<and> sy_world s' = sy_world s
             else run_st final = ZIP_READY \<and> run_artifact_id final = ss_artifact scan
               \<and> sy_world s' = snd (charged_by orc r (ss_usage scan) (sy_world s))
               \<and> run_charged final = recorded (run_charged r) (fst (charged_by orc r (ss_usage scan) (sy_world s)))))"
proof -
  let ?g = "generating_run (sy_mono s (sy_tick s + 1)) r"
  have g: "run_id ?g = run_id r" "run_st ?g = BACKEND_GENERATION" "run_charged ?g = run_charged r"
    by (simp_all add: generating_run_def)
  have cb: "charged_by orc ?g u w = charged_by orc r u w" for u w
    by (simp add: charged_by_def generating_run_def cong: option.case_cong if_cong)
  from generate_streams [OF assms(1-3) _ assms(5), of outcome consumer] assms(4) obtain st t l m where
    st: "store_ready st" "log_ended (run_id r) l \<longleftrightarrow> closed = Inr ()"
    and gen: "generate orc consumer (run_id r) s =
         (let s1 = s\<lparr>sy_runs := st, sy_tick := t, sy_log := l, sy_out := sy_out s @ take m chunks, sy_client := c2\<rparr>
          in case closed of Inl e \<Rightarrow> (Inl e, s1) | Inr _ \<Rightarrow> (case outcome of Inl e \<Rightarrow> (Inl e, s1) | Inr scan \<Rightarrow> conclude orc ?g scan s1))"
    and cases: "case outcome of Inr sc \<Rightarrow> m = length chunks \<and> map_of (rs_runs st) (run_id r) = Some ?g
        | Inl e \<Rightarrow> if e = GeneratorExit then map_of (rs_runs st) (run_id r) = Some ?g
                   else \<exists>r'. map_of (rs_runs st) (run_id r) = Some r' \<and> run_st r' = FAILED" by blast
  let ?s1 = "s\<lparr>sy_runs := st, sy_tick := t, sy_log := l, sy_out := sy_out s @ take m chunks, sy_client := c2\<rparr>"
  show ?thesis
  proof (cases "(\<exists>e. outcome = Inl e) \<or> (\<exists>e. closed = Inl e)")
    case True
    then obtain final where "map_of (rs_runs st) (run_id r) = Some final"
        "case outcome of Inl e \<Rightarrow> run_st final = (if e = GeneratorExit then BACKEND_GENERATION else FAILED)
           | Inr sc \<Rightarrow> m = length chunks \<and> run_st final = BACKEND_GENERATION"
      using cases g(2) by (auto split: sum.splits if_splits)
    with True gen st(2) show ?thesis
      by (intro exI [of _ ?s1] exI [of _ final] exI [of _ m]) (auto simp: stored_def Let_def split: sum.splits)
  next
    case False
    then obtain scan where Inr: "outcome = Inr scan" "closed = Inr ()" by (cases outcome; cases closed) auto
    from conclude_effect [of ?s1 ?g orc scan] st(1) g cb obtain st' t' w final where
      c: "conclude orc ?g scan ?s1 = (Inr (), ?s1\<lparr>sy_runs := st', sy_tick := t', sy_world := w\<rparr>)"
        "map_of (rs_runs st') (run_id r) = Some final"
        "if ss_artifact scan = [] then run_st final = FAILED \<and> w = sy_world ?s1
         else run_st final = ZIP_READY \<and> run_artifact_id final = ss_artifact scan \<and> w = snd (charged_by orc r (ss_usage scan) (sy_world s))
          \<and> run_charged final = recorded (run_charged r) (fst (charged_by orc r (ss_usage scan) (sy_world s)))"
      by (auto cong: if_cong)
    with Inr gen st(2) cases show ?thesis
      by (intro exI [of _ "?s1\<lparr>sy_runs := st', sy_tick := t', sy_world := w\<rparr>"] exI [of _ final] exI [of _ m])
         (simp add: stored_def cong: if_cong)
  qed
qed

lemma swept_lookup:
  assumes "store_ready st" "map_of (rs_runs (sweep now st)) k = Some r'"
  shows "map_of (rs_runs st) k = Some r'"
proof -
  have d: "dict_ok (rs_runs st)" using assms(1) by (simp add: store_ready_def run_store_ok_def)
  have "(k, r') \<in> set (rs_runs st)" using map_of_SomeD [OF assms(2)] by (simp add: sweep_runs [OF d])
  with d show ?thesis by (simp add: dict_ok_def dict_keys_def)
qed

lemma generate_refused:
  assumes "stored s k \<in> {None, Some g}" "store_ready (sy_runs s)" "run_st g = BACKEND_GENERATION"
  shows "fst (generate orc consumer k s) \<in> {Inl (IllegalTransitionError BACKEND_GENERATION GENERATE), Inl (RunNotFoundError k)}"
proof (cases "map_of (rs_runs (sweep (sy_mono s (sy_tick s)) (sy_runs s))) k")
  case None
  then show ?thesis by (simp add: generate_def get_def on_runs_def zoom_def run_store_get_def bind_gw_def)
next
  case (Some r')
  with swept_lookup [OF assms(2) Some] assms(1,3) have "run_st r' = BACKEND_GENERATION" by (auto simp: stored_def)
  with Some show ?thesis
    by (simp add: generate_def get_def on_runs_def zoom_def run_store_get_def bind_gw_def move_def monotonic_now_def lift_gw_def
        generating_def moved_def may_def)
qed

section \<open>What every call keeps\<close>

text \<open>Every call of the orchestrator, whatever it returns.\<close>

inductive orchestrator_call :: "orchestrator \<Rightarrow> system \<Rightarrow> system \<Rightarrow> bool" for orc where
  "orchestrator_call orc s (snd (start orc idea account s))"
| "orchestrator_call orc s (snd (answer_questions orc k answers s))"
| "orchestrator_call orc s (snd (reject orc k feedback s))"
| "orchestrator_call orc s (snd (approve k s))"
| "orchestrator_call orc s (snd (generate orc consumer k s))"
| "orchestrator_call orc s (snd (get k s))"
| "orchestrator_call orc s (snd (open_console orc k command s))"
| "orchestrator_call orc s (snd (open_download orc k s))"

lemma keeps_finally: "keeps P m \<Longrightarrow> keeps P f \<Longrightarrow> keeps P (finally_gw m f)"
  by (auto simp: keeps_def finally_gw_def split: prod.splits sum.splits)

text \<open>
  The contract of an invariant \<open>P\<close> of the gateway under the calls of the orchestrator: a run read from the store
  satisfies \<open>S\<close>, only runs satisfying \<open>Q\<close> may be written to it, and every move the orchestrator makes between a
  reading and a writing leads from the one to the other. \<open>T\<close> is what the invariant promises of the next run id.
\<close>

locale orchestrator_invariant =
  fixes P :: "system \<Rightarrow> bool" and S Q :: "run \<Rightarrow> bool" and T :: "string \<Rightarrow> bool"
  assumes part_kept: "P s \<Longrightarrow> P (s\<lparr>sy_client := c\<rparr>)" "P s \<Longrightarrow> P (s\<lparr>sy_log := l\<rparr>)" "P s \<Longrightarrow> P (s\<lparr>sy_world := w\<rparr>)"
      "P s \<Longrightarrow> P (s\<lparr>sy_out := out\<rparr>)" "P s \<Longrightarrow> P (s\<lparr>sy_tick := Suc (sy_tick s)\<rparr>)"
    and drawn: "P s \<Longrightarrow> T (sy_token s (sy_tick s))"
    and read_run: "yields P (get k) S"
    and write_run: "Q r \<Longrightarrow> keeps P (put r)"
    and written_readable: "Q r \<Longrightarrow> S r"
    and started: "run_start idea account token created updated = Inr r \<Longrightarrow> T token \<Longrightarrow> Q r"
    and moves_on: "S r \<Longrightarrow> describing now r = Inr r' \<Longrightarrow> Q r'" "S r \<Longrightarrow> proposed p now r = Inr r' \<Longrightarrow> Q r'"
      "S r \<Longrightarrow> rejected now r = Inr r' \<Longrightarrow> Q r'" "S r \<Longrightarrow> revising now r = Inr r' \<Longrightarrow> Q r'"
      "S r \<Longrightarrow> approved now r = Inr r' \<Longrightarrow> Q r'" "S r \<Longrightarrow> generating now r = Inr r' \<Longrightarrow> Q r'"
      "S r \<Longrightarrow> run_rounds r < MAX_ROUNDS \<Longrightarrow> asked summary questionnaire now r = Inr r' \<Longrightarrow> Q r'"
      "S r \<Longrightarrow> S (answering answers now r)"
    and ends: "Q r \<Longrightarrow> delivered a now r = Inr r' \<Longrightarrow> Q r'" "Q r \<Longrightarrow> failed message now r = Inr r' \<Longrightarrow> Q r'"
      "Q r \<Longrightarrow> Q (billed n now r)"
begin

lemma inv_part:
  "keeps P (on_client m)" "keeps P (on_log m')" "keeps P (on_world m'')" "keeps P monotonic_now" "keeps P (yield_chunk chunk)"
  by (auto intro!: keepsI part_kept simp: on_client_def on_log_def on_world_def zoom_def monotonic_now_def yield_chunk_def
      modify_gw_def split: prod.splits)

lemma inv_new_id: "yields P new_run_id T"
  by (auto simp: yields_def new_run_id_def intro: part_kept drawn)

lemma inv_get: "keeps P (get k)"
  by (rule yields_keeps [OF read_run])

lemma inv_move: "(\<And>now r'. f now r = Inr r' \<Longrightarrow> R r') \<Longrightarrow> yields P (move f r) R"
  unfolding move_def by (intro yields_bind [OF keeps_yields [OF inv_part(4)]] yields_lift) blast

lemma inv_read_moves:
  "S r \<Longrightarrow> yields P (move describing r) Q" "S r \<Longrightarrow> yields P (move (proposed p) r) Q" "S r \<Longrightarrow> yields P (move rejected r) Q"
  "S r \<Longrightarrow> yields P (move revising r) Q" "S r \<Longrightarrow> yields P (move approved r) Q" "S r \<Longrightarrow> yields P (move generating r) Q"
  "S r \<Longrightarrow> run_rounds r < MAX_ROUNDS \<Longrightarrow> yields P (move (asked summary questionnaire) r) Q"
  by (rule inv_move, erule (1) moves_on moves_on(7), assumption?)+

lemma inv_end_moves:
  "Q r \<Longrightarrow> yields P (move (delivered a) r) Q" "Q r \<Longrightarrow> yields P (move (failed message) r) Q"
  by (rule inv_move, erule (1) ends)+

lemma inv_ask_pm: "keeps P (ask_pm orc operation payload)"
  unfolding ask_pm_def by (intro keeps_bind inv_part keeps_lift)

lemma inv_plan_turn:
  assumes "S r"
  shows "yields P (plan_turn orc r) Q"
proof -
  have "yields P (move (asked summary questionnaire) r) Q" if "\<not> rounds_left r \<le> 0" for summary questionnaire
    using inv_read_moves(7) [OF assms] that by (simp add: rounds_left_def)
  then show ?thesis
    unfolding plan_turn_def
    by (intro yields_bind [OF keeps_yields [OF inv_ask_pm]] yields_if yields_raise inv_read_moves(2) [OF assms]) auto
qed

lemma inv_start: "keeps P (start orc idea account)"
proof -
  let ?fresh = "\<lambda>r. Q r \<and> (\<exists>i a t c u. run_start i a t c u = Inr r)" and ?described = "\<lambda>r. Q r \<and> run_rounds r < MAX_ROUNDS"
  have described: "yields P (move describing r) ?described" if "?fresh r" for r
  proof (rule inv_move)
    fix now r'
    assume d: "describing now r = Inr r'"
    have "run_rounds r' = 0" using that d by (auto simp: run_start_def describing_def moved_cases Let_def split: if_splits)
    with that d moves_on(1) written_readable show "?described r'" by (auto simp: MAX_ROUNDS_def)
  qed
  have created: "yields P (lift_gw (run_start i a t c u)) ?fresh" if "T t" for i a t c u
    by (rule yields_lift) (use that started in blast)
  have questioned: "yields P (if b then move (asked sm q) r else bind_gw (move (asked sm' q') r) (plan_turn orc)) Q"
    if "?described r" for b sm q sm' q' r
    using that written_readable by (intro yields_if yields_bind [OF inv_read_moves(7) inv_plan_turn] inv_read_moves(7)) auto
  show ?thesis
    unfolding start_def Let_def
    by (intro keeps_then keeps_option keeps_if inv_part keeps_return keeps_bind_yields [OF inv_new_id]
          keeps_bind [OF inv_part(4)] keeps_bind_yields [OF created] keeps_bind_yields [OF described] keeps_bind [OF inv_ask_pm]
          keeps_bind_yields [OF questioned] write_run)
qed

lemma inv_answer: "keeps P (answer_questions orc k answers)"
  unfolding answer_questions_def
  by (intro keeps_bind_yields [OF read_run]
        keeps_bind_yields [OF yields_bind [OF keeps_yields [OF inv_part(4)] yields_return [where Q = S]]]
        keeps_bind_yields [OF inv_plan_turn] write_run moves_on(8))

lemma inv_reject: "keeps P (reject orc k feedback)"
  unfolding reject_def Let_def
  by (intro keeps_if keeps_raise keeps_bind_yields [OF read_run] keeps_bind_yields [OF inv_read_moves(3)]
        keeps_bind_yields [OF inv_read_moves(4)] keeps_bind_yields [OF inv_read_moves(2)] keeps_bind [OF inv_ask_pm]
        write_run) (auto intro: written_readable)

lemma inv_approve: "keeps P (approve k)"
  unfolding approve_def by (intro keeps_bind_yields [OF read_run] keeps_bind_yields [OF inv_read_moves(5)] write_run)

lemma inv_pump: "keeps P (pump cod k consumer ending n chunks scan)"
proof (induction cod k consumer ending n chunks scan rule: pump.induct)
  case 1
  then show ?case by (auto intro!: keeps_option keeps_return keeps_raise)
next
  case (2 cod k consumer ending n c cs scan)
  then show ?case
    by (auto simp: resumed_def intro!: keeps_then inv_part keeps_option keeps_return keeps_raise keeps_bind keeps_lift)
qed

lemma inv_fail_run: "Q r \<Longrightarrow> keeps P (fail_run r message)"
  unfolding fail_run_def by (intro keeps_bind_yields [OF inv_end_moves(2)] write_run)

lemma inv_generation_failed: "Q r \<Longrightarrow> keeps P (generation_failed r e)"
  unfolding generation_failed_def by (intro keeps_if keeps_then inv_fail_run keeps_raise)

lemma inv_charge_run: "Q r \<Longrightarrow> yields P (charge_run orc r u) Q"
proof -
  assume r: "Q r"
  have paid: "keeps P (catch_gw (on_world (charge b a k u)) (\<lambda>e. if is_exception e then return_gw None else raise_gw e))" for b a k
    by (intro keeps_catch inv_part keeps_if keeps_return keeps_raise)
  show ?thesis
    unfolding charge_run_def
    by (intro yields_option yields_if yields_return yields_bind [OF keeps_yields [OF paid]] yields_bind [OF keeps_yields [OF inv_part(4)]]
        r ends(3))
qed

lemma inv_conclude: "Q r \<Longrightarrow> keeps P (conclude orc r scan)"
  unfolding conclude_def
  by (intro keeps_if keeps_then inv_fail_run keeps_return keeps_bind_yields [OF inv_end_moves(1)]
        keeps_bind_yields [OF inv_charge_run] write_run)

lemma inv_follow_stream: "Q r \<Longrightarrow> keeps P (follow_stream orc consumer r stream)"
  unfolding follow_stream_def
  by (auto split: prod.splits intro!: keeps_finally keeps_catch inv_pump inv_generation_failed keeps_then inv_part)

lemma inv_generate: "keeps P (generate orc consumer k)"
  unfolding generate_def
  by (intro keeps_bind_yields [OF read_run] keeps_bind_yields [OF inv_read_moves(6)] keeps_then write_run
        keeps_bind [OF inv_part(1)] inv_part keeps_bind [OF inv_follow_stream] inv_conclude)

lemma inv_open_stream: "keeps P (open_stream orc q)"
  unfolding open_stream_def Let_def
  by (intro keeps_bind inv_part keeps_if keeps_return keeps_finally keeps_lift keeps_raise)

lemma inv_project: "keeps P (open_console orc k command)" "keeps P (open_download orc k)"
  unfolding open_console_def open_download_def artifact_of_def
  by (intro keeps_if keeps_raise keeps_bind inv_get keeps_return inv_open_stream)+

lemmas inv_operations = inv_start inv_answer inv_reject inv_approve inv_generate inv_get inv_project

lemma inv_call: "orchestrator_call orc s s' \<Longrightarrow> P s \<Longrightarrow> P s'"
  by (induction rule: orchestrator_call.induct) (rule keepsD, rule inv_operations, assumption)+

text \<open>Along every sequence of calls, of any orchestrators over the same gateway.\<close>

lemma inv_calls: "(\<lambda>a b. \<exists>orc. orchestrator_call orc a b)\<^sup>*\<^sup>* s s' \<Longrightarrow> P s \<Longrightarrow> P s'"
  by (induction rule: rtranclp_induct) (auto intro: inv_call)

end

section \<open>A run that was abandoned\<close>

text \<open>No run id still to be drawn is the id of the run.\<close>

definition never_drawn :: "string \<Rightarrow> system \<Rightarrow> bool" where
  "never_drawn k s \<longleftrightarrow> (\<forall>n\<ge>sy_tick s. sy_token s n \<noteq> k)"

definition left_generating :: "run \<Rightarrow> system \<Rightarrow> bool" where
  "left_generating g s \<longleftrightarrow> run_st g = BACKEND_GENERATION \<and> never_drawn (run_id g) s \<and> store_ready (sy_runs s)
     \<and> stored s (run_id g) \<in> {None, Some g}"

lemma run_ops_advance:
  "sy_token (snd (on_runs f s)) = sy_token s" "sy_tick (snd (on_runs f s)) = sy_tick s + 1"
  by (simp_all add: on_runs_def zoom_def split: prod.splits)

lemma never_drawn_later: "never_drawn k s \<Longrightarrow> never_drawn k (snd (on_runs f s))"
  by (simp add: never_drawn_def run_ops_advance)

interpretation drawing: orchestrator_invariant "never_drawn k" "\<lambda>_. True" "\<lambda>_. True" "\<lambda>_. True" for k
  by unfold_locales (auto simp: yields_def keeps_def put_def get_def never_drawn_later, auto simp: never_drawn_def)

lemma other_put_keeps:
  assumes "store_ready st" "map_of (rs_runs st) k \<in> {None, Some g}" "run_id r \<noteq> k"
  shows "map_of (rs_runs (snd (run_store_put r now st))) k \<in> {None, Some g}"
proof (cases "map_of (rs_runs (snd (run_store_put r now st))) k")
  case (Some r')
  let ?d = "dict_pop (run_id r) (rs_runs (sweep now st)) @ [(run_id r, r)]"
  have "(k, r') \<in> set (keep_last (nat (rs_max st)) ?d)"
    using map_of_SomeD [OF Some] assms(1) by (simp add: put_runs store_ready_def)
  then have "(k, r') \<in> set (rs_runs (sweep now st))"
    using assms(3) by (auto simp: keep_last_def dict_pop_def dest!: in_set_dropD)
  moreover have "dict_ok (rs_runs (sweep now st))"
    using assms(1) sweep_ok [of st now] by (simp add: store_ready_def run_store_ok_def)
  ultimately have "map_of (rs_runs (sweep now st)) k = Some r'" by (simp add: dict_ok_def dict_keys_def)
  with swept_lookup [OF assms(1)] assms(2) Some show ?thesis by fastforce
qed simp

lemma left_generating_get: "yields (left_generating g) (get k) (\<lambda>r. run_id r = run_id g \<longrightarrow> run_st r = BACKEND_GENERATION)"
  unfolding yields_def
proof (intro allI impI)
  fix s
  assume s: "left_generating g s"
  let ?st = "sweep (sy_mono s (sy_tick s)) (sy_runs s)"
  have ready: "store_ready (sy_runs s)" "store_ready ?st"
    using s sweep_ok [of "sy_runs s"] by (auto simp: left_generating_def store_ready_def)
  have still: "map_of (rs_runs ?st) (run_id g) \<in> {None, Some g}"
    using s swept_lookup [OF ready(1)] by (cases "map_of (rs_runs ?st) (run_id g)") (fastforce simp: left_generating_def stored_def)+
  have got: "snd (get k s) = s\<lparr>sy_runs := ?st, sy_tick := sy_tick s + 1\<rparr>"
    by (simp add: get_def on_runs_def zoom_def run_store_get_def Let_def split: option.splits)
  have "run_st r = BACKEND_GENERATION" if "fst (get k s) = Inr r" "run_id r = run_id g" for r
  proof -
    have "map_of (rs_runs ?st) k = Some r"
      using that(1) by (simp add: get_def on_runs_def zoom_def run_store_get_def Let_def split: option.splits)
    moreover from this have "run_id r = k"
      using ready(2) map_of_SomeD [of "rs_runs ?st" k r] by (auto simp: store_ready_def run_store_ok_def list_all_iff)
    ultimately have "r = g" using still that(2) by auto
    with s show ?thesis by (simp add: left_generating_def)
  qed
  with s still ready(2) show "left_generating g (snd (get k s))
      \<and> (\<forall>r. fst (get k s) = Inr r \<longrightarrow> run_id r = run_id g \<longrightarrow> run_st r = BACKEND_GENERATION)"
    by (auto simp: left_generating_def got stored_def never_drawn_def)
qed

lemma left_generating_put: "run_id r \<noteq> run_id g \<Longrightarrow> keeps (left_generating g) (put r)"
proof (rule keepsI)
  fix s
  assume r: "run_id r \<noteq> run_id g" and s: "left_generating g s"
  then have "store_ready (sy_runs s)" "map_of (rs_runs (sy_runs s)) (run_id g) \<in> {None, Some g}"
    by (simp_all add: left_generating_def stored_def)
  with r put_lookup other_put_keeps
  have "store_ready (snd (run_store_put r now (sy_runs s)))"
    "map_of (rs_runs (snd (run_store_put r now (sy_runs s)))) (run_id g) \<in> {None, Some g}" for now by blast+
  then show "left_generating g (snd (put r s))"
    using s never_drawn_later [of "run_id g" s "run_store_put r"]
    by (simp add: left_generating_def put_def stored_def on_runs_def zoom_def split_beta)
qed

interpretation abandoned: orchestrator_invariant "left_generating g"
  "\<lambda>r. run_id r = run_id g \<longrightarrow> run_st r = BACKEND_GENERATION" "\<lambda>r. run_id r \<noteq> run_id g" "\<lambda>token. token \<noteq> run_id g" for g
proof unfold_locales
  show "yields (left_generating g) (get k) (\<lambda>r. run_id r = run_id g \<longrightarrow> run_st r = BACKEND_GENERATION)" for k
    by (rule left_generating_get)
  show "run_id r \<noteq> run_id g \<Longrightarrow> keeps (left_generating g) (put r)" for r by (rule left_generating_put)
qed (auto simp: left_generating_def never_drawn_def stored_def move_defs moved_cases may_def answering_def billed_def run_start_def Let_def
    split: if_splits)

text \<open>C37. Three ways a run is left generating for ever: the stream cannot be opened; the generator is closed while it
  is suspended at a \<^verbatim>\<open>yield\<close>; the stream is heard to its end and closing it raises. The run stays stored as being
  generated, with no error. And so it stays: after any further calls of the orchestrator, with any answers of the
  agents, the store holds that very run, still being generated, or has let it expire, and a request to generate it
  is refused, as an illegal move or as an unknown run. The ids of runs started later are taken to differ from its own.\<close>

theorem abandoned_generation_stays_open:
  assumes "approved_in s r"
    and "proxied (or_registry orc) (or_stream orc) (or_backend_service orc) (generation_request orc r) None (sy_client s) = (opened, c1)"
    and "case opened of
           Inl e \<Rightarrow> failure = e
         | Inr stream \<Rightarrow> or_arrives orc stream = (chunks, ending) \<and>
             (case heard (or_codecs orc) consumer ending 0 chunks new_scan of
                Inl e \<Rightarrow> e = GeneratorExit \<and> failure = (case fst (aclose stream c1) of Inl e' \<Rightarrow> e' | Inr _ \<Rightarrow> GeneratorExit)
              | Inr _ \<Rightarrow> fst (aclose stream c1) = Inl failure)"
    and "generate orc consumer (run_id r) s = (result, s1)"
    and "(\<lambda>a b. \<exists>orc. orchestrator_call orc a b)\<^sup>*\<^sup>* s1 s2" "never_drawn (run_id r) s"
  shows "result = Inl failure
     \<and> (\<exists>g. stored s1 (run_id r) = Some g \<and> run_st g = BACKEND_GENERATION \<and> run_error g = run_error r
          \<and> stored s2 (run_id r) \<in> {None, Some g})
     \<and> fst (generate orc' consumer' (run_id r) s2) \<in>
         {Inl (IllegalTransitionError BACKEND_GENERATION GENERATE), Inl (RunNotFoundError (run_id r))}"
proof -
  let ?g = "generating_run (sy_mono s (sy_tick s + 1)) r"
  have g: "run_id ?g = run_id r" "run_st ?g = BACKEND_GENERATION" "run_error ?g = run_error r" by (simp_all add: generating_run_def)
  have left: "result = Inl failure \<and> stored s1 (run_id r) = Some ?g \<and> store_ready (sy_runs s1)"
  proof (cases opened)
    case (Inl e)
    with generate_begins [OF assms(1), of orc consumer] assms(2-4) show ?thesis
      by (auto simp: bind_gw_def on_client_def zoom_def stored_def)
  next
    case (Inr stream)
    obtain closed c2 where cl: "aclose stream c1 = (closed, c2)" by fastforce
    from Inr assms(2,3) have op: "proxied (or_registry orc) (or_stream orc) (or_backend_service orc) (generation_request orc r) None (sy_client s) = (Inr stream, c1)"
      "or_arrives orc stream = (chunks, ending)" by auto
    from generate_streams [OF assms(1) op refl cl, of consumer] Inr assms(3,4) cl show ?thesis
      by (cases "heard (or_codecs orc) consumer ending 0 chunks new_scan"; cases closed) (auto simp: Let_def stored_def)
  qed
  have "never_drawn (run_id r) s1"
    using drawing.inv_call [OF orchestrator_call.intros(5) assms(6), of orc consumer "run_id r"] assms(4) by simp
  with left g have "left_generating ?g s1" by (simp add: left_generating_def)
  from abandoned.inv_calls [OF assms(5) this] have after: "left_generating ?g s2" .
  then have "fst (generate orc' consumer' (run_id r) s2) \<in>
      {Inl (IllegalTransitionError BACKEND_GENERATION GENERATE), Inl (RunNotFoundError (run_id r))}"
    using g by (intro generate_refused [where g = ?g]) (simp_all add: left_generating_def)
  moreover have "stored s2 (run_id r) \<in> {None, Some ?g}" using after g(1) by (simp add: left_generating_def)
  ultimately show ?thesis using left g by (intro conjI exI [of _ ?g]) simp_all
qed

section \<open>The round cap\<close>

definition capped :: "run \<Rightarrow> bool" where
  "capped r \<longleftrightarrow> run_rounds r \<le> MAX_ROUNDS"

definition all_capped :: "system \<Rightarrow> bool" where
  "all_capped s \<longleftrightarrow> list_all (\<lambda>p. capped (snd p)) (rs_runs (sy_runs s))"

lemma capped_sweep: "list_all P (rs_runs st) \<Longrightarrow> list_all P (rs_runs (sweep now st))"
  unfolding sweep_def Let_def fold_dict_pop by (auto simp: list_all_iff)

lemma capped_evict: "list_all P d \<Longrightarrow> list_all P (snd (evict bound d))"
  by (induction bound d rule: evict.induct) auto

lemma capped_put: "capped r \<Longrightarrow> keeps all_capped (put r)"
proof (rule keepsI)
  fix s
  assume r: "capped r" and ok: "all_capped s"
  let ?P = "\<lambda>p. capped (snd p)" and ?st = "sweep (sy_mono s (sy_tick s)) (sy_runs s)"
  let ?runs = "dict_pop (run_id r) (dict_set (run_id r) r (rs_runs ?st)) @ [(run_id r, r)]"
  have "list_all ?P (dict_set (run_id r) r (rs_runs ?st))"
    using ok r by (intro list_all_dict_set capped_sweep) (simp_all add: all_capped_def)
  then have "list_all ?P ?runs" using r by (auto simp: dict_pop_def list_all_iff)
  then have "list_all ?P (snd (evict (rs_max ?st) ?runs))" by (rule capped_evict)
  moreover have "rs_runs (sy_runs (snd (put r s))) = snd (evict (rs_max ?st) ?runs)"
    by (simp add: put_def on_runs_def zoom_def run_store_put_def Let_def split: prod.splits sum.splits)
  ultimately show "all_capped (snd (put r s))" by (simp add: all_capped_def)
qed

lemma capped_get: "yields all_capped (get k) capped"
  unfolding yields_def
proof (intro allI impI)
  fix s
  assume ok: "all_capped s"
  let ?st = "sweep (sy_mono s (sy_tick s)) (sy_runs s)"
  have "list_all (\<lambda>p. capped (snd p)) (rs_runs ?st)" using ok by (simp add: all_capped_def capped_sweep)
  moreover have "rs_runs (sy_runs (snd (get k s))) = rs_runs ?st"
    by (simp add: get_def on_runs_def zoom_def run_store_get_def Let_def split: option.splits)
  moreover have "fst (get k s) = Inr r \<Longrightarrow> map_of (rs_runs ?st) k = Some r" for r
    by (simp add: get_def on_runs_def zoom_def run_store_get_def Let_def split: option.splits)
  ultimately show "all_capped (snd (get k s)) \<and> (\<forall>r. fst (get k s) = Inr r \<longrightarrow> capped r)"
    by (fastforce simp: all_capped_def list_all_iff dest: map_of_SomeD)
qed

interpretation rounds: orchestrator_invariant all_capped capped capped "\<lambda>_. True"
proof unfold_locales
  show "yields all_capped (get k) capped" for k by (rule capped_get)
  show "capped r \<Longrightarrow> keeps all_capped (put r)" for r by (rule capped_put)
qed (auto simp: all_capped_def capped_def move_defs moved_cases answering_def billed_def run_start_def Let_def MAX_ROUNDS_def
    split: if_splits)

text \<open>C10. The round cap is enforced. Along every sequence of calls, with every answer the agents give, no stored run
  has served more than the two questionnaires a run may have.\<close>

theorem round_cap_is_enforced:
  assumes "(orchestrator_call orc)\<^sup>*\<^sup>* s s'" "rs_runs (sy_runs s) = []"
  shows "\<forall>(k, r) \<in> set (rs_runs (sy_runs s')). run_rounds r \<le> MAX_ROUNDS"
proof -
  from assms(1) have "all_capped s \<Longrightarrow> all_capped s'"
    by (induction rule: rtranclp_induct) (auto intro: rounds.inv_call)
  with assms(2) show ?thesis by (auto simp: all_capped_def capped_def list_all_iff)
qed

section \<open>Examples\<close>

definition sample_stream :: upstream_outcome where
  "sample_stream = \<lparr>uo_status = 200, uo_headers = [], uo_body = [], uo_connection = Some 0, uo_instance_id = None\<rparr>"

definition sample_questionnaire :: string where
  "sample_questionnaire = (let q = [dquote]
     in ''{'' @ q @ ''questionnaire'' @ q @ '':{'' @ q @ ''questions'' @ q @ '':[{'' @ q @ ''text'' @ q @ '':'' @ q @ ''who?'' @ q @ ''}]}}'')"

definition sample_orchestrator :: orchestrator where
  "sample_orchestrator = \<lparr>or_registry = sample_registry,
     or_send = \<lambda>_ c. (Inr (sample_stream\<lparr>uo_body := sample_questionnaire, uo_connection := None\<rparr>), c), or_stream = \<lambda>_ c. (Inr sample_stream, c),
     or_arrives = \<lambda>_. ([done_line @ [newline]], None), or_pm_service = ''mirag'', or_backend_service = ''mirag'', or_pm_token = [],
     or_backend_token = ''t'', or_locale = ''es'', or_console = False, or_meter = None, or_codecs = scan_codecs\<rparr>"

definition approved_run :: run where
  "approved_run = sample_run\<lparr>run_st := PLAN_APPROVED, run_plan := Some (JObj [])\<rparr>"

definition sample_system :: system where
  "sample_system = \<lparr>sy_client = quiet_wire,
     sy_runs = \<lparr>rs_runs = [(''ab'', approved_run)], rs_ttl = RUN_TTL_SECONDS, rs_max = MAX_RUNS\<rparr>, sy_log = new_run_log MAX_BYTES MAX_LOGS,
     sy_world = sample_world, sy_mono = \<lambda>_. 2, sy_token = show_nat, sy_tick = 0, sy_out = []\<rparr>"

lemma sample_approved: "approved_in sample_system approved_run"
proof -
  have "log_ready (new_run_log MAX_BYTES MAX_LOGS)"
    using new_run_log_ok [of MAX_LOGS MAX_BYTES] by (simp add: log_ready_def MAX_LOGS_def) (simp add: new_run_log_def)
  then show ?thesis
    by (simp add: approved_in_def sample_system_def approved_run_def sample_run_def store_ready_def run_store_ok_def
        MAX_RUNS_def RUN_TTL_SECONDS_def dict_ok_def dict_keys_def sweep_def)
qed

lemma sample_opened:
  "\<exists>u. proxied (or_registry sample_orchestrator) (or_stream sample_orchestrator) (or_backend_service sample_orchestrator) q None c = (Inr u, c)
     \<and> aclose u c = aclose sample_stream c"
proof -
  obtain r where "outbound sample_registry ''mirag'' q None = Inr r"
    by (simp add: outbound_def sample_registry_def registry_get_def)
  then show ?thesis
    by (auto simp: proxied_def sample_orchestrator_def bind_gw_def lift_gw_def return_gw_def aclose_def sample_stream_def)
qed

lemma sample_heard:
  "heard scan_codecs (\<lambda>_. None) None 0 [done_line @ [newline]] new_scan = Inr (new_scan\<lparr>ss_artifact := ''a1''\<rparr>)"
  "heard scan_codecs (\<lambda>_. Some GeneratorExit) None 0 [done_line @ [newline]] new_scan = Inl GeneratorExit"
  by code_simp+

lemma sample_closed:
  "\<exists>u c2. proxied (or_registry sample_orchestrator) (or_stream sample_orchestrator) (or_backend_service sample_orchestrator) q None quiet_wire
       = (Inr u, quiet_wire) \<and> aclose u quiet_wire = (Inr (), c2)"
proof -
  obtain u where "proxied (or_registry sample_orchestrator) (or_stream sample_orchestrator) (or_backend_service sample_orchestrator) q None quiet_wire
       = (Inr u, quiet_wire)" "aclose u quiet_wire = aclose sample_stream quiet_wire"
    using sample_opened by blast
  then show ?thesis by (simp add: aclose_def sample_stream_def close_connection_def quiet_wire_def)
qed

lemma sample_fields:
  "run_id approved_run = ''ab''" "sy_out sample_system = []" "or_codecs sample_orchestrator = scan_codecs"
  "or_arrives sample_orchestrator u = ([done_line @ [newline]], None)" "sy_client sample_system = quiet_wire"
  by (simp_all add: approved_run_def sample_run_def sample_system_def sample_orchestrator_def)

lemma sample_letter: "\<not> is_digit (CHR ''a'')"
  by code_simp

theorem generation_settles_the_run_witness:
  "\<exists>s' final. generate sample_orchestrator (\<lambda>_. None) ''ab'' sample_system = (Inr (), s') \<and> stored s' ''ab'' = Some final
     \<and> run_st final = ZIP_READY \<and> run_artifact_id final = ''a1'' \<and> sy_out s' = [done_line @ [newline]] \<and> log_ended ''ab'' (sy_log s')"
proof -
  obtain u c2 where o: "proxied (or_registry sample_orchestrator) (or_stream sample_orchestrator) (or_backend_service sample_orchestrator)
      (generation_request sample_orchestrator approved_run) None (sy_client sample_system) = (Inr u, quiet_wire)"
    "aclose u quiet_wire = (Inr (), c2)"
    unfolding sample_fields(5) using sample_closed by blast
  from generation_settles_the_run [OF sample_approved o(1) sample_fields(4) _ o(2), of "\<lambda>_. None", unfolded sample_fields(3) sample_heard(1), OF refl]
    sample_fields(1,2)
  show ?thesis by auto
qed

theorem abandoned_generation_stays_open_witness:
  "\<exists>s1 g. generate sample_orchestrator (\<lambda>_. Some GeneratorExit) ''ab'' sample_system = (Inl GeneratorExit, s1)
     \<and> stored s1 ''ab'' = Some g \<and> run_st g = BACKEND_GENERATION
     \<and> stored (snd (approve ''ab'' s1)) ''ab'' \<in> {None, Some g}
     \<and> fst (generate sample_orchestrator (\<lambda>_. None) ''ab'' (snd (approve ''ab'' s1))) \<in>
         {Inl (IllegalTransitionError BACKEND_GENERATION GENERATE), Inl (RunNotFoundError ''ab'')}"
proof -
  obtain u c2 where o: "proxied (or_registry sample_orchestrator) (or_stream sample_orchestrator) (or_backend_service sample_orchestrator)
      (generation_request sample_orchestrator approved_run) None (sy_client sample_system) = (Inr u, quiet_wire)"
    "aclose u quiet_wire = (Inr (), c2)"
    unfolding sample_fields(5) using sample_closed by blast
  obtain res s1 where g: "generate sample_orchestrator (\<lambda>_. Some GeneratorExit) ''ab'' sample_system = (res, s1)" by fastforce
  have "list_all is_digit (sy_token sample_system n)" for n by (simp add: sample_system_def show_nat_are_digits)
  then have fresh: "never_drawn (run_id approved_run) sample_system"
    unfolding never_drawn_def sample_fields(1) by (metis list.pred_inject(2) sample_letter)
  have later: "(\<lambda>a b. \<exists>orc. orchestrator_call orc a b)\<^sup>*\<^sup>* s1 (snd (approve ''ab'' s1))"
    by (rule r_into_rtranclp) (blast intro: orchestrator_call.intros)
  from abandoned_generation_stays_open [OF sample_approved o(1) _ _ later fresh, of GeneratorExit "[done_line @ [newline]]" None
      "\<lambda>_. Some GeneratorExit" res sample_orchestrator "\<lambda>_. None"] g o(2)
  show ?thesis by (auto simp: sample_fields sample_heard(2))
qed

theorem round_cap_is_enforced_witness:
  "list_all (\<lambda>(k, r). run_rounds r \<le> MAX_ROUNDS)
     (rs_runs (sy_runs (snd (start sample_orchestrator ''shop'' [] (sample_system\<lparr>sy_runs := sample_store\<lparr>rs_runs := []\<rparr>\<rparr>)))))"
  unfolding list_all_iff
  by (rule round_cap_is_enforced [of sample_orchestrator, OF r_into_rtranclp]) (rule orchestrator_call.intros, simp)

end
