(* ===== verification/Proxy_Api.thy ===== *)
theory Proxy_Api
  imports Proxy_Service Api_Errors
begin

text \<open>
  The HTTP edge of the proxy: \<^verbatim>\<open>api/middleware.py\<close>, \<^verbatim>\<open>api/adapters.py\<close> and \<^verbatim>\<open>api/routes/proxy.py\<close>.

  The header collections are Starlette's, so they are an argument (\<open>header_ops\<close>): reading the first value of a
  name, setting a name and appending to it. What is relied on is what Starlette documents (\<open>header_laws\<close>): setting
  leaves one value under the name and touches no other name, appending adds a value and touches no other
  name, in any case of the letters. The headers a fresh response has are an argument too.

  An application is what it sends and how it ends; the middleware stands between it and the server. The body of a
  response is a generator: what its consumer does at a \<^verbatim>\<open>yield\<close> is an argument (it asks for the next chunk, or
  throws).
\<close>

section \<open>Headers and requests\<close>

record header_ops =
  hd_get :: "string \<Rightarrow> headers \<Rightarrow> string option"
  hd_set :: "string \<Rightarrow> string \<Rightarrow> headers \<Rightarrow> headers"
  hd_append :: "string \<Rightarrow> string \<Rightarrow> headers \<Rightarrow> headers"
  hd_initial :: headers

definition header_laws :: "header_ops \<Rightarrow> bool" where
  "header_laws ops \<longleftrightarrow>
     (\<forall>n k v hs. values_of n (hd_set ops k v hs) = (if lower n = lower k then [v] else values_of n hs))
   \<and> (\<forall>n k v hs. values_of n (hd_append ops k v hs) = values_of n hs @ (if lower n = lower k then [v] else []))
   \<and> (\<forall>n hs. hd_get ops n hs = (case values_of n hs of [] \<Rightarrow> None | v # _ \<Rightarrow> Some v))"

record http_request =
  rq_http :: bool
  rq_method :: string
  rq_scheme :: string
  rq_path :: string
  rq_headers :: headers
  rq_query :: headers
  rq_body :: "exn + string"
  rq_client :: "string option"
  rq_request_id :: "string option"

section \<open>The middleware\<close>

definition REQUEST_ID_HEADER :: string where
  "REQUEST_ID_HEADER = ''x-request-id''"

text \<open>\<^verbatim>\<open>_VALID_REQUEST_ID.fullmatch\<close>.\<close>

definition valid_request_id :: "string \<Rightarrow> bool" where
  "valid_request_id s \<longleftrightarrow> 1 \<le> length s \<and> length s \<le> 128 \<and> list_all (\<lambda>c. is_alnum c \<or> c \<in> set ''._-'') s"

text \<open>\<open>hex\<close> is what \<^verbatim>\<open>uuid4().hex\<close> would give.\<close>

definition resolve_request_id :: "header_ops \<Rightarrow> string \<Rightarrow> http_request \<Rightarrow> string" where
  "resolve_request_id ops hex rq =
     (let incoming = (case hd_get ops REQUEST_ID_HEADER (rq_headers rq) of None \<Rightarrow> [] | Some v \<Rightarrow> v)
      in if valid_request_id incoming then incoming else hex)"

datatype asgi_message = ResponseStart int headers | ResponseBody string bool | OtherMessage string

text \<open>What \<^verbatim>\<open>send_with_context\<close> closes over, what it passed on and the lines it logged.\<close>

record context_state =
  cx_status :: int
  cx_finished :: bool
  cx_sent :: "asgi_message list"
  cx_logged :: "(string \<times> string \<times> int) list"

definition send_with_context :: "header_ops \<Rightarrow> string \<Rightarrow> http_request \<Rightarrow> asgi_message \<Rightarrow> context_state \<Rightarrow> context_state" where
  "send_with_context ops request_id rq message cx =
     (let (message1, cx1) =
            (case message of
               ResponseStart status hs \<Rightarrow>
                 (ResponseStart status (hd_set ops REQUEST_ID_HEADER request_id hs), cx\<lparr>cx_status := status\<rparr>)
             | ResponseBody b more_body \<Rightarrow> (message, if more_body then cx else cx\<lparr>cx_finished := True\<rparr>)
             | OtherMessage _ \<Rightarrow> (message, cx));
          cx2 = cx1\<lparr>cx_sent := cx_sent cx1 @ [message1]\<rparr>
      in if cx_finished cx2 then cx2\<lparr>cx_logged := cx_logged cx2 @ [(rq_method rq, rq_path rq, cx_status cx2)]\<rparr> else cx2)"

text \<open>An application: given the request and the id the log lines carry (\<^verbatim>\<open>request_id_var\<close>), what it sends and how it
  ends.\<close>

type_synonym asgi_app = "http_request \<Rightarrow> string option \<Rightarrow> asgi_message list \<times> exn option"

definition request_context ::
  "header_ops \<Rightarrow> string \<Rightarrow> asgi_app \<Rightarrow> http_request \<Rightarrow> string option \<Rightarrow> context_state \<times> exn option \<times> string option" where
  "request_context ops hex app rq request_id_var =
     (let fresh = \<lparr>cx_status = 0, cx_finished = False, cx_sent = [], cx_logged = []\<rparr>
      in if \<not> rq_http rq then (case app rq request_id_var of (messages, ending) \<Rightarrow> (fresh\<lparr>cx_sent := messages\<rparr>, ending, request_id_var))
         else
           let request_id = resolve_request_id ops hex rq
           in case app (rq\<lparr>rq_request_id := Some request_id\<rparr>) (Some request_id) of
                (messages, ending) \<Rightarrow> (fold (send_with_context ops request_id rq) messages fresh, ending, request_id_var))"

section \<open>The adapters\<close>

definition INSTANCE_HEADER :: string where
  "INSTANCE_HEADER = ''x-gateway-instance''"

definition to_inbound_request :: "header_ops \<Rightarrow> http_request \<Rightarrow> string \<Rightarrow> exn + inbound_request" where
  "to_inbound_request ops rq path =
     (case rq_body rq of
        Inl e \<Rightarrow> Inl e
      | Inr body \<Rightarrow>
          Inr \<lparr>in_method = rq_method rq, in_path = path, in_headers = rq_headers rq, in_query_params = rq_query rq,
               in_body = body, in_client_host = rq_client rq, in_scheme = rq_scheme rq,
               in_host = hd_get ops ''host'' (rq_headers rq), in_request_id = rq_request_id rq\<rparr>)"

definition copy_headers :: "header_ops \<Rightarrow> headers \<Rightarrow> headers \<Rightarrow> headers" where
  "copy_headers ops hs response = fold (\<lambda>(name, v). hd_append ops name v) hs response"

definition copy_instance_header :: "header_ops \<Rightarrow> string option \<Rightarrow> headers \<Rightarrow> headers" where
  "copy_instance_header ops instance_id response =
     (case instance_id of None \<Rightarrow> response | Some i \<Rightarrow> hd_set ops INSTANCE_HEADER i response)"

text \<open>The status, the headers and the upstream whose body is sent.\<close>

record http_reply =
  rp_status :: int
  rp_headers :: headers
  rp_upstream :: upstream_outcome

definition to_response :: "header_ops \<Rightarrow> upstream_outcome \<Rightarrow> http_reply" where
  "to_response ops upstream =
     \<lparr>rp_status = uo_status upstream,
      rp_headers = copy_instance_header ops (uo_instance_id upstream) (copy_headers ops (uo_headers upstream) (hd_initial ops)),
      rp_upstream = upstream\<rparr>"

definition to_streaming_response :: "header_ops \<Rightarrow> upstream_outcome \<Rightarrow> http_reply" where
  "to_streaming_response ops upstream =
     \<lparr>rp_status = uo_status upstream,
      rp_headers = copy_instance_header ops (uo_instance_id upstream)
        (copy_headers ops (uo_headers upstream) (hd_set ops ''x-accel-buffering'' ''no'' (hd_initial ops))),
      rp_upstream = upstream\<rparr>"

text \<open>The state of a relay: the clients, and the chunks handed to the server.\<close>

record relay_state = client_state +
  rl_out :: "string list"

definition emit :: "string \<Rightarrow> ('z relay_state_scheme, exn, unit) gw" where
  "emit c = modify_gw (\<lambda>s. s\<lparr>rl_out := rl_out s @ [c]\<rparr>)"

definition throws :: "exn option \<Rightarrow> ('s, exn, unit) gw" where
  "throws e = (case e of None \<Rightarrow> return_gw () | Some x \<Rightarrow> raise_gw x)"

fun relay_chunks :: "(nat \<Rightarrow> exn option) \<Rightarrow> exn option \<Rightarrow> nat \<Rightarrow> string list \<Rightarrow> ('z relay_state_scheme, exn, unit) gw" where
  "relay_chunks consumer ending n [] = throws ending"
| "relay_chunks consumer ending n (c # cs) =
     then_gw (emit c) (then_gw (throws (consumer n)) (relay_chunks consumer ending (n + 1) cs))"

definition relay :: "(nat \<Rightarrow> exn option) \<Rightarrow> string list \<times> exn option \<Rightarrow> upstream_outcome \<Rightarrow> ('z relay_state_scheme, exn, unit) gw" where
  "relay consumer arrives upstream =
     (case arrives of (chunks, ending) \<Rightarrow>
        finally_gw
          (catch_gw (relay_chunks consumer ending 0 chunks) (\<lambda>e. if is_upstream_error e then return_gw () else raise_gw e))
          (aclose upstream))"

section \<open>The routes\<close>

definition PROXIED_METHODS :: "string list" where
  "PROXIED_METHODS = [''GET'', ''POST'', ''PUT'', ''PATCH'', ''DELETE'', ''HEAD'', ''OPTIONS'']"

definition INSTANCE_SEPARATOR :: char where
  "INSTANCE_SEPARATOR = CHR ''@''"

definition forward_route ::
  "header_ops \<Rightarrow> registry \<Rightarrow> 's client \<Rightarrow> string \<Rightarrow> string \<Rightarrow> http_request \<Rightarrow> ('s client_state_scheme, exn, http_reply) gw" where
  "forward_route ops registry call service_name path rq =
     (case partition_at INSTANCE_SEPARATOR service_name of
        (name, pinned, instance_id) \<Rightarrow>
          bind_gw (lift_gw (to_inbound_request ops rq path)) (\<lambda>inbound.
          bind_gw (proxied registry call name inbound (if pinned then Some instance_id else None)) (\<lambda>upstream.
          return_gw (to_streaming_response ops upstream))))"

definition proxy_path ::
  "header_ops \<Rightarrow> registry \<Rightarrow> 's client \<Rightarrow> string \<Rightarrow> string \<Rightarrow> http_request \<Rightarrow> ('s client_state_scheme, exn, http_reply) gw" where
  "proxy_path ops registry call service_name path rq = forward_route ops registry call service_name path rq"

definition proxy_root ::
  "header_ops \<Rightarrow> registry \<Rightarrow> 's client \<Rightarrow> string \<Rightarrow> http_request \<Rightarrow> ('s client_state_scheme, exn, http_reply) gw" where
  "proxy_root ops registry call service_name rq = forward_route ops registry call service_name [] rq"

section \<open>What a response carries\<close>

lemma header_set: "header_laws ops \<Longrightarrow> values_of n (hd_set ops k v hs) = (if lower n = lower k then [v] else values_of n hs)"
  by (simp add: header_laws_def)

lemma header_append: "header_laws ops \<Longrightarrow> values_of n (hd_append ops k v hs) = values_of n hs @ (if lower n = lower k then [v] else [])"
  by (simp add: header_laws_def)

lemma copied_values: "header_laws ops \<Longrightarrow> values_of n (copy_headers ops hs response) = values_of n response @ values_of n hs"
  by (induction hs arbitrary: response) (auto simp: copy_headers_def header_append, auto simp: values_of_def)

lemma lower_names: "lower INSTANCE_HEADER = INSTANCE_HEADER" "lower ''x-accel-buffering'' = ''x-accel-buffering''"
  "lower REQUEST_ID_HEADER = REQUEST_ID_HEADER" "lower ''x-request-id'' = ''x-request-id''"
  by code_simp+

lemma streaming_values:
  assumes "header_laws ops"
  shows "values_of n (rp_headers (to_streaming_response ops u)) =
    (if lower n = INSTANCE_HEADER \<and> uo_instance_id u \<noteq> None then [the (uo_instance_id u)]
     else (if lower n = ''x-accel-buffering'' then [''no''] else values_of n (hd_initial ops)) @ values_of n (uo_headers u))"
  using assms
  by (auto simp: to_streaming_response_def copy_instance_header_def header_set copied_values lower_names split: option.splits)

lemma forward_route_shape:
  assumes "forward_route ops registry call service_name path rq s = (res, s')"
  obtains (body) e where "rq_body rq = Inl e" "res = Inl e" "s' = s"
    | (sent) inbound name pinned i up where "to_inbound_request ops rq path = Inr inbound"
        "partition_at INSTANCE_SEPARATOR service_name = (name, pinned, i)"
        "proxied registry call name inbound (if pinned then Some i else None) s = (up, s')"
        "res = map_sum id (to_streaming_response ops) up"
proof -
  obtain name pinned i where p: "partition_at INSTANCE_SEPARATOR service_name = (name, pinned, i)" by (cases "partition_at INSTANCE_SEPARATOR service_name") auto
  show ?thesis
  proof (cases "to_inbound_request ops rq path")
    case (Inl e)
    with assms p show ?thesis
      by (intro body [of e]) (auto simp: forward_route_def bind_gw_def lift_gw_def to_inbound_request_def split: sum.splits)
  next
    case (Inr inbound)
    obtain up s1 where up: "proxied registry call name inbound (if pinned then Some i else None) s = (up, s1)" by fastforce
    with assms p Inr have "s1 = s'" "res = map_sum id (to_streaming_response ops) up"
      by (auto simp: forward_route_def bind_gw_def lift_gw_def return_gw_def split: sum.splits)
    with up Inr p show ?thesis by (intro sent) auto
  qed
qed

section \<open>One id for a request\<close>

text \<open>A message as the server gets it.\<close>

definition stamp :: "header_ops \<Rightarrow> string \<Rightarrow> asgi_message \<Rightarrow> asgi_message" where
  "stamp ops request_id m =
     (case m of ResponseStart status hs \<Rightarrow> ResponseStart status (hd_set ops REQUEST_ID_HEADER request_id hs) | _ \<Rightarrow> m)"

lemma send_stamps: "cx_sent (send_with_context ops request_id rq m cx) = cx_sent cx @ [stamp ops request_id m]"
  by (cases m) (auto simp: send_with_context_def stamp_def Let_def)

lemma fold_stamps: "cx_sent (fold (send_with_context ops request_id rq) ms cx) = cx_sent cx @ map (stamp ops request_id) ms"
  by (induction ms arbitrary: cx) (simp_all add: send_stamps)

lemma stamped_start:
  assumes "header_laws ops" "ResponseStart status hs \<in> set (map (stamp ops request_id) ms)"
  shows "values_of REQUEST_ID_HEADER hs = [request_id]"
  using assms by (auto simp: stamp_def header_set split: asgi_message.splits)

lemma resolved_is_valid: "valid_request_id hex \<Longrightarrow> valid_request_id (resolve_request_id ops hex rq)"
  by (simp add: resolve_request_id_def Let_def)

lemma valid_id_given: "valid_request_id r \<Longrightarrow> given (Some r) = [r]"
  by (auto simp: valid_request_id_def given_def)

text \<open>C12. One id names a proxied request from end to end. Whatever the client sent, the id is short and of characters that
  are safe in a log; it is the one the application sees; every response that starts carries it once, replacing what
  the application put there; the variable of the log lines is what it was when the request is over; and on every
  call the route of the proxy makes for the request it is the only id, provided the configuration of the service does
  not set one of the forwarding headers itself. The calls the orchestrator makes to the agents are not among them: they are
  requests of its own, without an id.\<close>

theorem request_id_is_one_along_the_proxy:
  fixes s :: "'s client_state_scheme"
  assumes "header_laws ops" "valid_request_id hex" "rq_http rq"
    and "request_context ops hex app rq var = (cx, ending, var')"
    and "\<And>service. registry_get registry (fst (partition_at INSTANCE_SEPARATOR service_name)) = Inr service \<Longrightarrow>
      set (map (\<lambda>(name, _). lower name) (sd_headers service)) \<inter> set FORWARDING_HEADERS = {}"
    and "rid = resolve_request_id ops hex rq"
    and "forward_route ops registry (resilient_client factory codes p httpx_stream) service_name path (rq\<lparr>rq_request_id := Some rid\<rparr>) s = (res, s')"
  shows "valid_request_id rid \<and> var' = var
    \<and> (\<forall>status hs. ResponseStart status hs \<in> set (cx_sent cx) \<longrightarrow> values_of REQUEST_ID_HEADER hs = [rid])
    \<and> cx_sent cx = map (stamp ops rid) (fst (app (rq\<lparr>rq_request_id := Some rid\<rparr>) (Some rid)))
    \<and> (\<exists>evs. ws_log s' = ws_log s @ evs \<and> (\<forall>c reply. Sent c reply \<in> set evs \<longrightarrow> values_of ''x-request-id'' (hc_headers c) = [rid]))"
proof -
  have valid: "valid_request_id rid" using assms(2,6) resolved_is_valid by simp
  from assms(3,4,6) have cx: "cx_sent cx = map (stamp ops rid) (fst (app (rq\<lparr>rq_request_id := Some rid\<rparr>) (Some rid)))" and var: "var' = var"
    by (auto simp: request_context_def Let_def fold_stamps split: prod.splits)
  have "\<exists>evs. ws_log s' = ws_log s @ evs \<and> (\<forall>c reply. Sent c reply \<in> set evs \<longrightarrow> values_of ''x-request-id'' (hc_headers c) = [rid])"
    using assms(7)
  proof (cases rule: forward_route_shape)
    case body
    then show ?thesis by simp
  next
    case (sent inbound name pinned i up)
    then have rid: "in_request_id inbound = Some rid"
      by (auto simp: to_inbound_request_def split: sum.splits)
    obtain evs where evs: "ws_log s' = ws_log s @ evs"
      "\<forall>c reply. Sent c reply \<in> set evs \<longrightarrow> (\<exists>service. registry_get registry name = Inr service
          \<and> hc_headers c = for_upstream inbound (sd_headers service))"
      using proxied_request_on_the_wire [OF insertI2 [OF singletonI] sent(3)] by blast
    have "values_of ''x-request-id'' (hc_headers c) = [rid]" if "Sent c reply \<in> set evs" for c reply
    proof -
      obtain service where "registry_get registry name = Inr service" "hc_headers c = for_upstream inbound (sd_headers service)"
        using evs(2) \<open>Sent c reply \<in> set evs\<close> by blast
      with forwarding_headers_cannot_be_forged [OF assms(5), of service inbound] sent(2) rid valid_id_given [OF valid] show ?thesis by simp
    qed
    with evs(1) show ?thesis by blast
  qed
  with valid cx var stamped_start [OF assms(1)] show ?thesis by simp
qed

section \<open>From the request to the response\<close>

text \<open>C11. What the proxy does with a request, end to end. Every call it makes has the client's method, query and body
  and the headers of the policy; a name that is not registered puts nothing on the wire. A response is the last reply
  that came off the wire, from an instance of the service, the pinned one if the request pins one: it has the status
  of that reply, says once which instance answered, whatever the service claims, and has every other header of the
  reply that the policy lets through, with all its values, after those a fresh response has.\<close>

theorem proxy_route_end_to_end:
  fixes s :: "'s client_state_scheme"
  assumes "header_laws ops" "rq_body rq = Inr content"
    and "forward_route ops registry (resilient_client factory codes p httpx_stream) service_name path rq s = (res, s')"
    and "partition_at INSTANCE_SEPARATOR service_name = (name, pinned, instance_id)"
  shows "\<exists>evs inbound. ws_log s' = ws_log s @ evs
     \<and> to_inbound_request ops rq path = Inr inbound
     \<and> (\<forall>c reply. Sent c reply \<in> set evs \<longrightarrow> (\<exists>service. registry_get registry name = Inr service
          \<and> hc_headers c = for_upstream inbound (sd_headers service) \<and> hc_method c = rq_method rq
          \<and> hc_params c = rq_query rq \<and> hc_content c = content))
     \<and> (upper (rq_method rq) \<notin> set IDEMPOTENT_METHODS \<longrightarrow> deliveries evs \<le> 1)
     \<and> (\<forall>e. registry_get registry name = Inl e \<longrightarrow> evs = [] \<and> res = Inl e)
     \<and> (\<forall>reply. res = Inr reply \<longrightarrow> (\<exists>r pre c resp i. evs = pre @ [Sent c (Inr resp)]
          \<and> outbound registry name inbound (if pinned then Some instance_id else None) = Inr r
          \<and> i \<in> set (sd_instances (ob_service r)) \<and> (pinned \<longrightarrow> si_id i = instance_id) \<and> url (r\<lparr>ob_instance := Some i\<rparr>) = Inr (hc_url c)
          \<and> rp_status reply = hr_status resp
          \<and> values_of INSTANCE_HEADER (rp_headers reply) = [si_id i]
          \<and> (\<forall>n. lower n \<notin> {INSTANCE_HEADER, ''x-accel-buffering''} \<longrightarrow>
               values_of n (rp_headers reply) = values_of n (hd_initial ops) @ values_of n (for_client (hr_headers resp)))))"
  using assms(3)
proof (cases rule: forward_route_shape)
  case body
  with assms(2) show ?thesis by simp
next
  case (sent inbound name' pinned' i' up)
  let ?inst = "if pinned then Some instance_id else None"
  from sent(2) assms(4) have "name' = name" "pinned' = pinned" "i' = instance_id" by simp_all
  with sent(3) have up: "proxied registry (resilient_client factory codes p httpx_stream) name inbound ?inst s = (up, s')" by (simp only:)
  from sent(1) assms(2) have rq: "in_method inbound = rq_method rq" "in_query_params inbound = rq_query rq" "in_body inbound = content"
    by (auto simp: to_inbound_request_def)
  from proxied_request_on_the_wire [OF insertI2 [OF singletonI] up] obtain evs where evs: "ws_log s' = ws_log s @ evs"
     "\<forall>c reply. Sent c reply \<in> set evs \<longrightarrow> (\<exists>service. registry_get registry name = Inr service
          \<and> hc_headers c = for_upstream inbound (sd_headers service) \<and> hc_method c = rq_method rq
          \<and> hc_params c = rq_query rq \<and> hc_content c = content)"
     "upper (rq_method rq) \<notin> set IDEMPOTENT_METHODS \<longrightarrow> deliveries evs \<le> 1"
     "\<forall>e. registry_get registry name = Inl e \<longrightarrow> evs = [] \<and> up = Inl e"
     "\<forall>u. up = Inr u \<longrightarrow> (\<exists>i resp. relayed_from registry name inbound ?inst evs u i resp)"
    unfolding rq by blast
  have "\<exists>r pre c resp i. evs = pre @ [Sent c (Inr resp)] \<and> outbound registry name inbound ?inst = Inr r
      \<and> i \<in> set (sd_instances (ob_service r)) \<and> (pinned \<longrightarrow> si_id i = instance_id) \<and> url (r\<lparr>ob_instance := Some i\<rparr>) = Inr (hc_url c)
      \<and> rp_status reply = hr_status resp \<and> values_of INSTANCE_HEADER (rp_headers reply) = [si_id i]
      \<and> (\<forall>n. lower n \<notin> {INSTANCE_HEADER, ''x-accel-buffering''} \<longrightarrow>
           values_of n (rp_headers reply) = values_of n (hd_initial ops) @ values_of n (for_client (hr_headers resp)))"
    if "res = Inr reply" for reply
  proof -
    from that sent(4) obtain u where u: "up = Inr u" "reply = to_streaming_response ops u" by (cases up) auto
    with evs(5) obtain i resp where rel: "relayed_from registry name inbound ?inst evs u i resp" by blast
    then have heads: "uo_headers u = for_client (hr_headers resp)" "uo_instance_id u = Some (si_id i)" "rp_status reply = hr_status resp"
      using u(2) by (auto simp: relayed_from_def to_streaming_response_def)
    have "values_of INSTANCE_HEADER (rp_headers reply) = [si_id i]"
      using u(2) heads streaming_values [OF assms(1), of INSTANCE_HEADER u] by (simp add: lower_names)
    moreover have "\<forall>n. lower n \<notin> {INSTANCE_HEADER, ''x-accel-buffering''} \<longrightarrow>
        values_of n (rp_headers reply) = values_of n (hd_initial ops) @ values_of n (for_client (hr_headers resp))"
      using u(2) heads streaming_values [OF assms(1), of _ u] by simp
    moreover from rel obtain r c pre where "evs = pre @ [Sent c (Inr resp)]" "outbound registry name inbound ?inst = Inr r"
      "i \<in> set (sd_instances (ob_service r))" "pinned \<longrightarrow> si_id i = instance_id" "url (r\<lparr>ob_instance := Some i\<rparr>) = Inr (hc_url c)"
      by (auto simp: relayed_from_def split: if_splits)
    ultimately show ?thesis using heads(3) by blast
  qed
  with evs(1-4) sent(1,4) show ?thesis by (intro exI [of _ evs] exI [of _ inbound]) auto
qed

section \<open>When a request fails\<close>

lemma outbound_raises:
  assumes "outbound registry name inbound inst = Inl e"
  shows "(\<exists>service i. registry_get registry name = Inr service \<and> inst = Some i \<and> i \<notin> si_id ` set (sd_instances service)
            \<and> e = InstanceNotFoundError (sd_name service) i)
       \<or> (registry_get registry name = Inl e \<and> e = ServiceNotFoundError name)"
  using assms by (auto simp: outbound_def registry_get_def service_instance_named_def find_None_iff
      split: sum.splits option.splits)

lemma outbound_goes:
  assumes "outbound registry name inbound inst = Inr r"
  shows "\<exists>service. registry_get registry name = Inr service \<and> (\<forall>i. inst = Some i \<longrightarrow> i \<in> si_id ` set (sd_instances service))"
  using assms by (auto simp: outbound_def map_sum_def dest!: named_instance split: sum.splits option.splits)

text \<open>How a failure on the wire is told to the client of the gateway.\<close>

definition told :: "string option \<Rightarrow> http_failure \<Rightarrow> string \<Rightarrow> json_response option" where
  "told rid f message =
     (if f \<in> {ConnectTimeout, PoolTimeout, ReadTimeout, WriteTimeout} then Some (error_response rid 504 ''gateway_timeout'' message)
      else if f \<in> {ConnectError, OtherTransportError} then Some (error_response rid 502 ''bad_gateway'' message)
      else if f = Cancelled then None
      else Some (error_response rid 500 ''internal_error'' ''Internal server error''))"

lemma handled_failure: "handled rid (as_domain_error r f) = told rid f (str_exn (as_domain_error r f))"
  by (cases f) (simp_all add: handled_def told_def handle_gateway_error_def handle_unexpected_error_def)

lemma handled_foreign:
  "foreign e \<Longrightarrow> \<not> is_gateway_error e \<and> handled rid e =
     (if is_exception e then Some (error_response rid 500 ''internal_error'' ''Internal server error'') else None)"
  using foreign_error_says_nothing [of e rid] by (cases e) simp_all


section \<open>The body, and the connection behind it\<close>

lemma relay_chunks_effect:
  "\<exists>m \<le> length chunks. snd (relay_chunks consumer ending n chunks s) = s\<lparr>rl_out := rl_out s @ take m chunks\<rparr>
     \<and> ((\<forall>j < length chunks. consumer (n + j) = None) \<longrightarrow>
          m = length chunks \<and> fst (relay_chunks consumer ending n chunks s) = (case ending of None \<Rightarrow> Inr () | Some e \<Rightarrow> Inl e))"
proof (induction chunks arbitrary: n s)
  case Nil
  then show ?case by (simp add: throws_def return_gw_def raise_gw_def split: option.split)
next
  case (Cons c cs)
  let ?s = "s\<lparr>rl_out := rl_out s @ [c]\<rparr>"
  have step: "relay_chunks consumer ending n (c # cs) s =
      (case consumer n of None \<Rightarrow> relay_chunks consumer ending (n + 1) cs ?s | Some e \<Rightarrow> (Inl e, ?s))"
    by (simp add: then_gw_def bind_gw_def emit_def modify_gw_def throws_def return_gw_def raise_gw_def split: option.split)
  show ?case
  proof (cases "consumer n")
    case (Some e)
    then show ?thesis unfolding step by (intro exI [of _ 1]) auto
  next
    case None
    obtain m where m: "m \<le> length cs" "snd (relay_chunks consumer ending (n + 1) cs ?s) = ?s\<lparr>rl_out := rl_out ?s @ take m cs\<rparr>"
      "(\<forall>j < length cs. consumer (n + 1 + j) = None) \<longrightarrow>
          m = length cs \<and> fst (relay_chunks consumer ending (n + 1) cs ?s) = (case ending of None \<Rightarrow> Inr () | Some e \<Rightarrow> Inl e)"
      using Cons.IH [of "n + 1" ?s] by blast
    have "\<forall>j < length cs. consumer (n + 1 + j) = None" if "\<forall>j < length (c # cs). consumer (n + j) = None"
      using that by auto
    with m None show ?thesis unfolding step by (intro exI [of _ "Suc m"]) auto
  qed
qed

definition closing :: "upstream_outcome \<Rightarrow> wire_event list" where
  "closing u = (case uo_connection u of None \<Rightarrow> [] | Some n \<Rightarrow> [Closed n])"

text \<open>What closing raises, if it does.\<close>

definition closing_error :: "upstream_outcome \<Rightarrow> 's client_state_scheme \<Rightarrow> exn option" where
  "closing_error u s = (case uo_connection u of None \<Rightarrow> None | Some _ \<Rightarrow> map_option untranslated (ws_closing s (ws_log s)))"

lemma relay_closes:
  "aclose u s = (case closing_error u s of None \<Rightarrow> Inr () | Some e \<Rightarrow> Inl e, s\<lparr>ws_log := ws_log s @ closing u\<rparr>)"
  by (simp add: aclose_def closing_def closing_error_def close_connection_def return_gw_def split: option.split)

lemma closing_error_foreign: "closing_error u s = Some e \<Longrightarrow> \<not> is_upstream_error e"
  by (auto simp: closing_error_def split: option.splits)

text \<open>How a relay that nobody interrupts ends: the failure of a service ends the body early, and nothing else.\<close>

definition relay_ending :: "exn option \<Rightarrow> exn + unit" where
  "relay_ending ending = (case ending of Some e \<Rightarrow> if is_upstream_error e then Inr () else Inl e | None \<Rightarrow> Inr ())"

lemma relay_effect:
  "\<exists>m \<le> length chunks. snd (relay consumer (chunks, ending) u s) =
       s\<lparr>rl_out := rl_out s @ take m chunks, ws_log := ws_log s @ closing u\<rparr>
     \<and> ((\<forall>j < length chunks. consumer j = None) \<longrightarrow> m = length chunks
          \<and> fst (relay consumer (chunks, ending) u s) = (case closing_error u s of Some e \<Rightarrow> Inl e | None \<Rightarrow> relay_ending ending))
     \<and> (\<forall>e. fst (relay consumer (chunks, ending) u s) = Inl e \<longrightarrow> \<not> is_upstream_error e)"
proof -
  obtain r s1 where run: "relay_chunks consumer ending 0 chunks s = (r, s1)" by fastforce
  obtain m where m: "m \<le> length chunks" "s1 = s\<lparr>rl_out := rl_out s @ take m chunks\<rparr>"
     "(\<forall>j < length chunks. consumer j = None) \<longrightarrow> m = length chunks \<and> r = (case ending of None \<Rightarrow> Inr () | Some e \<Rightarrow> Inl e)"
    using relay_chunks_effect [of chunks consumer ending 0 s] run by auto
  let ?r = "case r of Inl e \<Rightarrow> if is_upstream_error e then Inr () else Inl e | Inr x \<Rightarrow> Inr x"
  let ?outcome = "case closing_error u s of Some e \<Rightarrow> Inl e | None \<Rightarrow> ?r"
  have "closing_error u s1 = closing_error u s" using m(2) by (simp add: closing_error_def split: option.split)
  then have whole: "relay consumer (chunks, ending) u s = (?outcome, s1\<lparr>ws_log := ws_log s1 @ closing u\<rparr>)"
    by (auto simp: relay_def finally_gw_def catch_gw_def run relay_closes return_gw_def raise_gw_def split: sum.split option.split)
  have "(\<forall>j < length chunks. consumer j = None) \<longrightarrow> m = length chunks \<and> ?r = relay_ending ending"
    using m(3) by (auto simp: relay_ending_def split: option.splits)
  moreover have "\<forall>e. ?outcome = Inl e \<longrightarrow> \<not> is_upstream_error e"
    by (auto dest: closing_error_foreign split: sum.splits if_splits option.splits)
  ultimately show ?thesis unfolding whole using m(1,2) by (intro exI [of _ m]) (auto split: option.split)
qed

lemma proxied_tidy:
  assumes "tidy_client call" "names_ok (ws_log s)"
  shows "tidy_step (ws_log s) (fst (proxied registry call name inbound inst s)) (ws_log (snd (proxied registry call name inbound inst s)))"
proof -
  from proxied_shape [of registry name inbound inst call s] consider
    (no) e where "proxied registry call name inbound inst s = (Inl e, s)"
    | (yes) r where "proxied registry call name inbound inst s =
        (map_sum id (\<lambda>u. u\<lparr>uo_headers := for_client (uo_headers u)\<rparr>) (fst (call r s)), snd (call r s))" by blast
  then show ?thesis
  proof cases
    case no
    with assms(2) show ?thesis by (simp add: tidy_step_def)
  next
    case (yes r)
    have "held (map_sum id (\<lambda>u. u\<lparr>uo_headers := for_client (uo_headers u)\<rparr>) x) = held x" for x by (cases x) simp_all
    with yes tidy_client.tidy [OF assms, of r] show ?thesis by (simp add: tidy_step_def)
  qed
qed

lemma forward_route_tidy:
  assumes "tidy_client call" "names_ok (ws_log s)" "forward_route ops registry call service_name path rq s = (Inr reply, s')"
  shows "tidy_step (ws_log s) (Inr (rp_upstream reply)) (ws_log s')"
  using assms(3)
proof (cases rule: forward_route_shape)
  case (sent inbound name pinned i up)
  then obtain u where u: "up = Inr u" "reply = to_streaming_response ops u" by (cases up) auto
  then have "rp_upstream reply = u" by (simp add: to_streaming_response_def)
  with proxied_tidy [OF assms(1,2), of registry name inbound "if pinned then Some i else None"] sent(3) u show ?thesis by simp
qed simp

text \<open>C13. A body that is sent gives its connection back. However it ends (the service finishes, fails, or the
  client goes away at any chunk), what the client got is a prefix of what the service sent, in order, all of it if the
  client stayed; a failure of the service ends the body without an error; the connection is closed, whether or not
  closing raises; and when it is over the open connections are those there were before the request.\<close>

theorem stream_is_relayed_and_released:
  assumes "names_ok (ws_log s)"
    and "forward_route ops registry (resilient_client factory codes p httpx_stream) service_name path rq s = (Inr reply, s1)"
    and "relay consumer (chunks, ending) (rp_upstream reply) s1 = (res, s2)"
  shows "open_connections (ws_log s2) = open_connections (ws_log s)
    \<and> (\<exists>m \<le> length chunks. rl_out s2 = rl_out s1 @ take m chunks
         \<and> ((\<forall>j < length chunks. consumer j = None) \<longrightarrow> m = length chunks
              \<and> res = (case closing_error (rp_upstream reply) s1 of Some e \<Rightarrow> Inl e | None \<Rightarrow> relay_ending ending)))
    \<and> (\<forall>e. res = Inl e \<longrightarrow> \<not> is_upstream_error e)"
proof -
  have tidy: "tidy_step (ws_log s) (Inr (rp_upstream reply)) (ws_log s1)"
    by (rule forward_route_tidy [OF streaming_tidy.tidy_client_axioms assms(1,2)])
  from relay_effect [of chunks consumer ending "rp_upstream reply" s1] assms(3) obtain m where m: "m \<le> length chunks"
    "s2 = s1\<lparr>rl_out := rl_out s1 @ take m chunks, ws_log := ws_log s1 @ closing (rp_upstream reply)\<rparr>"
    "(\<forall>j < length chunks. consumer j = None) \<longrightarrow> m = length chunks
       \<and> res = (case closing_error (rp_upstream reply) s1 of Some e \<Rightarrow> Inl e | None \<Rightarrow> relay_ending ending)"
    "\<forall>e. res = Inl e \<longrightarrow> \<not> is_upstream_error e" by auto
  have "open_connections (ws_log s1 @ closing (rp_upstream reply)) = open_connections (ws_log s)"
    using tidy by (auto simp: closing_def tidy_step_def open_close split: option.splits)
  with m show ?thesis by auto
qed

section \<open>Coming back to an instance\<close>

lemma try_instances_answer:
  assumes "try_instances call r errors is s = (Inr u, s')"
  shows "\<exists>x \<in> set is. \<exists>s1 answer. call (r\<lparr>ob_instance := Some x\<rparr>) s1 = (Inr answer, s') \<and> u = answer\<lparr>uo_instance_id := Some (si_id x)\<rparr>"
  using assms
proof (induction "is" arbitrary: errors s)
  case Nil
  then show ?case by simp
next
  case (Cons x xs)
  obtain res s1 where c: "call (r\<lparr>ob_instance := Some x\<rparr>) s = (res, s1)" by fastforce
  show ?case
  proof (cases res)
    case (Inr answer)
    with c Cons.prems show ?thesis by (auto simp: try_instances_Cons send_to_def bind_gw_def return_gw_def)
  next
    case (Inl e)
    with c Cons.prems obtain errors' where "try_instances call r errors' xs s1 = (Inr u, s')"
      by (auto simp: try_instances_Cons send_to_def bind_gw_def split: if_splits)
    with Cons.IH show ?thesis by auto
  qed
qed

lemma balanced_answer:
  assumes "balanced call r s = (Inr u, s')" "ob_instance r = None"
  shows "\<exists>x \<in> set (sd_instances (ob_service r)). \<exists>s1 answer.
     call (r\<lparr>ob_instance := Some x\<rparr>) s1 = (Inr answer, s') \<and> u = answer\<lparr>uo_instance_id := Some (si_id x)\<rparr>"
proof -
  from assms obtain order s1 where "rotation (ob_service r) s = (Inr order, s1)" "try_instances call r [] order s1 = (Inr u, s')"
    by (auto simp: balanced_def bind_gw_def split: prod.splits sum.splits)
  moreover from this(1) have "set order \<subseteq> set (sd_instances (ob_service r))"
    by (auto simp: rotation_def Let_def split: if_splits dest: in_set_dropD in_set_takeD)
  ultimately show ?thesis using try_instances_answer by blast
qed

lemma find_by_id:
  "distinct (map si_id xs) \<Longrightarrow> x \<in> set xs \<Longrightarrow> find (\<lambda>y. si_id y = si_id x) xs = Some x"
  by (induction xs) (auto dest: imageI [where f = si_id])

lemma partition_unpinned: "INSTANCE_SEPARATOR \<notin> set name \<Longrightarrow> partition_at INSTANCE_SEPARATOR name = (name, False, [])"
proof -
  assume n: "INSTANCE_SEPARATOR \<notin> set name"
  then have all: "x \<noteq> INSTANCE_SEPARATOR" if "x \<in> set name" for x using that by metis
  have "takeWhile (\<lambda>x. x \<noteq> INSTANCE_SEPARATOR) name = name" by (rule takeWhile_eq_all_conv [THEN iffD2]) (use all in blast)
  moreover have "dropWhile (\<lambda>x. x \<noteq> INSTANCE_SEPARATOR) name = []" by (rule dropWhile_eq_Nil_conv [THEN iffD2]) (use all in blast)
  ultimately show ?thesis by (simp only: partition_at_def Let_def drop_Nil simp_thms)
qed

lemma partition_pinned:
  assumes "INSTANCE_SEPARATOR \<notin> set name"
  shows "partition_at INSTANCE_SEPARATOR (name @ INSTANCE_SEPARATOR # i) = (name, True, i)"
proof -
  have "\<And>x. x \<in> set name \<Longrightarrow> x \<noteq> INSTANCE_SEPARATOR" using assms by metis
  then show ?thesis by (simp add: partition_at_def)
qed

text \<open>C24. The id a response names leads back to the server that answered. A response to an unpinned request names the
  instance whose call succeeded; and a request to \<^verbatim>\<open>name@id\<close> is one call for that very instance, with no rotation
  and no failover, whatever happened in between.\<close>

theorem pinned_request_returns_to_its_instance:
  assumes "registry_get registry name = Inr service" "INSTANCE_SEPARATOR \<notin> set name" "distinct (map si_id (sd_instances service))"
    and "forward_route ops registry (balanced call) name path rq s = (Inr reply, s')"
    and "to_inbound_request ops rq2 path2 = Inr inbound2"
  shows "\<exists>x r1 s1 answer r2. x \<in> set (sd_instances service) \<and> uo_instance_id (rp_upstream reply) = Some (si_id x)
    \<and> ob_instance r1 = Some x \<and> call r1 s1 = (Inr answer, s') \<and> rp_status reply = uo_status answer
    \<and> ob_instance r2 = Some x \<and> ob_service r2 = service \<and> ob_path r2 = path2
    \<and> snd (forward_route ops registry (balanced call) (name @ INSTANCE_SEPARATOR # si_id x) path2 rq2 t) = snd (call r2 t)
    \<and> (\<forall>e. fst (call r2 t) = Inl e \<longrightarrow>
         fst (forward_route ops registry (balanced call) (name @ INSTANCE_SEPARATOR # si_id x) path2 rq2 t) = Inl e)"
  using assms(4)
proof (cases rule: forward_route_shape)
  case (sent inbound name' pinned i up)
  then have up: "proxied registry (balanced call) name inbound None s = (up, s')" using partition_unpinned [OF assms(2)] by simp
  from sent obtain u where u: "up = Inr u" "reply = to_streaming_response ops u" by (cases up) auto
  from assms(1) obtain r where r: "outbound registry name inbound None = Inr r" "ob_service r = service" "ob_instance r = None"
    by (auto simp: outbound_def)
  with up u obtain u0 where u0: "balanced call r s = (Inr u0, s')" "u = u0\<lparr>uo_headers := for_client (uo_headers u0)\<rparr>"
    using proxied_shape [of registry name inbound None "balanced call" s] by (cases "balanced call r s") (auto simp: map_sum_def split: sum.splits)
  from balanced_answer [OF u0(1) r(3)] r(2) obtain x s1 answer where x: "x \<in> set (sd_instances service)"
    "call (r\<lparr>ob_instance := Some x\<rparr>) s1 = (Inr answer, s')" "u0 = answer\<lparr>uo_instance_id := Some (si_id x)\<rparr>" by blast
  have reply: "uo_instance_id (rp_upstream reply) = Some (si_id x)" "rp_status reply = uo_status answer"
    using u(2) u0(2) x(3) by (simp_all add: to_streaming_response_def)
  let ?n = "name @ INSTANCE_SEPARATOR # si_id x"
  have "service_instance_named service (si_id x) = Inr x"
    using find_by_id [OF assms(3) x(1)] by (simp add: service_instance_named_def)
  with assms(1) obtain r2 where r2: "outbound registry name inbound2 (Some (si_id x)) = Inr r2" "ob_instance r2 = Some x"
    "ob_service r2 = service" "ob_path r2 = in_path inbound2" by (auto simp: outbound_def)
  have path: "in_path inbound2 = path2" using assms(5) by (auto simp: to_inbound_request_def split: sum.splits)
  have same: "r2\<lparr>ob_instance := Some x\<rparr> = r2" using r2(2) by simp
  have run: "forward_route ops registry (balanced call) ?n path2 rq2 t = bind_gw (bind_gw (send_to x r2 call)
      (\<lambda>response. return_gw (response\<lparr>uo_headers := for_client (uo_headers response)\<rparr>)))
      (\<lambda>upstream. return_gw (to_streaming_response ops upstream)) t"
    using partition_pinned [OF assms(2)] assms(5) r2 by (simp add: forward_route_def bind_lift proxied_def balanced_def)
  have "snd (forward_route ops registry (balanced call) ?n path2 rq2 t) = snd (call r2 t)"
    "\<forall>e. fst (call r2 t) = Inl e \<longrightarrow> fst (forward_route ops registry (balanced call) ?n path2 rq2 t) = Inl e"
    unfolding run by (auto simp: send_to_def same bind_gw_def return_gw_def split: prod.splits sum.splits)
  with x(1,2) reply r2 path show ?thesis by (metis (no_types, lifting) outbound_request.select_convs(7) outbound_request.surjective outbound_request.update_convs(7))
qed simp

section \<open>Examples\<close>

text \<open>Headers as ASGI has them: a list in the order they were added. Setting a name replaces its first value and
  removes the others.\<close>

fun put_header :: "string \<Rightarrow> string \<Rightarrow> headers \<Rightarrow> headers" where
  "put_header k v [] = [(lower k, v)]"
| "put_header k v ((n, w) # hs) =
     (if lower n = lower k then (lower k, v) # filter (\<lambda>(m, _). lower m \<noteq> lower k) hs else (n, w) # put_header k v hs)"

definition asgi_headers :: header_ops where
  "asgi_headers = \<lparr>hd_get = \<lambda>n hs. (case values_of n hs of [] \<Rightarrow> None | v # _ \<Rightarrow> Some v), hd_set = put_header,
     hd_append = \<lambda>k v hs. hs @ [(lower k, v)], hd_initial = []\<rparr>"

lemma values_of_removed: "values_of n (filter (\<lambda>(m, _). lower m \<noteq> lower k) hs) = (if lower n = lower k then [] else values_of n hs)"
  by (induction hs) (auto simp: values_of_def)

lemma values_of_put: "values_of n (put_header k v hs) = (if lower n = lower k then [v] else values_of n hs)"
proof (induction k v hs rule: put_header.induct)
  case (2 k v m w hs)
  then show ?case using values_of_removed [of n k hs] by (auto simp: values_of_def)
qed (simp add: values_of_def)

lemma asgi_header_laws: "header_laws asgi_headers"
  by (simp add: header_laws_def asgi_headers_def values_of_put) (simp add: values_of_def)

definition sample_http :: http_request where
  "sample_http = \<lparr>rq_http = True, rq_method = ''GET'', rq_scheme = ''https'', rq_path = ''/api/mirag/x'',
     rq_headers = [(''x-request-id'', ''not an id''), (''accept'', ''*'')], rq_query = [], rq_body = Inr [], rq_client = None,
     rq_request_id = None\<rparr>"

text \<open>A service that says it is another instance.\<close>

definition sample_relay :: relay_state where
  "sample_relay = \<lparr>cs_breakers = [], cs_turns = [], cs_clock = (\<lambda>_. 0), cs_tick = 0, ws_log = [],
     ws_reply = (\<lambda>_ _. Inr \<lparr>hr_status = 200, hr_headers = [(''X-Gateway-Instance'', ''b'')], hr_content = []\<rparr>),
     ws_cancelled = (\<lambda>_. False), ws_closing = (\<lambda>_. None), rl_out = []\<rparr>"

definition sample_stack :: "'s client" where
  "sample_stack = resilient_client (new_breaker 5 30) {502} three_tries httpx_stream"

definition echo_app :: asgi_app where
  "echo_app rq var = ([ResponseStart 200 [(''x-request-id'', ''mine'')], ResponseBody ''hi'' False], None)"

definition sample_hex :: string where "sample_hex = ''0123456789abcdef0123456789abcdef''"

lemma sample_registered: "registry_get sample_registry ''mirag'' = Inr two_instances" "sd_headers two_instances = []"
  "fst (partition_at INSTANCE_SEPARATOR ''mirag'') = ''mirag''"
  by (simp_all add: registry_get_def sample_registry_def two_instances_def partition_at_def INSTANCE_SEPARATOR_def)

lemma sample_ids: "valid_request_id sample_hex" "resolve_request_id asgi_headers sample_hex sample_http = sample_hex"
  by code_simp+

lemma ran_Inr: "(case x of (Inr a, s) \<Rightarrow> P a s | _ \<Rightarrow> False) \<Longrightarrow> \<exists>a s. x = (Inr a, s) \<and> P a s"
  by (cases x) (auto split: sum.splits)

theorem request_id_is_one_along_the_proxy_witness:
  "header_laws asgi_headers
   \<and> cx_sent (fst (request_context asgi_headers sample_hex echo_app sample_http None)) =
       [ResponseStart 200 [(''x-request-id'', sample_hex)], ResponseBody ''hi'' False]
   \<and> (\<exists>res s' evs. forward_route asgi_headers sample_registry sample_stack ''mirag'' ''x'' (sample_http\<lparr>rq_request_id := Some sample_hex\<rparr>) sample_relay = (res, s')
        \<and> ws_log s' = evs \<and> list_all (\<lambda>e. case e of Sent c _ \<Rightarrow> values_of ''x-request-id'' (hc_headers c) = [sample_hex] | _ \<Rightarrow> True) evs)"
proof -
  obtain cx ending var where run: "request_context asgi_headers sample_hex echo_app sample_http None = (cx, ending, var)" by (metis prod_cases3)
  obtain res s' where fw: "forward_route asgi_headers sample_registry sample_stack ''mirag'' ''x'' (sample_http\<lparr>rq_request_id := Some sample_hex\<rparr>) sample_relay = (res, s')"
    by fastforce
  have http: "rq_http sample_http" by (simp add: sample_http_def)
  have forged: "set (map (\<lambda>(name, _). lower name) (sd_headers service)) \<inter> set FORWARDING_HEADERS = {}"
    if "registry_get sample_registry (fst (partition_at INSTANCE_SEPARATOR ''mirag'')) = Inr service" for service
    using that sample_registered by simp
  have "put_header REQUEST_ID_HEADER sample_hex [(''x-request-id'', ''mine'')] = [(''x-request-id'', sample_hex)]" by code_simp
  moreover have "ws_log sample_relay = []" by (simp add: sample_relay_def)
  moreover note request_id_is_one_along_the_proxy [OF asgi_header_laws sample_ids(1) http run forged sample_ids(2) [symmetric] fw [unfolded sample_stack_def]]
  ultimately have "cx_sent cx = [ResponseStart 200 [(''x-request-id'', sample_hex)], ResponseBody ''hi'' False]"
    and "list_all (\<lambda>e. case e of Sent c _ \<Rightarrow> values_of ''x-request-id'' (hc_headers c) = [sample_hex] | _ \<Rightarrow> True) (ws_log s')"
    by (simp add: echo_app_def stamp_def asgi_headers_def, auto simp: list_all_iff split: wire_event.split)
  with run fw asgi_header_laws show ?thesis by simp
qed

theorem proxy_route_end_to_end_witness:
  "\<exists>reply s' i. forward_route asgi_headers sample_registry sample_stack ''mirag'' ''x'' sample_http sample_relay = (Inr reply, s')
     \<and> rp_status reply = 200 \<and> i \<in> {''a'', ''b''} \<and> values_of INSTANCE_HEADER (rp_headers reply) = [i]"
proof -
  have run: "(case forward_route asgi_headers sample_registry sample_stack ''mirag'' ''x'' sample_http sample_relay of
      (Inr reply, s') \<Rightarrow> rp_status reply = 200 | _ \<Rightarrow> False)"
    by code_simp
  then obtain reply s' where r: "forward_route asgi_headers sample_registry sample_stack ''mirag'' ''x'' sample_http sample_relay = (Inr reply, s')"
    "rp_status reply = 200" using ran_Inr [OF run] by blast
  have body: "rq_body sample_http = Inr []" by (simp add: sample_http_def)
  have part: "partition_at INSTANCE_SEPARATOR ''mirag'' = (''mirag'', False, [])" by code_simp
  obtain inbound ob i where i: "outbound sample_registry ''mirag'' inbound None = Inr ob" "i \<in> set (sd_instances (ob_service ob))"
      "values_of INSTANCE_HEADER (rp_headers reply) = [si_id i]"
    using proxy_route_end_to_end [OF asgi_header_laws body r(1) [unfolded sample_stack_def] part] by (elim exE conjE) (simp, blast)
  moreover have "ob_service ob = two_instances" using i(1) sample_registered by (auto simp: outbound_def)
  ultimately have "si_id i \<in> {''a'', ''b''}" by (auto simp: two_instances_def)
  with r i(3) show ?thesis by blast
qed


theorem stream_is_relayed_and_released_witness:
  "\<exists>reply s1 s2. forward_route asgi_headers sample_registry sample_stack ''mirag'' ''x'' sample_http sample_relay = (Inr reply, s1)
     \<and> relay (\<lambda>n. if n = 1 then Some GeneratorExit else None) ([''a'', ''b'', ''c''], None) (rp_upstream reply) s1 = (Inl GeneratorExit, s2)
     \<and> rl_out s2 = [''a'', ''b''] \<and> open_connections (ws_log s2) = {}"
proof -
  let ?consumer = "\<lambda>n::nat. if n = 1 then Some GeneratorExit else None"
  have run: "(case forward_route asgi_headers sample_registry sample_stack ''mirag'' ''x'' sample_http sample_relay of
      (Inr reply, s1) \<Rightarrow> (case relay ?consumer ([''a'', ''b'', ''c''], None) (rp_upstream reply) s1 of
         (r, s2) \<Rightarrow> r = Inl GeneratorExit \<and> rl_out s2 = [''a'', ''b'']) | _ \<Rightarrow> False)"
    by code_simp
  then obtain reply s1 s2 where r: "forward_route asgi_headers sample_registry sample_stack ''mirag'' ''x'' sample_http sample_relay = (Inr reply, s1)"
    "relay ?consumer ([''a'', ''b'', ''c''], None) (rp_upstream reply) s1 = (Inl GeneratorExit, s2)" "rl_out s2 = [''a'', ''b'']"
    using ran_Inr [OF run] by (elim exE conjE) (simp split: prod.splits)
  have "names_ok (ws_log sample_relay)" "open_connections (ws_log sample_relay) = {}"
    by (simp_all add: sample_relay_def names_ok_def open_connections_def)
  with stream_is_relayed_and_released [OF _ r(1) [unfolded sample_stack_def] r(2)] r show ?thesis by simp
qed

definition no_content_client :: "unit client" where
  "no_content_client r = return_gw \<lparr>uo_status = 204, uo_headers = [], uo_body = [], uo_connection = None, uo_instance_id = None\<rparr>"

theorem pinned_request_returns_to_its_instance_witness:
  "\<exists>reply s' i. forward_route asgi_headers sample_registry (balanced no_content_client) ''mirag'' ''x'' sample_http quiet_wire = (Inr reply, s')
     \<and> i \<in> {''a'', ''b''} \<and> uo_instance_id (rp_upstream reply) = Some i
     \<and> snd (forward_route asgi_headers sample_registry (balanced no_content_client) (''mirag'' @ INSTANCE_SEPARATOR # i) ''y'' sample_http quiet_wire) = quiet_wire"
proof -
  have "(case fst (forward_route asgi_headers sample_registry (balanced no_content_client) ''mirag'' ''x'' sample_http quiet_wire) of Inr _ \<Rightarrow> True | _ \<Rightarrow> False)"
    by code_simp
  then obtain reply s' where r: "forward_route asgi_headers sample_registry (balanced no_content_client) ''mirag'' ''x'' sample_http quiet_wire = (Inr reply, s')"
    by (metis (no_types, lifting) old.sum.exhaust prod.collapse sum.case(1))
  obtain inbound where i: "to_inbound_request asgi_headers sample_http ''y'' = Inr inbound" by (simp add: to_inbound_request_def sample_http_def)
  have n: "INSTANCE_SEPARATOR \<notin> set ''mirag''" by code_simp
  have d: "distinct (map si_id (sd_instances two_instances))" "si_id ` set (sd_instances two_instances) = {''a'', ''b''}"
    by (simp_all add: two_instances_def)
  obtain x r2 where x: "x \<in> set (sd_instances two_instances)" "uo_instance_id (rp_upstream reply) = Some (si_id x)"
    "snd (forward_route asgi_headers sample_registry (balanced no_content_client) (''mirag'' @ INSTANCE_SEPARATOR # si_id x) ''y'' sample_http quiet_wire)
       = snd (no_content_client r2 quiet_wire)"
    using pinned_request_returns_to_its_instance [OF sample_registered(1) n d(1) r i, of quiet_wire] by blast
  have "si_id x \<in> {''a'', ''b''}" using x(1) d(2) by blast
  moreover have "snd (no_content_client r2 quiet_wire) = quiet_wire" by (simp add: no_content_client_def return_gw_def)
  ultimately show ?thesis using r x by (metis (no_types, lifting))
qed

end
