(* ===== verification/Subscription_Contract.thy ===== *)
theory Subscription_Contract
  imports Billing_Service
begin

text \<open>
  \<^verbatim>\<open>infrastructure/billing/subscriptions.py\<close>: the subscriptions contract, read and written through Soroban RPC.

  The SDK is an argument (\<open>soroban\<close>): whether it can be imported, what an invocation returns, what the RPC server
  answers, each as a result or the exception it raised. Objects of the SDK are what the code sees of them, a value or a
  bag of attributes (\<open>py_obj\<close>). The client is loaded once and kept, with the reason when it could not be, so
  the operations pass the contract object on. Parsing of the RPC's numbers is Python's \<^verbatim>\<open>int\<close>.
\<close>

section \<open>Objects of the SDK\<close>

datatype py_obj = PyNone | PyInt int | PyStr string | PyBytes string | PyList "py_obj list" | PyObject "(string \<times> py_obj) list"

fun getattr :: "py_obj \<Rightarrow> string \<Rightarrow> py_obj \<Rightarrow> py_obj" where
  "getattr (PyObject attrs) name d = (case map_of attrs name of Some v \<Rightarrow> v | None \<Rightarrow> d)"
| "getattr _ name d = d"

text \<open>\<^verbatim>\<open>for entry in entries\<close>: what has no iterator raises.\<close>

fun iterate :: "py_obj \<Rightarrow> exn + py_obj list" where
  "iterate (PyList xs) = Inr xs"
| "iterate (PyStr s) = Inr (map (\<lambda>c. PyStr [c]) s)"
| "iterate (PyBytes s) = Inr (map (\<lambda>c. PyInt (int (byte c))) s)"
| "iterate _ = Inl TypeError"

text \<open>\<^verbatim>\<open>bytes.decode("utf-8", "replace")\<close>: the longest well-formed start of a malformed sequence becomes one replacement
  character.\<close>

definition replacement :: string where
  "replacement = map char_of [239::nat, 191, 189]"

text \<open>How many bytes follow a lead byte, and the range of the first of them.\<close>

definition follows :: "nat \<Rightarrow> nat \<times> nat \<times> nat" where
  "follows b =
     (if 194 \<le> b \<and> b \<le> 223 then (1, 128, 191)
      else if b = 224 then (2, 160, 191)
      else if b = 237 then (2, 128, 159)
      else if 225 \<le> b \<and> b \<le> 239 then (2, 128, 191)
      else if b = 240 then (3, 144, 191)
      else if 241 \<le> b \<and> b \<le> 243 then (3, 128, 191)
      else if b = 244 then (3, 128, 143)
      else (0, 0, 0))"

definition well_formed_start :: "nat \<times> nat \<times> nat \<Rightarrow> string \<Rightarrow> nat" where
  "well_formed_start f s =
     (case f of (n, lo, hi) \<Rightarrow>
        (case take n s of
           [] \<Rightarrow> 0
         | c # cs \<Rightarrow> if lo \<le> byte c \<and> byte c \<le> hi then 1 + length (takeWhile is_continuation cs) else 0))"

function decode_replace :: "string \<Rightarrow> string" where
  "decode_replace [] = []"
| "decode_replace (b # bs) =
     (if byte b < 128 then b # decode_replace bs
      else
        let f = follows (byte b); k = well_formed_start f bs
        in if 0 < fst f \<and> k = fst f then b # take k bs @ decode_replace (drop k bs)
           else replacement @ decode_replace (drop k bs))"
  by pat_completeness auto
termination
  by (relation "measure length") auto

lemma decode_ascii: "list_all (\<lambda>c. byte c < 128) s \<Longrightarrow> decode_replace s = s"
  by (induction s) auto

text \<open>\<^verbatim>\<open>int(value)\<close>.\<close>

fun int_of_obj :: "py_obj \<Rightarrow> exn + int" where
  "int_of_obj (PyInt i) = Inr i"
| "int_of_obj (PyStr s) = (case int_of_text s of None \<Rightarrow> Inl (ValueError ''invalid literal for int()'') | Some i \<Rightarrow> Inr i)"
| "int_of_obj (PyBytes s) =
     (if list_all (\<lambda>c. byte c < 128) s then
        (case int_of_text s of None \<Rightarrow> Inl (ValueError ''invalid literal for int()'') | Some i \<Rightarrow> Inr i)
      else Inl (ValueError ''invalid literal for int()''))"
| "int_of_obj _ = Inl TypeError"

section \<open>Reading the contract's value\<close>

text \<open>\<open>str_of\<close> is \<^verbatim>\<open>str\<close> of an object of the SDK.\<close>

definition symbol_of :: "(py_obj \<Rightarrow> string) \<Rightarrow> py_obj \<Rightarrow> string" where
  "symbol_of str_of v =
     (let raw = getattr v ''sym'' PyNone; raw1 = getattr raw ''sc_symbol'' raw
      in case raw1 of
           PyBytes b \<Rightarrow> decode_replace b
         | PyNone \<Rightarrow> []
         | PyStr s \<Rightarrow> s
         | PyInt i \<Rightarrow> show_int i
         | other \<Rightarrow> str_of other)"

definition u64_of :: "py_obj \<Rightarrow> exn + int" where
  "u64_of v =
     (let number = (\<lambda>raw. int_of_obj (getattr raw ''uint64'' (getattr raw ''uint32'' raw)));
          a = getattr v ''u64'' PyNone; b = getattr v ''u32'' PyNone
      in if a \<noteq> PyNone then number a else if b \<noteq> PyNone then number b else Inr 0)"

definition map_of_value :: "(py_obj \<Rightarrow> string) \<Rightarrow> py_obj \<Rightarrow> exn + (string, py_obj) dict" where
  "map_of_value str_of v =
     (if v = PyNone then Inr []
      else
        let entries1 = getattr (getattr v ''map'' PyNone) ''sc_map'' PyNone;
            entries = (if entries1 = PyNone then getattr v ''map'' PyNone else entries1)
        in if entries = PyNone then Inr []
           else
             (case iterate entries of
                Inl e \<Rightarrow> Inl e
              | Inr items \<Rightarrow>
                  Inr (fold (\<lambda>entry fs.
                        let key = symbol_of str_of (getattr entry ''key'' PyNone)
                        in if key \<noteq> [] then dict_set key (getattr entry ''val'' PyNone) fs else fs) items [])))"

definition field_of :: "(string, py_obj) dict \<Rightarrow> string \<Rightarrow> py_obj" where
  "field_of fs k = (case map_of fs k of Some v \<Rightarrow> v | None \<Rightarrow> PyNone)"

text \<open>\<^verbatim>\<open>datetime.fromtimestamp(t, UTC)\<close>. Out of range it raises: which of \<^verbatim>\<open>ValueError\<close>, \<^verbatim>\<open>OverflowError\<close> and \<^verbatim>\<open>OSError\<close>
  depends on the platform, and nothing tells them apart.\<close>

definition fromtimestamp :: "int \<Rightarrow> exn + datetime" where
  "fromtimestamp t =
     (let d = EPOCH + t * 1000000 in if dt_ok d then Inr d else Inl (ValueError ''year is out of range''))"

definition read_value :: "(py_obj \<Rightarrow> string) \<Rightarrow> py_obj \<Rightarrow> exn + onchain option" where
  "read_value str_of v =
     (case map_of_value str_of v of
        Inl e \<Rightarrow> Inl e
      | Inr fs \<Rightarrow>
          if fs = [] then Inr None
          else
            (case (u64_of (field_of fs ''started''), u64_of (field_of fs ''expires''), u64_of (field_of fs ''periods'')) of
               (Inr started, Inr expires, Inr periods) \<Rightarrow>
                 (let plan = symbol_of str_of (field_of fs ''plan'')
                  in if plan = [] \<or> expires = 0 then Inr None
                     else
                       (case (fromtimestamp started, fromtimestamp expires) of
                          (Inl e, _) \<Rightarrow> Inl e
                        | (_, Inl e) \<Rightarrow> Inl e
                        | (Inr s, Inr x) \<Rightarrow> Inr (Some \<lparr>oc_plan = plan, oc_started = s, oc_expires = x, oc_periods = periods\<rparr>)))
             | _ \<Rightarrow> Inr None))"

section \<open>The contract object\<close>

definition ADDRESS_matches :: "string \<Rightarrow> bool" where
  "ADDRESS_matches v \<longleftrightarrow> length v = 56 \<and> hd v = CHR ''G''
     \<and> list_all (\<lambda>c. (65 \<le> byte c \<and> byte c \<le> 90) \<or> (50 \<le> byte c \<and> byte c \<le> 55)) (tl v)"

definition RPC_URLS :: "string \<Rightarrow> string" where
  "RPC_URLS network =
     (if network = ''stellar'' then ''https://mainnet.sorobanrpc.com'' else ''https://soroban-testnet.stellar.org'')"

text \<open>A transaction that invokes a contract, as the builder is told to make it; parameters with their kind.\<close>

record soroban_tx =
  tx_source :: string
  tx_sequence :: int
  tx_passphrase :: string
  tx_base_fee :: int
  tx_contract :: string
  tx_function :: string
  tx_parameters :: "(string \<times> string) list"
  tx_timeout :: int

record contract_client =
  cc_contract :: string
  cc_rpc :: string
  cc_passphrase :: string

record soroban =
  sb_missing :: "string option"
  sb_public :: string
  sb_testnet :: string
  sb_str :: "py_obj \<Rightarrow> string"
  sb_invoke :: "nat \<Rightarrow> contract_client \<Rightarrow> string \<Rightarrow> string \<Rightarrow> (string \<times> string) list \<Rightarrow> exn + py_obj"
  sb_load_account :: "nat \<Rightarrow> string \<Rightarrow> string \<Rightarrow> exn + int"
  sb_build :: "soroban_tx \<Rightarrow> exn + soroban_tx"
  sb_prepare :: "nat \<Rightarrow> string \<Rightarrow> soroban_tx \<Rightarrow> exn + string"
  sb_from_xdr :: "string \<Rightarrow> string \<Rightarrow> exn + string"
  sb_send :: "nat \<Rightarrow> string \<Rightarrow> string \<Rightarrow> exn + string \<times> string"
  sb_poll :: "nat \<Rightarrow> string \<Rightarrow> string \<Rightarrow> exn + string"

record contract =
  ct_id :: string
  ct_network :: string
  ct_rpc_url :: string
  ct_source :: string
  ct_reason :: string
  ct_client :: "contract_client option"

definition new_contract :: "string \<Rightarrow> string \<Rightarrow> string \<Rightarrow> string \<Rightarrow> contract" where
  "new_contract contract_id network source rpc_url =
     \<lparr>ct_id = contract_id, ct_network = network, ct_rpc_url = (if rpc_url \<noteq> [] then rpc_url else RPC_URLS network),
      ct_source = source, ct_reason = [], ct_client = None\<rparr>"

definition contract_passphrase :: "soroban \<Rightarrow> contract \<Rightarrow> string" where
  "contract_passphrase lib c = (if ct_network c = ''stellar'' then sb_public lib else sb_testnet lib)"

definition load_client :: "soroban \<Rightarrow> contract \<Rightarrow> contract" where
  "load_client lib c =
     (if ct_client c \<noteq> None \<or> ct_reason c \<noteq> [] then c
      else if ct_id c = [] then c\<lparr>ct_reason := ''no subscriptions contract is configured''\<rparr>
      else
        (case sb_missing lib of
           Some error \<Rightarrow>
             c\<lparr>ct_reason := ''this gateway cannot read the subscriptions contract: the Stellar dependency is not installed ('' @ error
                @ ''). Install it with: pip install -e '' @ [char_of (34::nat)] @ ''.[stellar]'' @ [char_of (34::nat)]\<rparr>
         | None \<Rightarrow>
             c\<lparr>ct_client := Some \<lparr>cc_contract = ct_id c, cc_rpc = ct_rpc_url c, cc_passphrase = contract_passphrase lib c\<rparr>\<rparr>))"

definition contract_available :: "soroban \<Rightarrow> contract \<Rightarrow> bool \<times> contract" where
  "contract_available lib c =
     (if ct_id c = [] then (False, c) else let c1 = load_client lib c in (ct_client c1 \<noteq> None, c1))"

definition unavailable_reason :: "soroban \<Rightarrow> contract \<Rightarrow> string \<times> contract" where
  "unavailable_reason lib c = (let c1 = load_client lib c in (ct_reason c1, c1))"

text \<open>\<^verbatim>\<open>except Exception as error: raise SubscriptionContractError(...)\<close>\<close>

definition wrapped :: "string \<Rightarrow> exn + 'a \<Rightarrow> exn + 'a" where
  "wrapped what r =
     (case r of
        Inl e \<Rightarrow> Inl (if is_exception e then SubscriptionContractError (what @ '': '' @ str_exn e) else e)
      | Inr x \<Rightarrow> Inr x)"

definition contract_subscription :: "soroban \<Rightarrow> nat \<Rightarrow> string \<Rightarrow> contract \<Rightarrow> (exn + onchain option) \<times> contract" where
  "contract_subscription lib t address c =
     (let c1 = load_client lib c
      in case ct_client c1 of
           None \<Rightarrow> (Inr None, c1)
         | Some client \<Rightarrow>
             if \<not> ADDRESS_matches address then (Inr None, c1)
             else
               (case wrapped ''the subscriptions contract could not be read''
                       (sb_invoke lib t client (ct_source c1) ''subscription'' [(''address'', address)]) of
                  Inl e \<Rightarrow> (Inl e, c1)
                | Inr v \<Rightarrow> (read_value (sb_str lib) v, c1)))"

definition subscribe_tx :: "soroban \<Rightarrow> contract \<Rightarrow> string \<Rightarrow> string \<Rightarrow> int \<Rightarrow> int \<Rightarrow> soroban_tx" where
  "subscribe_tx lib c address plan fee seqno =
     \<lparr>tx_source = address, tx_sequence = seqno, tx_passphrase = contract_passphrase lib c, tx_base_fee = fee,
      tx_contract = ct_id c, tx_function = ''subscribe'', tx_parameters = [(''address'', address), (''symbol'', plan)],
      tx_timeout = 300\<rparr>"

definition build_subscribe :: "soroban \<Rightarrow> nat \<Rightarrow> string \<Rightarrow> string \<Rightarrow> int \<Rightarrow> contract \<Rightarrow> (exn + string) \<times> contract" where
  "build_subscribe lib t address plan fee c =
     (if \<not> ADDRESS_matches address then (Inl (SubscriptionContractError ''that is not a Stellar address''), c)
      else
        let c1 = load_client lib c
        in if ct_client c1 = None
           then (Inl (SubscriptionContractError (if ct_reason c1 \<noteq> [] then ct_reason c1 else ''no subscriptions contract'')), c1)
           else
             (wrapped ''the subscription transaction could not be built''
                (case sb_load_account lib t (ct_rpc_url c1) address of
                   Inl e \<Rightarrow> Inl e
                 | Inr seqno \<Rightarrow>
                     (case sb_build lib (subscribe_tx lib c1 address plan fee seqno) of
                        Inl e \<Rightarrow> Inl e
                      | Inr transaction \<Rightarrow> sb_prepare lib t (ct_rpc_url c1) transaction)), c1))"

definition submit_transaction :: "soroban \<Rightarrow> nat \<Rightarrow> string \<Rightarrow> contract \<Rightarrow> exn + string" where
  "submit_transaction lib t signed_xdr c =
     (case sb_from_xdr lib signed_xdr (contract_passphrase lib c) of
        Inl e \<Rightarrow> Inl e
      | Inr envelope \<Rightarrow>
          (case sb_send lib t (ct_rpc_url c) envelope of
             Inl e \<Rightarrow> Inl e
           | Inr (status, tx_hash) \<Rightarrow>
               if status \<notin> {''SendTransactionStatus.PENDING'', ''PENDING''}
               then Inl (SubscriptionContractError (''the network refused the transaction: '' @ status))
               else
                 (case sb_poll lib t (ct_rpc_url c) tx_hash of
                    Inl e \<Rightarrow> Inl e
                  | Inr settled \<Rightarrow>
                      if settled \<notin> {''GetTransactionStatus.SUCCESS'', ''SUCCESS''}
                      then Inl (SubscriptionContractError (''the transaction failed on the ledger: '' @ settled))
                      else Inr tx_hash)))"

fun is_contract_error :: "exn \<Rightarrow> bool" where
  "is_contract_error (SubscriptionContractError _) = True"
| "is_contract_error _ = False"

definition submit :: "soroban \<Rightarrow> nat \<Rightarrow> string \<Rightarrow> contract \<Rightarrow> (exn + string) \<times> contract" where
  "submit lib t signed_xdr c =
     (let c1 = load_client lib c
      in if ct_client c1 = None
         then (Inl (SubscriptionContractError (if ct_reason c1 \<noteq> [] then ct_reason c1 else ''no subscriptions contract'')), c1)
         else
           (case submit_transaction lib t signed_xdr c1 of
              Inl e \<Rightarrow> if is_contract_error e then (Inl e, c1) else (wrapped ''the subscription could not be submitted'' (Inl e), c1)
            | Inr tx_hash \<Rightarrow> (Inr tx_hash, c1)))"

text \<open>The contract as the billing service's registry.\<close>

definition contract_registry :: "soroban \<Rightarrow> contract \<Rightarrow> chain_registry" where
  "contract_registry lib c =
     \<lparr>ch_available = fst (contract_available lib c), ch_contract_id = ct_id c,
      ch_subscription = \<lambda>t address. fst (contract_subscription lib t address c),
      ch_build_subscribe = Some (\<lambda>t address plan. fst (build_subscribe lib t address plan 1000000 c)),
      ch_submit = Some (\<lambda>t xdr. fst (submit lib t xdr c))\<rparr>"

section \<open>Facts\<close>

text \<open>The client is loaded once: an operation answers the same whether or not another came before it.\<close>

lemma load_client_keeps: "ct_id (load_client lib c) = ct_id c" "ct_network (load_client lib c) = ct_network c"
  "ct_rpc_url (load_client lib c) = ct_rpc_url c" "ct_source (load_client lib c) = ct_source c"
  by (simp_all add: load_client_def split: option.split)

lemma load_client_idem [simp]: "load_client lib (load_client lib c) = load_client lib c"
  by (simp add: load_client_def split: option.split)

lemma contract_registry_stable: "contract_registry lib (load_client lib c) = contract_registry lib c"
proof -
  have "contract_passphrase lib (load_client lib c) = contract_passphrase lib c"
    by (simp add: contract_passphrase_def load_client_keeps)
  then show ?thesis
    by (simp add: contract_registry_def contract_available_def contract_subscription_def build_subscribe_def submit_def Let_def
        load_client_keeps fun_eq_iff split: option.split sum.split)
qed

lemma wrapped_error: "wrapped what r = Inl e \<Longrightarrow> is_contract_error e \<or> \<not> is_exception e"
  by (auto simp: wrapped_def split: sum.splits if_splits)

section \<open>What the contract stores\<close>

definition sc_sym :: "string \<Rightarrow> py_obj" where
  "sc_sym s = PyObject [(''sym'', PyObject [(''sc_symbol'', PyBytes s)])]"

definition sc_u64 :: "int \<Rightarrow> py_obj" where
  "sc_u64 n = PyObject [(''u64'', PyObject [(''uint64'', PyInt n)])]"

definition sc_u32 :: "int \<Rightarrow> py_obj" where
  "sc_u32 n = PyObject [(''u32'', PyObject [(''uint32'', PyInt n)])]"

definition sc_entry :: "string \<Rightarrow> py_obj \<Rightarrow> py_obj" where
  "sc_entry k v = PyObject [(''key'', sc_sym k), (''val'', v)]"

definition stored_subscription :: "string \<Rightarrow> int \<Rightarrow> int \<Rightarrow> int \<Rightarrow> py_obj" where
  "stored_subscription plan started expires periods =
     PyObject [(''map'', PyObject [(''sc_map'', PyList
       [sc_entry ''expires'' (sc_u64 expires), sc_entry ''periods'' (sc_u32 periods), sc_entry ''plan'' (sc_sym plan),
        sc_entry ''started'' (sc_u64 started)])])]"

definition is_ascii :: "string \<Rightarrow> bool" where
  "is_ascii s \<longleftrightarrow> list_all (\<lambda>c. byte c < 128) s"

lemma symbol_of_sym: "is_ascii s \<Longrightarrow> symbol_of str_of (sc_sym s) = s"
  by (simp add: symbol_of_def sc_sym_def decode_ascii is_ascii_def)

lemma field_names_ascii: "is_ascii ''plan''" "is_ascii ''started''" "is_ascii ''expires''" "is_ascii ''periods''"
  by code_simp+

lemma read_stored:
  assumes "is_ascii plan" "plan \<noteq> []" "expires \<noteq> 0"
  shows "read_value str_of (stored_subscription plan started expires periods) =
    (case (fromtimestamp started, fromtimestamp expires) of
       (Inl e, _) \<Rightarrow> Inl e
     | (_, Inl e) \<Rightarrow> Inl e
     | (Inr s, Inr x) \<Rightarrow> Inr (Some \<lparr>oc_plan = plan, oc_started = s, oc_expires = x, oc_periods = periods\<rparr>))"
proof -
  have "map_of_value str_of (stored_subscription plan started expires periods) =
      Inr [(''expires'', sc_u64 expires), (''periods'', sc_u32 periods), (''plan'', sc_sym plan), (''started'', sc_u64 started)]"
    by (simp add: map_of_value_def stored_subscription_def sc_entry_def symbol_of_sym field_names_ascii Let_def)
  moreover have "u64_of (sc_u64 n) = Inr n" "u64_of (sc_u32 n) = Inr n" for n
    by (simp_all add: u64_of_def sc_u64_def sc_u32_def Let_def)
  ultimately show ?thesis using assms by (simp add: read_value_def field_of_def symbol_of_sym Let_def)
qed

text \<open>The contract answers an address it has nothing for with a void value. The result is taken as the SDK parsed it, so
  that is an object of the SDK whose \<^verbatim>\<open>map\<close>, as every attribute of another kind of value, is \<^verbatim>\<open>None\<close>; Python's own
  \<^verbatim>\<open>None\<close> is accepted too.\<close>

fun nothing_stored :: "py_obj \<Rightarrow> bool" where
  "nothing_stored PyNone = True"
| "nothing_stored (PyObject attrs) = (getattr (PyObject attrs) ''map'' PyNone = PyNone)"
| "nothing_stored _ = False"

definition sc_void :: py_obj where
  "sc_void = PyObject [(''type'', PyInt 1), (''sym'', PyNone), (''u64'', PyNone), (''u32'', PyNone), (''map'', PyNone)]"

lemma read_nothing: "nothing_stored v \<Longrightarrow> read_value str_of v = Inr None"
  by (cases v rule: nothing_stored.cases) (simp_all add: read_value_def map_of_value_def Let_def)

text \<open>C25. What the contract records is what the gateway reads: a subscription stored with a plan, an end and times
  in the range of the calendar comes back with the plan, the two instants to the second and the periods, through
  the client of a configured contract; an address the contract has nothing for, which the SDK answers with a void value
  and not with \<^verbatim>\<open>None\<close>, is not subscribed; and what is not an address is never asked about.\<close>

theorem stored_subscription_reads_back:
  assumes "sb_missing lib = None" "contract_id \<noteq> []" "ADDRESS_matches address"
    and "is_ascii plan" "plan \<noteq> []" "expires \<noteq> 0" "dt_ok (EPOCH + started * 1000000)" "dt_ok (EPOCH + expires * 1000000)"
    and "\<And>client source. sb_invoke lib t client source ''subscription'' [(''address'', address)] = Inr answer"
    and "if subscribed then answer = stored_subscription plan started expires periods else nothing_stored answer"
    and "registry = contract_registry lib (new_contract contract_id network source rpc_url)"
  shows "ch_available registry
    \<and> ch_subscription registry t address =
        Inr (if subscribed then Some \<lparr>oc_plan = plan, oc_started = EPOCH + started * 1000000, oc_expires = EPOCH + expires * 1000000,
               oc_periods = periods\<rparr> else None)
    \<and> (\<forall>other. \<not> ADDRESS_matches other \<longrightarrow> ch_subscription registry t other = Inr None)"
proof -
  let ?c = "new_contract contract_id network source rpc_url"
  from assms(1,2) obtain client where c: "ct_client (load_client lib ?c) = Some client" "ct_id ?c \<noteq> []"
    by (simp add: load_client_def new_contract_def)
  from assms(3-10) c read_nothing [of answer "sb_str lib"] show ?thesis
    unfolding assms(11) contract_registry_def
    by (cases subscribed) (simp_all add: contract_available_def contract_subscription_def wrapped_def read_stored fromtimestamp_def Let_def)
qed

text \<open>Where it can fail, it fails with its own error. Building and submitting raise nothing but
  \<^verbatim>\<open>SubscriptionContractError\<close> (and what is not an \<^verbatim>\<open>Exception\<close>), whatever the SDK and the network do; a transaction
  that is built is the subscription of that address to that plan on this contract and network, valid for
  five minutes; a hash is returned only of a transaction the network accepted and the ledger confirmed.\<close>

theorem contract_writes_are_exact:
  assumes "fst (build_subscribe lib t address plan fee c) = built" "fst (submit lib t xdr c) = sent"
  shows "(\<forall>e. built = Inl e \<longrightarrow> is_contract_error e \<or> \<not> is_exception e)
    \<and> (\<forall>e. sent = Inl e \<longrightarrow> is_contract_error e \<or> \<not> is_exception e)
    \<and> (\<forall>prepared. built = Inr prepared \<longrightarrow> ADDRESS_matches address \<and> (\<exists>tx signed. sb_build lib tx = Inr signed
         \<and> sb_prepare lib t (ct_rpc_url c) signed = Inr prepared \<and> tx_source tx = address \<and> tx_contract tx = ct_id c
         \<and> tx_function tx = ''subscribe'' \<and> tx_parameters tx = [(''address'', address), (''symbol'', plan)]
         \<and> tx_passphrase tx = contract_passphrase lib c \<and> tx_timeout tx = 300))
    \<and> (\<forall>tx_hash. sent = Inr tx_hash \<longrightarrow> (\<exists>envelope status settled. sb_from_xdr lib xdr (contract_passphrase lib c) = Inr envelope
         \<and> sb_send lib t (ct_rpc_url c) envelope = Inr (status, tx_hash) \<and> sb_poll lib t (ct_rpc_url c) tx_hash = Inr settled
         \<and> settled \<in> {''GetTransactionStatus.SUCCESS'', ''SUCCESS''}))"
proof -
  have pass: "contract_passphrase lib (load_client lib c) = contract_passphrase lib c" by (simp add: contract_passphrase_def load_client_keeps)
  have b: "is_contract_error e \<or> \<not> is_exception e" if "built = Inl e" for e
    using that assms(1) by (auto simp: build_subscribe_def Let_def split: if_splits dest: wrapped_error)
  have s: "is_contract_error e \<or> \<not> is_exception e" if "sent = Inl e" for e
    using that assms(2) by (auto simp: submit_def Let_def split: if_splits sum.splits dest: wrapped_error)
  have "ADDRESS_matches address \<and> (\<exists>tx signed. sb_build lib tx = Inr signed
         \<and> sb_prepare lib t (ct_rpc_url c) signed = Inr prepared \<and> tx_source tx = address \<and> tx_contract tx = ct_id c
         \<and> tx_function tx = ''subscribe'' \<and> tx_parameters tx = [(''address'', address), (''symbol'', plan)]
         \<and> tx_passphrase tx = contract_passphrase lib c \<and> tx_timeout tx = 300)" if "built = Inr prepared" for prepared
  proof -
    from that assms(1) obtain seqno signed where "ADDRESS_matches address"
      "sb_build lib (subscribe_tx lib (load_client lib c) address plan fee seqno) = Inr signed"
      "sb_prepare lib t (ct_rpc_url c) signed = Inr prepared"
      by (auto simp: build_subscribe_def wrapped_def load_client_keeps Let_def split: if_splits sum.splits)
    then show ?thesis by (intro conjI exI [of _ "subscribe_tx lib (load_client lib c) address plan fee seqno"] exI [of _ signed])
        (simp_all add: subscribe_tx_def load_client_keeps pass)
  qed
  moreover have "\<exists>envelope status settled. sb_from_xdr lib xdr (contract_passphrase lib c) = Inr envelope
         \<and> sb_send lib t (ct_rpc_url c) envelope = Inr (status, tx_hash) \<and> sb_poll lib t (ct_rpc_url c) tx_hash = Inr settled
         \<and> settled \<in> {''GetTransactionStatus.SUCCESS'', ''SUCCESS''}" if "sent = Inr tx_hash" for tx_hash
    using that assms(2)
    by (auto simp: submit_def submit_transaction_def wrapped_def load_client_keeps pass Let_def split: if_splits sum.splits)
  ultimately show ?thesis using b s by blast
qed

text \<open>The instants are made outside the \<^verbatim>\<open>try\<close>: an end past the year 9999, such as the largest \<^verbatim>\<open>u64\<close> a contract would
  store for a subscription that never ends, is not read as an answer but raised as an error.\<close>

theorem endless_subscription_is_not_read:
  "read_value str_of (stored_subscription ''pro'' 1700000000 (2 ^ 64 - 1) 1) = Inl (ValueError ''year is out of range'')"
proof -
  have "is_ascii ''pro''" "\<not> dt_ok (EPOCH + (2 ^ 64 - 1) * 1000000)" "dt_ok (EPOCH + 1700000000 * 1000000)" by code_simp+
  then show ?thesis by (simp add: read_stored fromtimestamp_def Let_def)
qed

section \<open>Examples\<close>

definition sample_soroban :: soroban where
  "sample_soroban = \<lparr>sb_missing = None, sb_public = ''public'', sb_testnet = ''testnet'', sb_str = (\<lambda>_. []),
     sb_invoke = (\<lambda>_ _ _ _ _. Inr (stored_subscription ''pro'' 1700000000 1702592000 2)), sb_load_account = (\<lambda>_ _ _. Inr 7),
     sb_build = Inr, sb_prepare = (\<lambda>_ _ tx. Inr (tx_function tx @ '' '' @ tx_source tx)), sb_from_xdr = (\<lambda>x _. Inr x),
     sb_send = (\<lambda>_ _ _. Inr (''PENDING'', ''cafe'')), sb_poll = (\<lambda>_ _ _. Inr ''SUCCESS'')\<rparr>"

definition sample_subscriber :: string where
  "sample_subscriber = CHR ''G'' # replicate 55 (CHR ''A'')"

lemma sample_subscriber_matches: "ADDRESS_matches sample_subscriber"
  by code_simp

theorem stored_subscription_reads_back_witness:
  "ch_subscription (contract_registry sample_soroban (new_contract ''C1'' ''stellar-testnet'' [] [])) 0 sample_subscriber =
     Inr (Some \<lparr>oc_plan = ''pro'', oc_started = EPOCH + 1700000000 * 1000000, oc_expires = EPOCH + 1702592000 * 1000000, oc_periods = 2\<rparr>)
   \<and> ch_subscription (contract_registry (sample_soroban\<lparr>sb_invoke := \<lambda>_ _ _ _ _. Inr sc_void\<rparr>) (new_contract ''C1'' ''stellar-testnet'' [] [])) 0
       sample_subscriber = Inr None"
proof -
  let ?none = "sample_soroban\<lparr>sb_invoke := \<lambda>_ _ _ _ _. Inr sc_void\<rparr>"
  have pro: "is_ascii ''pro''" by code_simp
  have range: "dt_ok (EPOCH + 1700000000 * 1000000)" "dt_ok (EPOCH + 1702592000 * 1000000)" by code_simp+
  have lib: "sb_missing sample_soroban = None" "sb_missing ?none = None"
    "\<And>client source. sb_invoke sample_soroban 0 client source ''subscription'' [(''address'', sample_subscriber)] =
       Inr (stored_subscription ''pro'' 1700000000 1702592000 2)"
    "\<And>client source. sb_invoke ?none 0 client source ''subscription'' [(''address'', sample_subscriber)] = Inr sc_void"
    by (simp_all add: sample_soroban_def)
  have void: "nothing_stored sc_void" by code_simp
  have given: "if True then stored_subscription ''pro'' 1700000000 1702592000 2 = stored_subscription ''pro'' 1700000000 1702592000 2
      else nothing_stored (stored_subscription ''pro'' 1700000000 1702592000 2)"
    "if False then sc_void = stored_subscription ''pro'' 1700000000 1702592000 2 else nothing_stored sc_void"
    using void by simp_all
  have given_values: "''C1'' \<noteq> []" "''pro'' \<noteq> []" "(1702592000::int) \<noteq> 0" by simp_all
  from stored_subscription_reads_back [OF lib(1) given_values(1) sample_subscriber_matches pro given_values(2,3) range lib(3) given(1) refl]
    stored_subscription_reads_back [OF lib(2) given_values(1) sample_subscriber_matches pro given_values(2,3) range lib(4) given(2) refl]
  show ?thesis by (simp only: if_True if_False simp_thms)
qed

theorem contract_writes_are_exact_witness:
  "fst (build_subscribe sample_soroban 0 sample_subscriber ''pro'' 100 (new_contract ''C1'' ''stellar'' [] [])) = Inr (''subscribe '' @ sample_subscriber)
   \<and> fst (submit sample_soroban 0 ''xdr'' (new_contract ''C1'' ''stellar'' [] [])) = Inr ''cafe''
   \<and> (\<exists>tx. sb_build sample_soroban tx = Inr tx \<and> tx_contract tx = ''C1'' \<and> tx_passphrase tx = ''public'' \<and> tx_timeout tx = 300)"
proof -
  let ?c = "new_contract ''C1'' ''stellar'' [] []"
  have b: "fst (build_subscribe sample_soroban 0 sample_subscriber ''pro'' 100 ?c) = Inr (''subscribe '' @ sample_subscriber)"
    using sample_subscriber_matches
    by (simp add: build_subscribe_def load_client_def new_contract_def sample_soroban_def wrapped_def subscribe_tx_def)
  have s: "fst (submit sample_soroban 0 ''xdr'' ?c) = Inr ''cafe''"
    by (simp add: submit_def submit_transaction_def load_client_def new_contract_def sample_soroban_def)
  have c: "ct_id ?c = ''C1''" "contract_passphrase sample_soroban ?c = ''public''"
    by (simp_all add: new_contract_def contract_passphrase_def sample_soroban_def)
  have built: "sb_build sample_soroban = Inr" by (simp add: sample_soroban_def)
  show ?thesis using contract_writes_are_exact [OF b s] b s unfolding c built by blast
qed

end
