(* ===== verification/Settings.thy ===== *)
theory Settings
  imports Payment_Gate Stellar Orchestration Subscription_Contract
begin

text \<open>
  \<^verbatim>\<open>config/settings.py\<close> and \<^verbatim>\<open>bootstrap.py\<close>: what the settings have to satisfy and what the gateway is built from.

  Reading environment variables is pydantic's; here are the values it read, the constraints the fields declare
  and the validators, in the order they run. A URL is the text pydantic prints it as. The texts of pydantic's own
  errors are left out. Times are integers in some unit, as elsewhere. What the build takes from outside is one
  record (\<open>environment\<close>): the hash that names instances, the hash that seals tokens, Horizon, the SDK, and the disk the
  ledger is opened on, where making the directory, connecting and preparing the tables may each raise.
\<close>

section \<open>Services\<close>

record service_settings =
  st_name :: string
  st_base_url :: "string option"
  st_base_urls :: "string list"
  st_timeout :: int
  st_health_path :: string
  st_read_timeout :: "int option"
  st_headers :: headers

definition is_lower_alnum :: "char \<Rightarrow> bool" where
  "is_lower_alnum c \<longleftrightarrow> is_digit c \<or> (97 \<le> byte c \<and> byte c \<le> 122)"

text \<open>\<^verbatim>\<open>^[a-z0-9][a-z0-9_-]*$\<close> and the token of RFC 9110.\<close>

definition service_name_ok :: "string \<Rightarrow> bool" where
  "service_name_ok s \<longleftrightarrow> s \<noteq> [] \<and> is_lower_alnum (hd s) \<and> list_all (\<lambda>c. is_lower_alnum c \<or> c \<in> set ''_-'') (tl s)"

definition HeaderName_ok :: "string \<Rightarrow> bool" where
  "HeaderName_ok s \<longleftrightarrow> s \<noteq> [] \<and> list_all (\<lambda>c. is_alnum c \<or> c \<in> set (''!#$%&*+.^_`|~-'' @ [char_of (39::nat)])) s"

definition single_line :: "string \<Rightarrow> bool" where
  "single_line s \<longleftrightarrow> s \<noteq> [] \<and> \<not> list_ex (\<lambda>c. c \<in> {char_of (13::nat), char_of (10::nat), char_of (0::nat)}) s"

fun header_values_are_single_line :: "headers \<Rightarrow> exn + unit" where
  "header_values_are_single_line [] = Inr ()"
| "header_values_are_single_line ((name, secret) # hs) =
     (if \<not> single_line secret then Inl (ValueError (''header '' @ in_quotes name @ '' must be a non-empty single line''))
      else header_values_are_single_line hs)"

definition normalized_urls :: "service_settings \<Rightarrow> string list" where
  "normalized_urls s =
     map (\<lambda>u. rev (dropWhile (\<lambda>c. c = CHR ''/'') (rev u)))
       (case st_base_url s of None \<Rightarrow> st_base_urls s | Some u \<Rightarrow> [u])"

definition servers_are_given_once :: "service_settings \<Rightarrow> exn + unit" where
  "servers_are_given_once s =
     (if (st_base_url s = None) = (st_base_urls s = []) then Inl (ValueError (''set exactly one of '' @ in_quotes ''base_url'' @ '' and '' @ in_quotes ''base_urls''))
      else if card (set (normalized_urls s)) \<noteq> length (normalized_urls s) then Inl (ValueError (in_quotes ''base_urls'' @ '' lists the same server twice''))
      else Inr ())"

definition service_fields_ok :: "service_settings \<Rightarrow> bool" where
  "service_fields_ok s \<longleftrightarrow> service_name_ok (st_name s) \<and> 0 < st_timeout s \<and> (case st_read_timeout s of None \<Rightarrow> True | Some t \<Rightarrow> 0 < t)
     \<and> list_all (\<lambda>(name, _). HeaderName_ok name) (st_headers s)"

definition validate_service :: "service_settings \<Rightarrow> exn + unit" where
  "validate_service s =
     (if \<not> service_fields_ok s then Inl (ValueError ''service'')
      else case header_values_are_single_line (st_headers s) of
             Inl e \<Rightarrow> Inl e
           | Inr _ \<Rightarrow> servers_are_given_once s)"

definition to_definition :: "(string \<Rightarrow> string) \<Rightarrow> service_settings \<Rightarrow> exn + service_definition" where
  "to_definition sha256 s =
     new_service sha256 (st_name s) (normalized_urls s) (st_timeout s) (st_health_path s) (st_read_timeout s) (st_headers s)"

section \<open>Orchestration, billing, resilience\<close>

record orchestration_settings =
  og_enabled :: bool
  og_pm_service :: string
  og_backend_service :: string
  og_pm_token :: string
  og_backend_token :: string
  og_locale :: string
  og_console :: bool

record billing_settings =
  bg_enabled :: bool
  bg_network :: string
  bg_allow_mainnet :: bool
  bg_horizon_url :: "string option"
  bg_destination :: string
  bg_asset :: string
  bg_usdc_issuer :: string
  bg_xlm_usd :: string
  bg_secret :: string
  bg_database :: string
  bg_reserve_tokens :: int
  bg_x402 :: bool
  bg_x402_price_usd :: string
  bg_contract_id :: string
  bg_rpc_url :: "string option"
  bg_facilitator :: bool

definition billing_fields_ok :: "billing_settings \<Rightarrow> bool" where
  "billing_fields_ok b \<longleftrightarrow> bg_network b \<in> {''testnet'', ''public''} \<and> bg_asset b \<in> {''XLM'', ''USDC''} \<and> 0 < bg_reserve_tokens b"

definition mainnet_is_deliberate :: "billing_settings \<Rightarrow> exn + unit" where
  "mainnet_is_deliberate b =
     (if bg_network b = ''public'' \<and> \<not> bg_allow_mainnet b
      then Inl (ValueError (''GATEWAY_BILLING__NETWORK=public moves real money. Set ''
             @ ''GATEWAY_BILLING__ALLOW_MAINNET=true as well to confirm that is intended.''))
      else Inr ())"

definition sellable :: "billing_settings \<Rightarrow> exn + unit" where
  "sellable b =
     (if \<not> bg_enabled b then Inr ()
      else if bg_secret b = []
        then Inl (ValueError (''billing is on but GATEWAY_BILLING__SECRET is empty: session tokens would be forgeable by anyone''))
      else if bg_contract_id b \<noteq> [] \<and> \<not> starts_with ''C'' (bg_contract_id b)
        then Inl (ValueError ''GATEWAY_BILLING__CONTRACT_ID is not a Soroban contract id (they start with C)'')
      else if bg_asset b = ''USDC'' \<and> bg_usdc_issuer b = []
        then Inl (ValueError (''asset USDC needs GATEWAY_BILLING__USDC_ISSUER: an asset code without an issuer is not an asset''))
      else Inr ())"

definition validate_billing :: "billing_settings \<Rightarrow> exn + unit" where
  "validate_billing b =
     (if \<not> billing_fields_ok b then Inl (ValueError ''billing'')
      else case mainnet_is_deliberate b of Inl e \<Rightarrow> Inl e | Inr _ \<Rightarrow> sellable b)"

record retry_settings =
  rt_max_attempts :: int
  rt_base_delay :: int
  rt_max_delay :: int
  rt_retry_on_status :: "int set"

record breaker_settings =
  bk_failure_threshold :: int
  bk_recovery_timeout :: int
  bk_failure_status_codes :: "int set"

record settings =
  se_port :: int
  se_log_level :: string
  se_max_connections :: int
  se_services :: "service_settings list"
  se_orchestration :: orchestration_settings
  se_billing :: billing_settings
  se_retry :: retry_settings
  se_circuit_breaker :: breaker_settings

definition settings_fields_ok :: "settings \<Rightarrow> bool" where
  "settings_fields_ok s \<longleftrightarrow> 0 < se_port s \<and> 0 < se_max_connections s
     \<and> se_log_level s \<in> {''DEBUG'', ''INFO'', ''WARNING'', ''ERROR'', ''CRITICAL''}
     \<and> 0 < rt_max_attempts (se_retry s) \<and> 0 \<le> rt_base_delay (se_retry s) \<and> 0 \<le> rt_max_delay (se_retry s)
     \<and> 0 < bk_failure_threshold (se_circuit_breaker s) \<and> 0 < bk_recovery_timeout (se_circuit_breaker s)"

text \<open>Every step, or the first error.\<close>

fun each :: "('a \<Rightarrow> exn + 'b) \<Rightarrow> 'a list \<Rightarrow> exn + 'b list" where
  "each f [] = Inr []"
| "each f (x # xs) =
     (case f x of Inl e \<Rightarrow> Inl e | Inr y \<Rightarrow> (case each f xs of Inl e \<Rightarrow> Inl e | Inr ys \<Rightarrow> Inr (y # ys)))"

definition validate_settings :: "settings \<Rightarrow> exn + unit" where
  "validate_settings s =
     (case each validate_service (se_services s) of
        Inl e \<Rightarrow> Inl e
      | Inr _ \<Rightarrow>
          (case validate_billing (se_billing s) of
             Inl e \<Rightarrow> Inl e
           | Inr _ \<Rightarrow> if settings_fields_ok s then Inr () else Inl (ValueError ''settings'')))"

definition service_definitions :: "(string \<Rightarrow> string) \<Rightarrow> settings \<Rightarrow> exn + service_definition list" where
  "service_definitions sha256 s = each (to_definition sha256) (se_services s)"

section \<open>The composition root\<close>

record disk =
  dk_mkdir :: "string \<Rightarrow> exn option"
  dk_connect :: "string \<Rightarrow> exn option"
  dk_prepare :: "string \<Rightarrow> exn option"

definition MEMORY :: string where "MEMORY = '':memory:''"

text \<open>\<^verbatim>\<open>SqliteBillingStore(path)\<close>: the directory of a ledger on disk is made, the database is opened, its pragmas are set
  and its tables created if they are not there.\<close>

definition open_store :: "disk \<Rightarrow> string \<Rightarrow> exn + string" where
  "open_store disk path =
     (case (if path \<noteq> MEMORY then dk_mkdir disk path else None) of
        Some e \<Rightarrow> Inl e
      | None \<Rightarrow>
          (case dk_connect disk path of
             Some e \<Rightarrow> Inl e
           | None \<Rightarrow> (case dk_prepare disk path of Some e \<Rightarrow> Inl e | None \<Rightarrow> Inr path)))"

record environment =
  ev_disk :: disk
  ev_sha256 :: "string \<Rightarrow> string"
  ev_hmac :: "string \<Rightarrow> string \<Rightarrow> string"
  ev_keypair :: "keypair option"
  ev_horizon :: horizon
  ev_sdk :: "sdk option"
  ev_soroban :: soroban
  ev_codecs :: codecs
  ev_arrives :: "upstream_outcome \<Rightarrow> string list \<times> exn option"

record gateway = container +
  gt_registry :: registry
  gt_send :: "unit client"
  gt_stream :: "unit client"
  gt_health :: "unit client"
  gt_orchestrator :: "orchestrator option"
  gt_store :: "string option"

definition stellar_config_of :: "billing_settings \<Rightarrow> stellar_config" where
  "stellar_config_of b =
     \<lparr>sc_network = bg_network b, sc_horizon_url = (case bg_horizon_url b of Some u \<Rightarrow> u | None \<Rightarrow> []),
      sc_destination = bg_destination b, sc_asset = bg_asset b, sc_usdc_issuer = bg_usdc_issuer b, sc_xlm_usd = bg_xlm_usd b\<rparr>"

definition chain_of :: "environment \<Rightarrow> billing_settings \<Rightarrow> x402_network \<Rightarrow> chain_registry" where
  "chain_of env b network =
     (if bg_contract_id b \<noteq> []
      then contract_registry (ev_soroban env)
             (new_contract (bg_contract_id b) (net_network network) (bg_destination b) (case bg_rpc_url b of Some u \<Rightarrow> u | None \<Rightarrow> []))
      else no_subscriptions)"

definition build_billing ::
  "environment \<Rightarrow> billing_settings \<Rightarrow> exn + billing_service option \<times> identity_service option \<times> x402_service option \<times> string option" where
  "build_billing env b =
     (if \<not> bg_enabled b then Inr (None, None, None, None)
      else
        (case open_store (ev_disk env) (bg_database b) of
           Inl e \<Rightarrow> Inl e
         | Inr store \<Rightarrow>
             let network = stellar_network (stellar_config_of b) (ev_horizon env) (ev_sdk env);
                 billing = \<lparr>bs_network = payment_network.truncate network, bs_catalog = default_catalog default_pricing, bs_asset = bg_asset b,
                   bs_reserve = bg_reserve_tokens b, bs_chain = chain_of env b network\<rparr>
             in case new_identity (signatures_available (ev_keypair env)) (signatures_verify (ev_keypair env)) (ev_hmac env) (ev_codecs env)
                       (bg_secret b) ''codezard'' SESSION_TTL_S of
                  Inl e \<Rightarrow> Inl e
                | Inr identity \<Rightarrow>
                    if \<not> bg_x402 b then Inr (Some billing, Some identity, None, Some store)
                    else
                      (case money_parse (repr_str (bg_x402_price_usd b)) (bg_x402_price_usd b) of
                         Inl e \<Rightarrow> Inl e
                       | Inr price \<Rightarrow>
                           Inr (Some billing, Some identity,
                                Some \<lparr>xs_billing = billing, xs_network = network, xs_price = price, xs_resource = ''/runs'',
                                  xs_codecs = ev_codecs env\<rparr>,
                                Some store))))"

lemma open_store_same: "open_store disk path = Inr store \<Longrightarrow> store = path"
  by (auto simp: open_store_def split: option.splits)

definition build_orchestrator ::
  "environment \<Rightarrow> orchestration_settings \<Rightarrow> registry \<Rightarrow> unit client \<Rightarrow> unit client \<Rightarrow> billing_service option \<Rightarrow> orchestrator option" where
  "build_orchestrator env og registry send stream meter =
     (if og_enabled og
      then Some \<lparr>or_registry = registry, or_send = send, or_stream = stream, or_arrives = ev_arrives env, or_pm_service = og_pm_service og,
             or_backend_service = og_backend_service og, or_pm_token = og_pm_token og, or_backend_token = og_backend_token og,
             or_locale = og_locale og, or_console = og_console og, or_meter = meter, or_codecs = ev_codecs env\<rparr>
      else None)"

definition build_container :: "environment \<Rightarrow> settings \<Rightarrow> exn + gateway" where
  "build_container env s =
     (case service_definitions (ev_sha256 env) s of
        Inl e \<Rightarrow> Inl e
      | Inr definitions \<Rightarrow>
          (case registry_of [] definitions of
             Inl e \<Rightarrow> Inl e
           | Inr registry \<Rightarrow>
               (case new_retry_policy (rt_max_attempts (se_retry s)) (rt_base_delay (se_retry s)) (rt_max_delay (se_retry s))
                       (rt_retry_on_status (se_retry s)) of
                  Inl e \<Rightarrow> Inl e
                | Inr policy \<Rightarrow>
                    let breaker = se_circuit_breaker s;
                        factory = new_breaker (bk_failure_threshold breaker) (bk_recovery_timeout breaker);
                        send = resilient_client factory (bk_failure_status_codes breaker) policy httpx_send;
                        stream = resilient_client factory (bk_failure_status_codes breaker) policy httpx_stream
                    in (case build_billing env (se_billing s) of
                          Inl e \<Rightarrow> Inl e
                        | Inr (billing, identity, x402, store) \<Rightarrow>
                            Inr \<lparr>cn_billing = billing, cn_identity = identity, cn_x402 = x402, gt_registry = registry, gt_send = send,
                                 gt_stream = stream, gt_health = httpx_send,
                                 gt_orchestrator = build_orchestrator env (se_orchestration s) registry send stream billing,
                                 gt_store = store\<rparr>))))"

section \<open>What validated settings give\<close>

lemma each_Inr: "each f xs = Inr ys \<Longrightarrow> list_all2 (\<lambda>x y. f x = Inr y) xs ys"
  by (induction xs arbitrary: ys) (auto split: sum.splits)

lemma each_all: "each f xs = Inr ys \<Longrightarrow> x \<in> set xs \<Longrightarrow> \<exists>y. f x = Inr y"
  by (induction xs arbitrary: ys) (auto split: sum.splits)

lemma each_Inl: "each f xs = Inl e \<Longrightarrow> \<exists>x \<in> set xs. f x = Inl e"
  by (induction xs) (auto split: sum.splits)

lemma each_members:
  assumes "each f xs = Inr ys" "y \<in> set ys"
  shows "\<exists>x \<in> set xs. f x = Inr y"
proof -
  from assms(1) have "list_all2 (\<lambda>x y. f x = Inr y) xs ys" by (rule each_Inr)
  moreover from assms(2) obtain k where "k < length ys" "y = ys ! k" by (auto simp: in_set_conv_nth)
  ultimately have "k < length xs" "f (xs ! k) = Inr y" by (auto simp: list_all2_conv_all_nth)
  then show ?thesis by (meson nth_mem)
qed

text \<open>A service that was validated: an unpinnable name, headers that cannot break a line.\<close>

definition well_formed_service :: "service_definition \<Rightarrow> bool" where
  "well_formed_service d \<longleftrightarrow> service_name_ok (sd_name d) \<and> CHR ''@'' \<notin> set (sd_name d) \<and> sd_instances d \<noteq> []
     \<and> distinct (map si_id (sd_instances d)) \<and> 0 < sd_timeout d \<and> 0 < read_timeout d
     \<and> list_all (\<lambda>(name, v). HeaderName_ok name \<and> single_line v) (sd_headers d)"

lemma service_name_no_at: "service_name_ok s \<Longrightarrow> CHR ''@'' \<notin> set s"
proof
  assume ok: "service_name_ok s" and at: "CHR ''@'' \<in> set s"
  then obtain c cs where s: "s = c # cs" by (cases s) auto
  have "\<not> is_lower_alnum (CHR ''@'')" by code_simp
  with ok at s show False by (auto simp: service_name_ok_def list_all_iff)
qed

lemma single_lines: "header_values_are_single_line hs = Inr () \<Longrightarrow> list_all (\<lambda>(_, v). single_line v) hs"
  by (induction hs rule: header_values_are_single_line.induct) (auto split: if_splits)

lemma validated_service:
  assumes "validate_service s = Inr ()" "to_definition sha256 s = Inr d"
  shows "well_formed_service d"
proof -
  from assms(1) have ok: "service_fields_ok s" "header_values_are_single_line (st_headers s) = Inr ()"
    by (auto simp: validate_service_def split: if_splits sum.splits)
  from assms(2) have d: "sd_name d = st_name s" "sd_timeout d = st_timeout s" "sd_read_timeout d = st_read_timeout s"
    "sd_headers d = st_headers s" "sd_instances d \<noteq> []" "card (set (map si_id (sd_instances d))) = length (sd_instances d)"
    by (auto simp: to_definition_def new_service_def Let_def image_image split: if_splits)
  have "distinct (map si_id (sd_instances d))" using d(6) by (simp add: card_distinct)
  with d(1-5) ok single_lines [OF ok(2)] service_name_no_at show ?thesis
    by (auto simp: well_formed_service_def service_fields_ok_def read_timeout_def list_all_iff split: option.splits)
qed

lemma built_parts:
  assumes "build_container env s = Inr g"
  obtains definitions policy where "service_definitions (ev_sha256 env) s = Inr definitions"
    "registry_of [] definitions = Inr (gt_registry g)"
    "build_billing env (se_billing s) = Inr (cn_billing g, cn_identity g, cn_x402 g, gt_store g)"
    "gt_orchestrator g = build_orchestrator env (se_orchestration s) (gt_registry g) (gt_send g) (gt_stream g) (cn_billing g)"
    "gt_stream g = resilient_client (new_breaker (bk_failure_threshold (se_circuit_breaker s)) (bk_recovery_timeout (se_circuit_breaker s)))
       (bk_failure_status_codes (se_circuit_breaker s)) policy httpx_stream"
  using assms by (auto simp: build_container_def Let_def split: sum.splits prod.splits)

lemma billing_built:
  assumes "build_billing env b = Inr (billing', identity', x402, store)" "bg_enabled b"
  shows "\<exists>billing identity. billing' = Some billing \<and> identity' = Some identity \<and> store = Some (bg_database b)
    \<and> id_mac identity = ev_hmac env (bg_secret b) \<and> net_network (bs_network billing) = ns_x402 (NETWORKS (bg_network b))
    \<and> bs_asset billing = bg_asset b \<and> bs_reserve billing = bg_reserve_tokens b
    \<and> (if bg_x402 b then \<exists>xs. x402 = Some xs \<and> xs_billing xs = billing else x402 = None)"
  using assms open_store_same
  by (auto simp: build_billing_def new_identity_def Let_def stellar_network_def payment_network.defs stellar_config_of_def
      split: if_splits sum.splits)

text \<open>C15. Settings that validate give a registry the rest of the gateway can rely on: every service in it is under its own
  name, which has no \<^verbatim>\<open>@\<close> in it, so a pinned name is read one way; it has at least one instance and no two with one
  id; its timeouts are positive; and no configured header has a name that is not a token or a value that
  is empty or breaks the line.\<close>

theorem configured_services_are_well_formed:
  assumes "validate_settings s = Inr ()" "build_container env s = Inr g" "registry_get (gt_registry g) name = Inr d"
  shows "sd_name d = name \<and> well_formed_service d"
proof -
  from assms(2) obtain definitions where defs: "service_definitions (ev_sha256 env) s = Inr definitions"
    "registry_of [] definitions = Inr (gt_registry g)" by (rule built_parts)
  note config = registry_is_the_configuration [OF defs(2)]
  with assms(3) have "name \<in> set (map sd_name definitions)" by (cases "name \<in> set (map sd_name definitions)") auto
  then obtain d' where "d' \<in> set definitions" "sd_name d' = name" by auto
  with config assms(3) have d: "d \<in> set definitions" "sd_name d = name" by auto
  from each_members [OF defs(1) [unfolded service_definitions_def] d(1)] obtain x where x: "x \<in> set (se_services s)"
    "to_definition (ev_sha256 env) x = Inr d" by blast
  from assms(1) obtain us where "each validate_service (se_services s) = Inr us"
    by (auto simp: validate_settings_def split: sum.splits)
  with each_all x(1) have "validate_service x = Inr ()" by fastforce
  with validated_service [OF _ x(2)] d(2) show ?thesis by simp
qed

text \<open>C16. Billing is all there or not there: with billing on, the service, the identity and the ledger exist together, x402
  when it is asked for, over the same service; with billing off none of them does. The runs are metered by that very
  service. Tokens are sealed with a secret that is not empty. Real money moves only where both switches say so,
  and the asset USDC has an issuer.\<close>

theorem billing_is_whole_and_deliberate:
  assumes "validate_settings s = Inr ()" "build_container env s = Inr g" "b = se_billing s"
  shows "(cn_billing g \<noteq> None \<longleftrightarrow> bg_enabled b) \<and> (cn_identity g \<noteq> None \<longleftrightarrow> bg_enabled b) \<and> (gt_store g \<noteq> None \<longleftrightarrow> bg_enabled b)
    \<and> (cn_x402 g \<noteq> None \<longleftrightarrow> bg_enabled b \<and> bg_x402 b)
    \<and> (\<forall>xs. cn_x402 g = Some xs \<longrightarrow> cn_billing g = Some (xs_billing xs))
    \<and> (\<forall>orc. gt_orchestrator g = Some orc \<longrightarrow> or_meter orc = cn_billing g)
    \<and> (\<forall>svc. cn_identity g = Some svc \<longrightarrow> bg_secret b \<noteq> [] \<and> id_mac svc = ev_hmac env (bg_secret b))
    \<and> (\<forall>bs. cn_billing g = Some bs \<longrightarrow> (net_network (bs_network bs) = ''stellar'' \<longrightarrow> bg_allow_mainnet b)
         \<and> (bs_asset bs = ''USDC'' \<longrightarrow> bg_usdc_issuer b \<noteq> []) \<and> 0 < bs_reserve bs)"
proof -
  from assms(2) have parts: "build_billing env b = Inr (cn_billing g, cn_identity g, cn_x402 g, gt_store g)"
    "gt_orchestrator g = build_orchestrator env (se_orchestration s) (gt_registry g) (gt_send g) (gt_stream g) (cn_billing g)"
    unfolding assms(3) by (auto elim: built_parts)
  from assms(1,3) have valid: "billing_fields_ok b" "mainnet_is_deliberate b = Inr ()" "sellable b = Inr ()"
    by (auto simp: validate_settings_def validate_billing_def split: sum.splits if_splits)
  have orc: "\<forall>orc. gt_orchestrator g = Some orc \<longrightarrow> or_meter orc = cn_billing g"
    using parts(2) by (auto simp: build_orchestrator_def split: if_splits)
  show ?thesis
  proof (cases "bg_enabled b")
    case False
    with parts(1) orc show ?thesis by (simp add: build_billing_def)
  next
    case True
    from True valid(3) have secret: "bg_secret b \<noteq> []" "bg_asset b = ''USDC'' \<longrightarrow> bg_usdc_issuer b \<noteq> []"
      by (auto simp: sellable_def split: if_splits)
    have main: "ns_x402 (NETWORKS (bg_network b)) = ''stellar'' \<longrightarrow> bg_allow_mainnet b"
      using valid(2) by (auto simp: mainnet_is_deliberate_def NETWORKS_def split: if_splits)
    from billing_built [OF parts(1) True] obtain billing identity where
      bs: "cn_billing g = Some billing" "cn_identity g = Some identity" "gt_store g = Some (bg_database b)"
        "id_mac identity = ev_hmac env (bg_secret b)" "net_network (bs_network billing) = ns_x402 (NETWORKS (bg_network b))"
        "bs_asset billing = bg_asset b" "bs_reserve billing = bg_reserve_tokens b"
        "if bg_x402 b then \<exists>xs. cn_x402 g = Some xs \<and> xs_billing xs = billing else cn_x402 g = None" by blast
    from valid(1) have "0 < bg_reserve_tokens b" by (simp add: billing_fields_ok_def)
    with bs True secret main orc show ?thesis by (auto split: if_splits)
  qed
qed

section \<open>What can still stop the start\<close>

lemma registry_of_error: "registry_of d ss = Inl e \<Longrightarrow> \<exists>n. e = DuplicateServiceError n"
  by (induction d ss rule: registry_of.induct) (auto split: if_splits)

lemma validated_definition_error:
  assumes "validate_service s = Inr ()" "to_definition sha256 s = Inl e"
  shows "distinct (normalized_urls s) \<and> \<not> distinct (map (\<lambda>u. take 8 (sha256 u)) (normalized_urls s))"
proof -
  from assms(1) have once: "servers_are_given_once s = Inr ()"
    by (auto simp: validate_service_def split: if_splits sum.splits)
  then have urls: "normalized_urls s \<noteq> []" "distinct (normalized_urls s)"
    by (auto simp: servers_are_given_once_def normalized_urls_def card_distinct split: if_splits option.splits)
  have ids: "map si_id (map (new_instance sha256) us) = map (\<lambda>u. take 8 (sha256 u)) us" for us
    by (simp add: new_instance_def)
  have "\<not> distinct (map si_id (map (new_instance sha256) (normalized_urls s)))"
  proof
    assume "distinct (map si_id (map (new_instance sha256) (normalized_urls s)))"
    from distinct_card [OF this] assms(2) urls(1) show False
      by (simp add: to_definition_def new_service_def Let_def split: if_splits)
  qed
  with urls(2) show ?thesis unfolding ids by simp
qed


section \<open>Examples\<close>

definition sample_service_settings :: service_settings where
  "sample_service_settings = \<lparr>st_name = ''mirag'', st_base_url = None, st_base_urls = [''http://a/'', ''http://b''], st_timeout = 5,
     st_health_path = ''/health'', st_read_timeout = Some 60, st_headers = [(''X-Token'', ''s3cret'')]\<rparr>"

definition sample_billing_settings :: billing_settings where
  "sample_billing_settings = \<lparr>bg_enabled = True, bg_network = ''testnet'', bg_allow_mainnet = False, bg_horizon_url = None,
     bg_destination = ''G'', bg_asset = ''XLM'', bg_usdc_issuer = [], bg_xlm_usd = ''0.1'', bg_secret = ''s'', bg_database = ''db'',
     bg_reserve_tokens = 50000, bg_x402 = False, bg_x402_price_usd = ''0.50'', bg_contract_id = [], bg_rpc_url = None, bg_facilitator = False\<rparr>"

definition sample_settings :: settings where
  "sample_settings = \<lparr>se_port = 8000, se_log_level = ''INFO'', se_max_connections = 100, se_services = [sample_service_settings],
     se_orchestration = \<lparr>og_enabled = True, og_pm_service = ''mirag'', og_backend_service = ''mirag'', og_pm_token = [],
       og_backend_token = [], og_locale = ''es'', og_console = False\<rparr>,
     se_billing = sample_billing_settings,
     se_retry = \<lparr>rt_max_attempts = 3, rt_base_delay = 100, rt_max_delay = 2000, rt_retry_on_status = {502, 503, 504}\<rparr>,
     se_circuit_breaker = \<lparr>bk_failure_threshold = 5, bk_recovery_timeout = 30, bk_failure_status_codes = {502, 503, 504}\<rparr>\<rparr>"

definition sample_environment :: environment where
  "sample_environment = \<lparr>ev_disk = \<lparr>dk_mkdir = \<lambda>_. None, dk_connect = \<lambda>_. None, dk_prepare = \<lambda>_. None\<rparr>, ev_sha256 = (\<lambda>u. u), ev_hmac = (\<lambda>k m. k @ m), ev_keypair = None,
     ev_horizon = \<lparr>hz_get = \<lambda>_ _ _. Unreachable, hz_post = \<lambda>_ _ _. Unreachable, hz_time = \<lambda>_ _. 0\<rparr>, ev_sdk = None,
     ev_soroban = sample_soroban, ev_codecs = scan_codecs, ev_arrives = \<lambda>_. ([], None)\<rparr>"

lemma sample_opens: "open_store (ev_disk sample_environment) path = Inr path"
  by (simp add: open_store_def sample_environment_def)

lemma sample_service_valid: "validate_service sample_service_settings = Inr ()"
  by code_simp

lemma sample_settings_valid: "validate_settings sample_settings = Inr ()"
  using sample_service_valid
  by (simp add: validate_settings_def sample_settings_def validate_billing_def sample_billing_settings_def billing_fields_ok_def
      mainnet_is_deliberate_def sellable_def settings_fields_ok_def)

lemma sample_definition: "to_definition (ev_sha256 sample_environment) sample_service_settings =
    Inr \<lparr>sd_name = ''mirag'', sd_base_urls = [''http://a'', ''http://b''], sd_timeout = 5, sd_health_path = ''/health'',
      sd_read_timeout = Some 60, sd_headers = [(''X-Token'', ''s3cret'')],
      sd_instances = [\<lparr>si_base_url = ''http://a'', si_id = ''http://a''\<rparr>, \<lparr>si_base_url = ''http://b'', si_id = ''http://b''\<rparr>]\<rparr>"
  by (simp add: to_definition_def new_service_def sample_service_settings_def sample_environment_def normalized_urls_def new_instance_def)

lemma sample_builds: "\<exists>g d. build_container sample_environment sample_settings = Inr g
    \<and> registry_get (gt_registry g) ''mirag'' = Inr d"
proof -
  have services: "se_services sample_settings = [sample_service_settings]" by (simp add: sample_settings_def)
  obtain b i x st where billing: "build_billing sample_environment (se_billing sample_settings) = Inr (b, i, x, st)"
    by (simp add: build_billing_def sample_settings_def sample_billing_settings_def new_identity_def Let_def sample_opens)
  obtain p where "new_retry_policy (rt_max_attempts (se_retry sample_settings)) (rt_base_delay (se_retry sample_settings))
      (rt_max_delay (se_retry sample_settings)) (rt_retry_on_status (se_retry sample_settings)) = Inr p"
    by (simp add: new_retry_policy_def sample_settings_def)
  with billing show ?thesis
    unfolding build_container_def service_definitions_def services by (simp add: sample_definition registry_get_def Let_def)
qed

theorem configured_services_are_well_formed_witness:
  "\<exists>g d. build_container sample_environment sample_settings = Inr g \<and> registry_get (gt_registry g) ''mirag'' = Inr d \<and> well_formed_service d"
  using sample_builds configured_services_are_well_formed [OF sample_settings_valid] by blast

theorem billing_is_whole_and_deliberate_witness:
  "\<exists>g. build_container sample_environment sample_settings = Inr g \<and> cn_billing g \<noteq> None \<and> cn_identity g \<noteq> None \<and> cn_x402 g = None
     \<and> gt_store g \<noteq> None"
proof -
  have "bg_enabled (se_billing sample_settings)" "\<not> bg_x402 (se_billing sample_settings)"
    by (simp_all add: sample_settings_def sample_billing_settings_def)
  with sample_builds billing_is_whole_and_deliberate [OF sample_settings_valid _ refl] show ?thesis by blast
qed

definition unpriced_settings :: settings where
  "unpriced_settings = sample_settings\<lparr>se_billing := sample_billing_settings\<lparr>bg_x402 := True, bg_x402_price_usd := ''free''\<rparr>\<rparr>"


end
