(* ===== verification/Presentation.thy ===== *)
theory Presentation
  imports Billing_Service Runs
begin

text \<open>
  The documents the screens read: the \<^verbatim>\<open>as_json\<close> of \<^verbatim>\<open>domain/billing.py\<close>, \<^verbatim>\<open>domain/runs.py\<close> and
  \<^verbatim>\<open>application/billing_service.py\<close>. A dictionary keeps the order its literal is written in.
\<close>

section \<open>Billing\<close>

definition money_json :: "money \<Rightarrow> json" where
  "money_json m = JObj [(''micros'', JInt (micros m)), (''usd'', JStr (money_str m))]"

definition plan_json :: "plan \<Rightarrow> json" where
  "plan_json p =
     JObj [(''id'', JStr (plan_id p)), (''kind'', JStr ''plan''), (''name'', JStr (plan_name p)), (''price'', money_json (plan_price p)),
           (''tokens'', JInt (plan_tokens p)), (''cadence'', JStr (cadence_value (plan_cadence p))),
           (''period_days'', JInt (plan_period p div td_days 1)), (''free'', JBool (plan_is_free p)),
           (''description'', JStr (plan_description p)), (''overage'', JBool (plan_overage p))]"

definition pack_json :: "pack \<Rightarrow> json" where
  "pack_json p =
     JObj [(''id'', JStr (pack_id p)), (''kind'', JStr ''pack''), (''name'', JStr (pack_name p)), (''price'', money_json (pack_price p)),
           (''tokens'', JInt (pack_tokens p)), (''description'', JStr (pack_description p))]"

definition pricing_json :: "pricing \<Rightarrow> json" where
  "pricing_json p =
     JObj [(''per_million'', money_json (per_million p)), (''margin_bps'', JInt (margin_bps p)),
           (''minimum_charge'', JInt (minimum_charge p))]"

definition catalog_members :: "catalog \<Rightarrow> (string \<times> json) list" where
  "catalog_members c =
     [(''plans'', JList (map plan_json (cat_plans c))), (''packs'', JList (map pack_json (cat_packs c))),
      (''pricing'', pricing_json (cat_pricing c))]"

definition usage_json :: "usage \<Rightarrow> json" where
  "usage_json u =
     JObj [(''tokens'', JInt (use_tokens u)), (''calls'', JInt (use_calls u)), (''cost'', money_json (use_cost u)),
           (''simulated'', JBool (use_simulated u))]"

definition entry_json :: "ledger_entry \<Rightarrow> json" where
  "entry_json e =
     JObj [(''id'', JStr (le_id e)), (''kind'', JStr (entry_kind_value (le_kind e))), (''tokens'', JInt (le_tokens e)),
           (''at'', JStr (isoformat (le_at e))), (''amount'', money_json (le_amount e)), (''reference'', JStr (le_reference e)),
           (''memo'', JStr (le_memo e))]"

definition balance_json :: "balance \<Rightarrow> json" where
  "balance_json b =
     JObj [(''account'', JStr (bal_account b)), (''granted'', JInt (bal_granted b)), (''purchased'', JInt (bal_purchased b)),
           (''total'', JInt (bal_total b))]"

definition subscription_json :: "subscription \<Rightarrow> json" where
  "subscription_json s =
     JObj [(''account'', JStr (sub_account s)), (''plan'', JStr (sub_plan_id s)), (''status'', JStr (subscription_status_value (sub_status s))),
           (''started_at'', JStr (isoformat (sub_started_at s))), (''renews_at'', JStr (isoformat (sub_renews_at s)))]"

definition invoice_json :: "invoice \<Rightarrow> json" where
  "invoice_json i =
     JObj [(''id'', JStr (inv_id i)), (''account'', JStr (inv_account i)), (''sku'', JStr (inv_sku i)), (''kind'', JStr (inv_kind i)),
           (''tokens'', JInt (inv_tokens i)), (''price'', money_json (inv_price i)), (''asset'', JStr (inv_asset i)),
           (''amount'', JStr (inv_amount i)), (''destination'', JStr (inv_destination i)), (''memo'', JStr (inv_memo i)),
           (''status'', JStr (invoice_status_value (inv_status i))), (''created_at'', JStr (isoformat (inv_created_at i))),
           (''expires_at'', JStr (isoformat (inv_expires_at i))), (''tx_hash'', JStr (inv_tx_hash i))]"

definition summary_json :: "usage_summary \<Rightarrow> json" where
  "summary_json u =
     JObj [(''tokens'', JInt (sum_tokens u)), (''runs'', JInt (sum_runs u)), (''cost'', money_json (sum_cost u)),
           (''since'', case sum_since u of None \<Rightarrow> JNull | Some t \<Rightarrow> JStr (isoformat t))]"

definition view_json :: "account_view \<Rightarrow> json" where
  "view_json v =
     JObj [(''account'', JStr (av_account v)), (''balance'', balance_json (av_balance v)),
           (''subscription'', case av_subscription v of None \<Rightarrow> JNull | Some s \<Rightarrow> subscription_json s),
           (''plan'', case av_plan v of None \<Rightarrow> JNull | Some p \<Rightarrow> plan_json p), (''usage'', summary_json (av_usage v)),
           (''lifetime'', summary_json (av_lifetime v)), (''entries'', JList (map entry_json (av_entries v)))]"

definition onchain_json :: "onchain \<Rightarrow> json" where
  "onchain_json s =
     JObj [(''plan'', JStr (oc_plan s)), (''started'', JStr (isoformat (oc_started s))), (''expires'', JStr (isoformat (oc_expires s))),
           (''periods'', JInt (oc_periods s))]"

definition offer_json :: "subscribe_offer \<Rightarrow> json" where
  "offer_json o1 =
     JObj [(''plan'', plan_json (so_plan o1)), (''contract'', JStr (so_contract o1)), (''network'', JStr (so_network o1)),
           (''xdr'', JStr (so_xdr o1))]"

section \<open>Runs\<close>

definition run_json :: "run \<Rightarrow> json" where
  "run_json r =
     JObj [(''runId'', JStr (run_id r)), (''state'', JStr (run_state_value (run_st r))), (''idea'', JStr (run_idea r)),
           (''summary'', JStr (run_summary r)), (''questionnaire'', case run_questionnaire r of None \<Rightarrow> JNull | Some q \<Rightarrow> q),
           (''plan'', case run_plan r of None \<Rightarrow> JNull | Some p \<Rightarrow> p),
           (''answers'', JList (map (\<lambda>a. JObj [(''questionId'', JStr (ans_question_id a)), (''value'', JStr (ans_value a))]) (run_answers r))),
           (''round'', JInt (run_rounds r)), (''maxRounds'', JInt MAX_ROUNDS), (''artifactId'', JStr (run_artifact_id r)),
           (''error'', JStr (run_error r)), (''account'', JStr (run_account r)), (''charged'', JInt (run_charged r))]"

section \<open>Nothing is lost\<close>

text \<open>What a reader of the documents can recover.\<close>

definition shown_money :: "json \<Rightarrow> money option" where
  "shown_money v = (case obj_get ''micros'' v of JInt i \<Rightarrow> Some (Money i) | _ \<Rightarrow> None)"

definition shown_kind :: "string \<Rightarrow> entry_kind option" where
  "shown_kind s = find (\<lambda>k. entry_kind_value k = s) [GRANT, PURCHASE, USAGE, REFUND, ADJUSTMENT, EXPIRY]"

definition shown_entry :: "string \<Rightarrow> json \<Rightarrow> ledger_entry option" where
  "shown_entry account v =
     (case (obj_get ''tokens'' v, fromisoformat (str_or_empty (obj_get ''at'' v)), shown_kind (str_or_empty (obj_get ''kind'' v)),
            shown_money (obj_get ''amount'' v)) of
        (JInt tokens, Some at, Some kind, Some amount) \<Rightarrow>
          Some \<lparr>le_id = str_or_empty (obj_get ''id'' v), le_account = account, le_kind = kind, le_tokens = tokens, le_at = at,
                le_amount = amount, le_reference = str_or_empty (obj_get ''reference'' v), le_memo = str_or_empty (obj_get ''memo'' v)\<rparr>
      | _ \<Rightarrow> None)"

lemma shown_kind_value: "shown_kind (entry_kind_value k) = Some k"
  by (cases k) (simp_all add: shown_kind_def)

lemma shown_money_json: "shown_money (money_json m) = Some m"
  by (cases m) (simp add: shown_money_def money_json_def)

lemma str_or_empty_str: "str_or_empty (JStr s) = s"
  by (cases s) (simp_all add: str_or_empty_def)

text \<open>The history an account is shown is its history: with the account it belongs to, the document of a movement
  determines the movement, to the microsecond and the millionth.\<close>

theorem entry_document_reads_back:
  assumes "dt_ok (le_at e)"
  shows "shown_entry (le_account e) (entry_json e) = Some e"
  using fromisoformat_isoformat [OF assms]
  by (simp add: shown_entry_def entry_json_def str_or_empty_str shown_kind_value shown_money_json)

definition sample_movement :: ledger_entry where
  "sample_movement = \<lparr>le_id = ''e1'', le_account = ''G'', le_kind = USAGE, le_tokens = - 1200, le_at = EPOCH, le_amount = Money 5,
     le_reference = ''run:ab'', le_memo = ''generation''\<rparr>"

theorem entry_document_reads_back_witness:
  "shown_entry ''G'' (entry_json sample_movement) = Some sample_movement"
proof -
  have "dt_ok (le_at sample_movement)" by code_simp
  from entry_document_reads_back [OF this] show ?thesis by (simp add: sample_movement_def)
qed

end
