(* ===== verification/Api_Routes.thy ===== *)
theory Api_Routes
  imports Settings Presentation Proxy_Api Api_Errors
begin

text \<open>
  The routes over the gateway's own services: \<^verbatim>\<open>api/routes/runs.py\<close>, \<^verbatim>\<open>api/routes/billing.py\<close>, \<^verbatim>\<open>api/routes/x402.py\<close>,
  \<^verbatim>\<open>api/routes/health.py\<close> with \<^verbatim>\<open>api/schemas.py\<close>, and which of them \<^verbatim>\<open>api/app.py\<close> registers.

  FastAPI runs the dependencies of a route, checks the body against its model and calls the route. A body that does
  not fit is answered with a 422, which here is \<open>None\<close>: the route was not called. What a field may hold is the
  route's declaration. Lengths count characters.
\<close>

section \<open>Checking a body\<close>

definition within :: "nat \<Rightarrow> nat \<Rightarrow> string \<Rightarrow> bool" where
  "within lo hi s \<longleftrightarrow> lo \<le> py_len s \<and> py_len s \<le> hi"

definition checked :: "bool \<Rightarrow> ('s, exn, 'a) gw \<Rightarrow> ('s, exn, 'a option) gw" where
  "checked ok m = (if ok then bind_gw m (\<lambda>x. return_gw (Some x)) else return_gw None)"

section \<open>Services of the container\<close>

definition get_orchestrator :: "gateway \<Rightarrow> exn + orchestrator" where
  "get_orchestrator g = (case gt_orchestrator g of None \<Rightarrow> Inl (RuntimeError ''orchestration is not enabled on this gateway'') | Some o1 \<Rightarrow> Inr o1)"

definition get_billing :: "gateway \<Rightarrow> exn + billing_service" where
  "get_billing g = (case cn_billing g of None \<Rightarrow> Inl (RuntimeError ''billing is not enabled on this gateway'') | Some b \<Rightarrow> Inr b)"

definition get_identity :: "gateway \<Rightarrow> exn + identity_service" where
  "get_identity g = (case cn_identity g of None \<Rightarrow> Inl (RuntimeError ''billing is not enabled on this gateway'') | Some i \<Rightarrow> Inr i)"

definition get_x402 :: "gateway \<Rightarrow> exn + x402_service" where
  "get_x402 g = (case cn_x402 g of None \<Rightarrow> Inl (RuntimeError ''x402 is not enabled on this gateway'') | Some x \<Rightarrow> Inr x)"

section \<open>Runs\<close>

text \<open>The account is the one the gate admits; the header the gate adds to the response is the second component of its
  answer.\<close>

definition route_start ::
  "container \<Rightarrow> orchestrator \<Rightarrow> string \<Rightarrow> string \<Rightarrow> string \<Rightarrow> int \<Rightarrow> json option sys" where
  "route_start c orc authorization x_payment idea now =
     bind_gw (on_world (payer_of c authorization x_payment ''/runs'' now)) (\<lambda>(payer, settlement).
     checked (within 1 MAX_IDEA_CHARS idea) (bind_gw (start orc idea payer) (\<lambda>r. return_gw (run_json r))))"

definition route_read :: "string \<Rightarrow> json sys" where
  "route_read k = bind_gw (get k) (\<lambda>r. return_gw (run_json r))"

definition route_answer :: "orchestrator \<Rightarrow> string \<Rightarrow> (string \<times> string) list \<Rightarrow> json sys" where
  "route_answer orc k answers =
     bind_gw (answer_questions orc k (map (\<lambda>(q, v). \<lparr>ans_question_id = q, ans_value = v\<rparr>) answers)) (\<lambda>r. return_gw (run_json r))"

definition route_reject :: "orchestrator \<Rightarrow> string \<Rightarrow> string \<Rightarrow> json option sys" where
  "route_reject orc k feedback =
     checked (within 1 2000 feedback) (bind_gw (reject orc k feedback) (\<lambda>r. return_gw (run_json r)))"

definition route_approve :: "string \<Rightarrow> json sys" where
  "route_approve k = bind_gw (approve k) (\<lambda>r. return_gw (run_json r))"

definition route_console :: "orchestrator \<Rightarrow> string \<Rightarrow> string \<Rightarrow> upstream_outcome option sys" where
  "route_console orc k command = checked (within 1 500 command) (open_console orc k command)"

text \<open>The headers of a download: the agent's name for the file, its length and checksum, by their names in lower case. A
  name that is repeated keeps its last value.\<close>

definition lowered :: "headers \<Rightarrow> (string, string) dict" where
  "lowered hs = fold (\<lambda>(name, v). dict_set (lower name) v) hs []"

definition download_headers :: "headers \<Rightarrow> string \<times> headers" where
  "download_headers hs =
     (let upstream = lowered hs
      in (case map_of upstream ''content-type'' of Some t \<Rightarrow> t | None \<Rightarrow> ''application/zip'',
          [(name, v). name \<leftarrow> [''content-disposition'', ''content-length'', ''x-mirag-sha256''],
             v \<leftarrow> (case map_of upstream name of Some v \<Rightarrow> [v] | None \<Rightarrow> [])]))"

definition route_download :: "orchestrator \<Rightarrow> string \<Rightarrow> (upstream_outcome \<times> string \<times> headers) sys" where
  "route_download orc k =
     bind_gw (open_download orc k) (\<lambda>stream. return_gw (stream, download_headers (uo_headers stream)))"

text \<open>The events of a run: it is looked up before the response starts, and read from the beginning of its log.\<close>

definition route_events :: "string \<Rightarrow> reader sys" where
  "route_events k = bind_gw (get k) (\<lambda>_. return_gw (Top 0))"

text \<open>The route of a generation pulls the first chunk before the response starts; the rest follows it.\<close>

definition chained :: "string \<Rightarrow> string list \<Rightarrow> string list" where
  "chained first rest = (if first \<noteq> [] then [first] else []) @ rest"

text \<open>What is raised before the first chunk is raised by the route, before the response starts; what is raised later ends the
  body of a response that has started, and comes with it.\<close>

definition route_generate :: "orchestrator \<Rightarrow> (nat \<Rightarrow> exn option) \<Rightarrow> string \<Rightarrow> (string list \<times> exn option) sys" where
  "route_generate orc consumer k s =
     (case generate orc consumer k s of (result, s') \<Rightarrow>
        (let yielded = drop (length (sy_out s)) (sy_out s')
         in case (yielded, result) of
              ([], Inl e) \<Rightarrow> (Inl e, s')
            | ([], Inr _) \<Rightarrow> (Inr (chained [] [], None), s')
            | (first # rest, Inl e) \<Rightarrow> (Inr (chained first rest, Some e), s')
            | (first # rest, Inr _) \<Rightarrow> (Inr (chained first rest, None), s')))"

text \<open>\<^verbatim>\<open>_relay\<close> of the runs: unlike the proxy's it lets every failure through.\<close>

definition relay_run :: "(nat \<Rightarrow> exn option) \<Rightarrow> string list \<times> exn option \<Rightarrow> upstream_outcome \<Rightarrow> ('z relay_state_scheme, exn, unit) gw" where
  "relay_run consumer arrives stream =
     (case arrives of (chunks, ending) \<Rightarrow> finally_gw (relay_chunks consumer ending 0 chunks) (aclose stream))"

section \<open>Billing\<close>

definition MAX_SIGNATURE :: nat where "MAX_SIGNATURE = 512"
definition MAX_CHALLENGE :: nat where "MAX_CHALLENGE = 4096"

definition bearer_account :: "identity_service \<Rightarrow> string \<Rightarrow> int \<Rightarrow> exn + string" where
  "bearer_account svc authorization now =
     (case partition_at (CHR '' '') authorization of
        (scheme, _, token) \<Rightarrow>
          if lower scheme \<noteq> ''bearer'' \<or> token = [] then Inl (IdentityError ''sign in first'')
          else account_of svc (strip token) now)"

definition billing_contract_id :: "billing_service \<Rightarrow> string" where
  "billing_contract_id bs = (if ch_available (bs_chain bs) then ch_contract_id (bs_chain bs) else [])"

definition route_plans :: "billing_service \<Rightarrow> json" where
  "route_plans bs =
     JObj (catalog_members (bs_catalog bs)
       @ [(''asset'', JStr (bs_asset bs)), (''reserve'', JInt (bs_reserve bs)), (''network'', JStr (net_network (bs_network bs))),
          (''destination'', JStr (net_destination (bs_network bs))), (''contract'', JStr (billing_contract_id bs))])"

definition route_challenge :: "identity_service \<Rightarrow> string \<Rightarrow> string \<Rightarrow> int \<Rightarrow> (exn + json) option" where
  "route_challenge svc address nonce now =
     (if \<not> within 56 56 address then None
      else Some (map_sum id (\<lambda>(issued, token). challenge_json issued token) (id_challenge svc address nonce now)))"

definition route_verify :: "identity_service \<Rightarrow> string \<Rightarrow> string \<Rightarrow> int \<Rightarrow> int \<Rightarrow> (exn + json) option" where
  "route_verify svc challenge signature now later =
     (if \<not> (within 1 MAX_CHALLENGE challenge \<and> within 1 MAX_SIGNATURE signature) then None
      else Some (map_sum id (\<lambda>(session, token). session_json session token) (id_verify_token svc challenge signature now later)))"

text \<open>A route that acts for the account of the session: the dependency first, then the body, then the route.\<close>

definition signed_in ::
  "identity_service \<Rightarrow> string \<Rightarrow> int \<Rightarrow> bool \<Rightarrow> (string \<Rightarrow> ('s, exn, 'a) gw) \<Rightarrow> ('s, exn, 'a option) gw" where
  "signed_in svc authorization now ok route =
     bind_gw (lift_gw (bearer_account svc authorization now)) (\<lambda>account. checked ok (route account))"

definition route_account :: "billing_service \<Rightarrow> string \<Rightarrow> ('z world_scheme, exn, json) gw" where
  "route_account bs account = bind_gw (view bs account 50) (\<lambda>v. return_gw (view_json v))"

definition route_checkout :: "billing_service \<Rightarrow> string \<Rightarrow> string \<Rightarrow> string \<Rightarrow> ('z world_scheme, exn, json) gw" where
  "route_checkout bs sku asset account = bind_gw (checkout bs account sku asset) (\<lambda>i. return_gw (invoice_json i))"

definition route_subscribe :: "billing_service \<Rightarrow> string \<Rightarrow> string \<Rightarrow> ('z world_scheme, exn, json) gw" where
  "route_subscribe bs sku account = bind_gw (subscribe_transaction bs account sku) (\<lambda>offer. return_gw (offer_json offer))"

definition route_submit :: "billing_service \<Rightarrow> string \<Rightarrow> string \<Rightarrow> ('z world_scheme, exn, json) gw" where
  "route_submit bs xdr account =
     bind_gw (submit_subscription bs account xdr) (\<lambda>(tx_hash, s).
       return_gw (JObj [(''transaction'', JStr tx_hash),
                        (''subscription'', case s of None \<Rightarrow> JNull | Some x \<Rightarrow> subscription_json x)]))"

definition route_invoice :: "billing_service \<Rightarrow> string \<Rightarrow> string \<Rightarrow> ('z world_scheme, exn, json) gw" where
  "route_invoice bs invoice_id account =
     bind_gw (confirm bs invoice_id) (\<lambda>confirmed.
       if inv_account confirmed \<noteq> account then raise_gw (InvoiceNotFoundError invoice_id)
       else return_gw (invoice_json confirmed))"

section \<open>x402\<close>

record requirements_body =
  rb_scheme :: string
  rb_network :: string
  rb_maxAmountRequired :: string
  rb_resource :: string
  rb_description :: string
  rb_payTo :: string
  rb_asset :: string
  rb_maxTimeoutSeconds :: int
  rb_extra :: "(string \<times> json) list"

definition requirements_body_ok :: "requirements_body \<Rightarrow> bool" where
  "requirements_body_ok b \<longleftrightarrow> within 0 32 (rb_scheme b) \<and> within 0 64 (rb_network b) \<and> within 0 64 (rb_maxAmountRequired b)
     \<and> within 0 512 (rb_resource b) \<and> within 0 512 (rb_description b) \<and> within 0 128 (rb_payTo b) \<and> within 0 64 (rb_asset b)
     \<and> 1 \<le> rb_maxTimeoutSeconds b \<and> rb_maxTimeoutSeconds b \<le> 3600"

definition requirements_to_domain :: "requirements_body \<Rightarrow> payment_requirements" where
  "requirements_to_domain b =
     \<lparr>pr_scheme = rb_scheme b, pr_network = rb_network b, pr_max_amount_required = rb_maxAmountRequired b, pr_resource = rb_resource b,
      pr_description = rb_description b, pr_pay_to = rb_payTo b, pr_asset = rb_asset b,
      pr_max_timeout_seconds = rb_maxTimeoutSeconds b, pr_mime_type = ''application/json'', pr_extra = rb_extra b\<rparr>"

definition route_supported :: "x402_service \<Rightarrow> json" where
  "route_supported xs = supported_json (supported xs)"

definition route_quote :: "x402_service \<Rightarrow> string \<Rightarrow> string \<Rightarrow> string \<Rightarrow> ('z world_scheme, exn, json option) gw" where
  "route_quote xs resource payer usd =
     checked (within 0 512 resource \<and> within 0 64 payer \<and> within 0 32 usd)
       (bind_gw (lift_gw (if usd = [] then Inr None else map_sum id Some (money_parse (repr_str usd) usd))) (\<lambda>price.
        bind_gw (requirements xs payer resource price) (\<lambda>(r, i).
          return_gw (JObj [(''x402Version'', JInt 1), (''accepts'', JList [requirements_json r]), (''invoice'', JStr (inv_id i))]))))"

definition route_x402_verify ::
  "x402_service \<Rightarrow> payment_payload \<Rightarrow> requirements_body \<Rightarrow> ('z world_scheme, exn, json option) gw" where
  "route_x402_verify xs payload body =
     checked (within 0 32 (pp_scheme payload) \<and> within 0 64 (pp_network payload) \<and> requirements_body_ok body)
       (bind_gw (x402_verify xs payload (requirements_to_domain body)) (\<lambda>v. return_gw (verify_json v)))"

text \<open>With the status: 402 when the ledger did not take the payment.\<close>

definition route_x402_settle ::
  "x402_service \<Rightarrow> payment_payload \<Rightarrow> requirements_body \<Rightarrow> ('z world_scheme, exn, (int \<times> json) option) gw" where
  "route_x402_settle xs payload body =
     checked (within 0 32 (pp_scheme payload) \<and> within 0 64 (pp_network payload) \<and> requirements_body_ok body)
       (bind_gw (x402_settle xs payload (requirements_to_domain body)) (\<lambda>r.
          return_gw (if sr_success r then 200 else 402, settle_json r)))"

section \<open>Health\<close>

fun health_status_value :: "health_status \<Rightarrow> string" where
  "health_status_value UP = ''up''"
| "health_status_value DEGRADED = ''degraded''"
| "health_status_value DOWN = ''down''"

text \<open>\<open>shown\<close> prints a latency.\<close>

definition from_report :: "(int \<Rightarrow> json) \<Rightarrow> service_health list \<Rightarrow> json" where
  "from_report shown services =
     JObj [(''status'', JStr (if report_is_healthy services then ''ok'' else ''degraded'')),
           (''services'', JList (map (\<lambda>s. JObj [(''name'', JStr (sh_name s)), (''status'', JStr (health_status_value (service_status s))),
              (''instances'', JList (map (\<lambda>i. JObj [(''id'', JStr (ih_id i)), (''status'', JStr (health_status_value (ih_status i))),
                 (''latency_ms'', case ih_latency i of None \<Rightarrow> JNull | Some t \<Rightarrow> shown t),
                 (''detail'', case ih_detail i of None \<Rightarrow> JNull | Some d \<Rightarrow> JStr d)]) (sh_instances s)))]) services))]"

definition liveness :: json where
  "liveness = JObj [(''status'', JStr ''ok'')]"

definition services_health :: "(int \<Rightarrow> json) \<Rightarrow> registry \<Rightarrow> 's client \<Rightarrow> ('s client_state_scheme, exn, json) gw" where
  "services_health shown registry call = bind_gw (check_all registry call) (\<lambda>report. return_gw (from_report shown report))"

section \<open>Which routes there are\<close>

datatype router = HealthRouter | RunsRouter | BillingRouter | X402Router | ProxyRouter

definition routers :: "settings \<Rightarrow> router list" where
  "routers s =
     [HealthRouter]
     @ (if og_enabled (se_orchestration s) then [RunsRouter] else [])
     @ (if bg_enabled (se_billing s) then BillingRouter # (if bg_x402 (se_billing s) then [X402Router] else []) else [])
     @ [ProxyRouter]"

text \<open>A segment of a pattern is a literal, a parameter, which takes one segment that is not empty, or the rest of the
  path, which may be empty. A route is its method, its pattern and the function behind it.\<close>

datatype segment = Lit string | Param | Rest

fun matches :: "segment list \<Rightarrow> string list \<Rightarrow> bool" where
  "matches [] xs \<longleftrightarrow> xs = []"
| "matches (Lit l # ps) xs \<longleftrightarrow> (case xs of [] \<Rightarrow> False | x # ys \<Rightarrow> x = l \<and> matches ps ys)"
| "matches (Param # ps) xs \<longleftrightarrow> (case xs of [] \<Rightarrow> False | x # ys \<Rightarrow> x \<noteq> [] \<and> matches ps ys)"
| "matches (Rest # ps) xs \<longleftrightarrow> xs \<noteq> [] \<and> ps = []"

datatype handler =
    Liveness | ServicesHealth
  | RunStart | RunRead | RunAnswer | RunReject | RunApprove | RunEvents | RunGenerate | RunConsole | RunDownload
  | Plans | AuthChallenge | AuthVerify | AccountView | Checkout | Subscribe | SubscribeSubmit | InvoiceRead
  | X402Supported | X402Quote | X402Verify | X402Settle
  | ProxyPath | ProxyRoot

type_synonym route = "string \<times> segment list \<times> handler"

definition health_routes :: "route list" where
  "health_routes =
     [(''GET'', [Lit ''health''], Liveness), (''GET'', [Lit ''health'', Lit ''services''], ServicesHealth)]"

definition runs_routes :: "route list" where
  "runs_routes =
     [(''POST'', [Lit ''runs''], RunStart), (''GET'', [Lit ''runs'', Param], RunRead),
      (''POST'', [Lit ''runs'', Param, Lit ''answers''], RunAnswer), (''POST'', [Lit ''runs'', Param, Lit ''rejection''], RunReject),
      (''POST'', [Lit ''runs'', Param, Lit ''approval''], RunApprove), (''GET'', [Lit ''runs'', Param, Lit ''events''], RunEvents),
      (''POST'', [Lit ''runs'', Param, Lit ''generation''], RunGenerate), (''POST'', [Lit ''runs'', Param, Lit ''console''], RunConsole),
      (''GET'', [Lit ''runs'', Param, Lit ''download''], RunDownload)]"

definition billing_routes :: "route list" where
  "billing_routes =
     [(''GET'', [Lit ''billing'', Lit ''plans''], Plans), (''POST'', [Lit ''billing'', Lit ''auth'', Lit ''challenge''], AuthChallenge),
      (''POST'', [Lit ''billing'', Lit ''auth'', Lit ''verify''], AuthVerify), (''GET'', [Lit ''billing''], AccountView),
      (''POST'', [Lit ''billing'', Lit ''checkout''], Checkout), (''POST'', [Lit ''billing'', Lit ''subscribe''], Subscribe),
      (''POST'', [Lit ''billing'', Lit ''subscribe'', Lit ''submit''], SubscribeSubmit),
      (''GET'', [Lit ''billing'', Lit ''invoices'', Param], InvoiceRead)]"

definition x402_routes :: "route list" where
  "x402_routes =
     [(''GET'', [Lit ''x402'', Lit ''supported''], X402Supported), (''POST'', [Lit ''x402'', Lit ''quote''], X402Quote),
      (''POST'', [Lit ''x402'', Lit ''verify''], X402Verify), (''POST'', [Lit ''x402'', Lit ''settle''], X402Settle)]"

definition proxy_routes :: "route list" where
  "proxy_routes =
     map (\<lambda>m. (m, [Lit ''api'', Param, Rest], ProxyPath)) PROXIED_METHODS @ map (\<lambda>m. (m, [Lit ''api'', Param], ProxyRoot)) PROXIED_METHODS"

lemmas route_tables [simp] = health_routes_def runs_routes_def billing_routes_def x402_routes_def proxy_routes_def

fun routes :: "router \<Rightarrow> route list" where
  "routes HealthRouter = health_routes"
| "routes RunsRouter = runs_routes"
| "routes BillingRouter = billing_routes"
| "routes X402Router = x402_routes"
| "routes ProxyRouter = proxy_routes"

definition app_routes :: "settings \<Rightarrow> route list" where
  "app_routes s = concat (map routes (routers s))"

definition segments :: "string \<Rightarrow> string list" where
  "segments path = tl (split_on (CHR ''/'') path)"

text \<open>The first route that takes the method and the path. This is no code of the repository but the documented rule by
  which FastAPI picks a route among the registered ones, and with the reading of path patterns above all that is relied on.\<close>

definition dispatch :: "settings \<Rightarrow> string \<Rightarrow> string \<Rightarrow> handler option" where
  "dispatch s request_method path =
     map_option (\<lambda>(_, _, h). h) (find (\<lambda>(m, p, _). m = request_method \<and> matches p (segments path)) (app_routes s))"

text \<open>A route is registered only when the service behind it was built, so no dependency of a registered route fails.\<close>

lemma routes_have_their_services:
  assumes "build_container env s = Inr g"
  shows "RunsRouter \<in> set (routers s) \<Longrightarrow> \<exists>o1. get_orchestrator g = Inr o1"
    and "BillingRouter \<in> set (routers s) \<Longrightarrow> \<exists>b i. get_billing g = Inr b \<and> get_identity g = Inr i"
    and "X402Router \<in> set (routers s) \<Longrightarrow> \<exists>x. get_x402 g = Inr x"
proof -
  from assms have parts: "build_billing env (se_billing s) = Inr (cn_billing g, cn_identity g, cn_x402 g, gt_store g)"
    "gt_orchestrator g = build_orchestrator env (se_orchestration s) (gt_registry g) (gt_send g) (gt_stream g) (cn_billing g)"
    by (auto elim: built_parts)
  show "RunsRouter \<in> set (routers s) \<Longrightarrow> \<exists>o1. get_orchestrator g = Inr o1"
    using parts(2) by (auto simp: routers_def get_orchestrator_def build_orchestrator_def split: if_splits)
  show "BillingRouter \<in> set (routers s) \<Longrightarrow> \<exists>b i. get_billing g = Inr b \<and> get_identity g = Inr i"
    using billing_built [OF parts(1)] by (auto simp: routers_def get_billing_def get_identity_def split: if_splits)
  show "X402Router \<in> set (routers s) \<Longrightarrow> \<exists>x. get_x402 g = Inr x"
    using billing_built [OF parts(1)] by (auto simp: routers_def get_x402_def split: if_splits)
qed

lemma chained_bytes: "concat (chained first rest) = first @ concat rest"
  by (simp add: chained_def)

text \<open>The body of a generation is what the agent said, and a run that may not be generated is refused before there is one.\<close>

lemma route_generate_body:
  assumes "route_generate orc consumer k s = (Inr (body, ending), s')" "sy_out s' = sy_out s @ out"
  shows "concat body = concat out" and "snd (generate orc consumer k s) = s'"
  using assms
  by (auto simp: route_generate_def Let_def chained_def split: prod.splits list.splits sum.splits)

lemma route_generate_refuses:
  assumes "generate orc consumer k s = (Inl e, s')" "sy_out s' = sy_out s"
  shows "route_generate orc consumer k s = (Inl e, s')"
  using assms by (simp add: route_generate_def)

section \<open>No route hides another\<close>

fun first_segment :: "router \<Rightarrow> string" where
  "first_segment HealthRouter = ''health''"
| "first_segment RunsRouter = ''runs''"
| "first_segment BillingRouter = ''billing''"
| "first_segment X402Router = ''x402''"
| "first_segment ProxyRouter = ''api''"

lemma first_segment_inj: "first_segment a = first_segment b \<Longrightarrow> a = b"
  by (cases a; cases b) simp_all

lemma route_first: "(m, p, h) \<in> set (routes a) \<Longrightarrow> \<exists>ps. p = Lit (first_segment a) # ps"
  by (cases a) auto

lemma matches_router:
  assumes "(m, p, h) \<in> set (routes a)" "(m', p', h') \<in> set (routes b)" "matches p xs" "matches p' xs"
  shows "a = b"
proof -
  obtain ps qs where "p = Lit (first_segment a) # ps" "p' = Lit (first_segment b) # qs"
    using route_first [OF assms(1)] route_first [OF assms(2)] by blast
  with assms(3,4) show ?thesis by (auto split: list.splits dest: first_segment_inj)
qed

lemma one_route:
  assumes "(m, p, h) \<in> set (routes a)" "(m, p', h') \<in> set (routes a)" "matches p xs" "matches p' xs"
  shows "h = h'"
  using assms by (cases a) (auto split: list.splits)

lemma find_known:
  assumes "x \<in> set xs" "P x" "\<And>y. y \<in> set xs \<Longrightarrow> P y \<Longrightarrow> f y = f x"
  shows "map_option f (find P xs) = Some (f x)"
proof -
  obtain y where "find P xs = Some y" using assms(1,2) by (cases "find P xs") (auto simp: find_None_iff)
  moreover from this have "y \<in> set xs" "P y" by (auto simp: find_Some_iff)
  ultimately show ?thesis using assms(3) by simp
qed

text \<open>C40. Every route that is registered is reached. A request whose method and path fit a route of a registered router is
  handled by that route, whatever routers are registered before it: neither the catch-all of the proxy nor a
  parameter hides another route. And the switch of the facilitator plays no part: verifying and settling for
  other people's resources, documented as off unless asked for, answer as soon as x402 is on.\<close>

theorem every_route_reaches_its_handler:
  assumes "r \<in> set (routers s)" "(m, p, h) \<in> set (routes r)" "matches p (segments path)"
  shows "dispatch s m path = Some h
    \<and> (X402Router \<in> set (routers s) \<longrightarrow>
         dispatch (s\<lparr>se_billing := (se_billing s)\<lparr>bg_facilitator := False\<rparr>\<rparr>) ''POST'' ''/x402/settle'' = Some X402Settle)"
proof -
  have reached: "dispatch s m path = Some h" if "r \<in> set (routers s)" "(m, p, h) \<in> set (routes r)" "matches p (segments path)" for s r m p h path
  proof -
    have here: "(m, p, h) \<in> set (app_routes s)" using that(1,2) by (auto simp: app_routes_def)
    have only: "h' = h" if "(m, p', h') \<in> set (app_routes s)" "matches p' (segments path)" for p' h'
    proof -
      from that(1) obtain b where b: "(m, p', h') \<in> set (routes b)" by (auto simp: app_routes_def)
      with matches_router [OF \<open>(m, p, h) \<in> set (routes r)\<close> b \<open>matches p (segments path)\<close> that(2)] have "(m, p', h') \<in> set (routes r)" by simp
      from one_route [OF this \<open>(m, p, h) \<in> set (routes r)\<close> that(2) \<open>matches p (segments path)\<close>] show ?thesis .
    qed
    have "map_option (\<lambda>(_, _, h). h) (find (\<lambda>(m', p, _). m' = m \<and> matches p (segments path)) (app_routes s))
        = Some ((\<lambda>(_, _, h). h) (m, p, h))"
    proof (rule find_known [OF here])
      show "case (m, p, h) of (m', p, _) \<Rightarrow> m' = m \<and> matches p (segments path)" using that(3) by simp
      fix y assume y: "y \<in> set (app_routes s)" "case y of (m', p, _) \<Rightarrow> m' = m \<and> matches p (segments path)"
      obtain m1 p1 h1 where [simp]: "y = (m1, p1, h1)" by (cases y)
      from y have "(m, p1, h1) \<in> set (app_routes s)" "matches p1 (segments path)" by simp_all
      from only [OF this] show "(case y of (_, _, h) \<Rightarrow> h) = (case (m, p, h) of (_, _, h) \<Rightarrow> h)" by simp
    qed
    then show ?thesis by (simp add: dispatch_def)
  qed
  let ?s = "s\<lparr>se_billing := (se_billing s)\<lparr>bg_facilitator := False\<rparr>\<rparr>"
  have "routers ?s = routers s" by (simp add: routers_def)
  moreover have "matches [Lit ''x402'', Lit ''settle''] (segments ''/x402/settle'')" by code_simp
  ultimately have "X402Router \<in> set (routers s) \<longrightarrow> dispatch ?s ''POST'' ''/x402/settle'' = Some X402Settle"
    using reached [of X402Router ?s "''POST''" "[Lit ''x402'', Lit ''settle'']" X402Settle "''/x402/settle''"] by simp
  with reached [OF assms] show ?thesis by blast
qed

section \<open>Whose run, whose invoice\<close>

lemma yields_any_bind:
  "yields (\<lambda>_. True) m Q \<Longrightarrow> (\<And>x. Q x \<Longrightarrow> yields (\<lambda>_. True) (f x) R) \<Longrightarrow> yields (\<lambda>_. True) (bind_gw m f) R"
  by (rule yields_bind)

lemma yields_any: "yields (\<lambda>_. True) m (\<lambda>_. True)"
  by (simp add: yields_def)

lemma yields_any_move:
  assumes "\<And>now r'. f now r = Inr r' \<Longrightarrow> Q r'"
  shows "yields (\<lambda>_. True) (move f r) Q"
  unfolding move_def by (rule yields_any_bind [OF yields_any]) (auto intro: yields_lift assms)

lemma moved_account: "moved e changes now r = Inr r' \<Longrightarrow> (\<And>x. run_account (changes x) = run_account x) \<Longrightarrow> run_account r' = run_account r"
  by (auto simp: moved_def split: if_splits option.splits)

lemma moves_keep_account:
  "describing now r = Inr r' \<Longrightarrow> run_account r' = run_account r" "asked m q now r = Inr r' \<Longrightarrow> run_account r' = run_account r"
  "proposed p now r = Inr r' \<Longrightarrow> run_account r' = run_account r"
  unfolding describing_def asked_def proposed_def by (auto dest!: moved_account)

lemma yields_turn_account: "yields (\<lambda>_. True) (plan_turn orc r) (\<lambda>r'. run_account r' = run_account r)"
  unfolding plan_turn_def
  by (rule yields_any_bind [OF yields_any]) (auto intro!: yields_if yields_raise yields_any_move dest: moves_keep_account)

lemma yields_put: "yields (\<lambda>_. True) (put r) (\<lambda>r'. r' = r)"
  by (auto simp: yields_def put_def on_runs_def zoom_def run_store_put_def Let_def split: prod.splits sum.splits)

lemma run_start_account: "run_start idea account token created updated = Inr r \<Longrightarrow> run_account r = account"
  by (auto simp: run_start_def Let_def split: if_splits)

lemma yields_start: "yields (\<lambda>_. True) (start orc idea account) (\<lambda>r. run_account r = account)"
proof -
  have turn: "yields (\<lambda>_. True)
      (bind_gw (if questions_of q \<noteq> [] then move (asked m (j1 q)) r else bind_gw (move (asked m j2) r) (plan_turn orc)) put)
      (\<lambda>r'. run_account r' = account)" if "run_account r = account" for q m j1 j2 r
  proof (rule yields_any_bind)
    show "yields (\<lambda>_. True) (if questions_of q \<noteq> [] then move (asked m (j1 q)) r else bind_gw (move (asked m j2) r) (plan_turn orc))
        (\<lambda>r'. run_account r' = account)"
    proof (intro yields_if)
      show "yields (\<lambda>_. True) (move (asked m (j1 q)) r) (\<lambda>r'. run_account r' = account)"
        using that by (auto intro!: yields_any_move dest: moves_keep_account)
      show "yields (\<lambda>_. True) (bind_gw (move (asked m j2) r) (plan_turn orc)) (\<lambda>r'. run_account r' = account)"
      proof (rule yields_any_bind)
        show "yields (\<lambda>_. True) (move (asked m j2) r) (\<lambda>r'. run_account r' = account)"
          using that by (auto intro!: yields_any_move dest: moves_keep_account)
        show "yields (\<lambda>_. True) (plan_turn orc x) (\<lambda>r'. run_account r' = account)" if "run_account x = account" for x
          using yields_turn_account [of orc x] that by simp
      qed
    qed
    show "yields (\<lambda>_. True) (put x) (\<lambda>r'. run_account r' = account)" if "run_account x = account" for x
      by (rule yields_weaken [OF yields_put]) (use that in simp)
  qed
  show ?thesis
    unfolding start_def Let_def
    by (rule yields_then, simp add: keeps_def, rule yields_any_bind [OF yields_any], rule yields_any_bind [OF yields_any], rule yields_any_bind [OF yields_any],
        rule yields_any_bind [OF yields_lift, where Q = "\<lambda>r. run_account r = account"], erule run_start_account,
        rule yields_any_bind [where Q = "\<lambda>r. run_account r = account"], rule yields_any_move, frule moves_keep_account(1), simp,
        rule yields_any_bind [OF yields_any], rule turn, assumption)
qed

text \<open>C14. A run belongs to whoever the gate admitted. When the route that starts a run answers with a run, the gate was passed
  first, in the state the request found, and the account on the run is the one the gate named and no other; on a gateway
  that does not charge it is nobody's. A body that does not fit starts nothing, but the gate was asked before it
  was read, and what the gate did to the books stays done.\<close>

theorem started_run_belongs_to_its_payer:
  assumes "route_start c orc authorization x_payment idea now s = (Inr answer, s')"
  shows "\<exists>payer settlement w. payer_of c authorization x_payment ''/runs'' now (sy_world s) = (Inr (payer, settlement), w)
    \<and> (\<forall>doc. answer = Some doc \<longrightarrow> obj_get ''account'' doc = JStr payer \<and> 1 \<le> py_len idea \<and> py_len idea \<le> MAX_IDEA_CHARS)
    \<and> (answer = None \<longrightarrow> \<not> within 1 MAX_IDEA_CHARS idea \<and> s' = s\<lparr>sy_world := w\<rparr>)
    \<and> (cn_billing c = None \<longrightarrow> payer = [])"
proof -
  obtain gate w where g: "payer_of c authorization x_payment ''/runs'' now (sy_world s) = (gate, w)" by fastforce
  with assms obtain payer settlement where p: "gate = Inr (payer, settlement)"
    by (cases gate) (auto simp: route_start_def bind_gw_def on_world_def zoom_def)
  let ?s = "s\<lparr>sy_world := w\<rparr>"
  from assms g p have run: "checked (within 1 MAX_IDEA_CHARS idea) (bind_gw (start orc idea payer) (\<lambda>r. return_gw (run_json r))) ?s = (Inr answer, s')"
    by (simp add: route_start_def bind_gw_def on_world_def zoom_def)
  have nobody: "cn_billing c = None \<longrightarrow> payer = []" using g p by (auto simp: payer_of_def return_gw_def)
  show ?thesis
  proof (cases "within 1 MAX_IDEA_CHARS idea")
    case False
    with run nobody g p show ?thesis by (auto simp: checked_def return_gw_def)
  next
    case True
    with run obtain r where r: "fst (start orc idea payer ?s) = Inr r" "answer = Some (run_json r)"
      by (auto simp: checked_def bind_gw_def return_gw_def split: prod.splits sum.splits)
    with yields_start [of orc idea payer] have "run_account r = payer" by (simp add: yields_def)
    with r True nobody g p show ?thesis by (auto simp: run_json_def within_def)
  qed
qed

text \<open>C0. Who may see an invoice. A caller is shown only invoices of the account of their session. For another account's
  invoice the answer is meant to be the one a missing invoice gets, so that an id cannot be probed for: it is, when the
  network can be asked; but the invoice is confirmed before the account is compared, so when the network
  cannot be asked its error is the answer, which a missing invoice never gets.\<close>

lemma yields_put_invoice_same: "Q i \<Longrightarrow> yields (\<lambda>_. True) (store_put_invoice i) Q"
  by (simp add: yields_def store_put_invoice_def)

lemma yieldsD: "yields P m Q \<Longrightarrow> P s \<Longrightarrow> fst (m s) = Inr x \<Longrightarrow> Q x"
  by (simp add: yields_def)

lemma confirm_keeps_account:
  fixes w :: "'z world_scheme"
  assumes "store_invoice k w = (Inr (Some i), w)" "fst (confirm bs k w) = Inr j"
  shows "inv_account j = inv_account i"
proof -
  have body: "yields (\<lambda>_ :: 'z world_scheme. True) (if inv_status i = INV_PAID then return_gw i
           else
             bind_gw tick (\<lambda>t.
             bind_gw (lift_gw (net_payment_for (bs_network bs) t i)) (\<lambda>payment.
               case payment of
                 None \<Rightarrow>
                   bind_gw now_utc (\<lambda>now.
                     if \<not> inv_is_open i now then store_put_invoice (inv_expired i) else return_gw i)
               | Some p \<Rightarrow>
                   bind_gw (lift_gw (settles p i TOLERANCE_BPS)) (\<lambda>good.
                     if \<not> good then return_gw i
                     else
                       bind_gw (store_put_invoice (inv_paid i (pay_tx_hash p) (pay_payer p))) (\<lambda>paid.
                         then_gw (deliver bs paid) (return_gw paid))))))
      (\<lambda>j. inv_account j = inv_account i)" (is "yields _ ?body _")
  proof (intro yields_if yields_return)
    show "yields (\<lambda>_ :: 'z world_scheme. True) (bind_gw tick (\<lambda>t.
             bind_gw (lift_gw (net_payment_for (bs_network bs) t i)) (\<lambda>payment.
               case payment of
                 None \<Rightarrow>
                   bind_gw now_utc (\<lambda>now.
                     if \<not> inv_is_open i now then store_put_invoice (inv_expired i) else return_gw i)
               | Some p \<Rightarrow>
                   bind_gw (lift_gw (settles p i TOLERANCE_BPS)) (\<lambda>good.
                     if \<not> good then return_gw i
                     else
                       bind_gw (store_put_invoice (inv_paid i (pay_tx_hash p) (pay_payer p))) (\<lambda>paid.
                         then_gw (deliver bs paid) (return_gw paid)))))) (\<lambda>j. inv_account j = inv_account i)"
    proof (rule yields_any_bind [OF yields_any], rule yields_any_bind [OF yields_any], intro yields_option)
      show "yields (\<lambda>_. True) (bind_gw now_utc (\<lambda>now. if \<not> inv_is_open i now then store_put_invoice (inv_expired i) else return_gw i))
          (\<lambda>j. inv_account j = inv_account i)"
        by (rule yields_any_bind [OF yields_any]) (intro yields_if yields_return yields_put_invoice_same; simp add: inv_expired_def)
    next
      fix p
      show "yields (\<lambda>_. True) (bind_gw (lift_gw (settles p i TOLERANCE_BPS)) (\<lambda>good.
              if \<not> good then return_gw i
              else bind_gw (store_put_invoice (inv_paid i (pay_tx_hash p) (pay_payer p))) (\<lambda>paid.
                     then_gw (deliver bs paid) (return_gw paid)))) (\<lambda>j. inv_account j = inv_account i)"
      proof (rule yields_any_bind [OF yields_any], intro yields_if yields_return)
        show "yields (\<lambda>_. True) (bind_gw (store_put_invoice (inv_paid i (pay_tx_hash p) (pay_payer p))) (\<lambda>paid.
                then_gw (deliver bs paid) (return_gw paid))) (\<lambda>j. inv_account j = inv_account i)"
          by (rule yields_any_bind [OF yields_put_invoice_same [where Q = "\<lambda>j. inv_account j = inv_account i"]])
             (auto simp: inv_paid_def intro!: yields_then yields_return keepsI)
      qed simp
    qed
  qed simp
  have "confirm bs k w = ?body w" using assms(1) by (simp add: confirm_def bind_gw_def [of "store_invoice k"])
  then show ?thesis using yieldsD [OF body TrueI, of w j] assms(2) by (simp only:)
qed

text \<open>C38. Who is shown an invoice. A caller is shown only invoices of the account of their session, whatever the network says.
  For another account's invoice the answer is meant to be the one a missing invoice gets, so that an id cannot be probed
  for. It is when the confirmation goes through; but the invoice is confirmed before the account is compared, so
  when the network cannot be asked about it the network's error is the answer, which a missing invoice never gets.\<close>

theorem invoice_is_shown_to_its_account_only:
  assumes "store_invoice k w = (Inr (Some i), w)" "inv_account i \<noteq> account" "store_invoice k w2 = (Inr None, w2)"
  shows "(\<forall>doc. fst (route_invoice bs k account w) \<noteq> Inr doc)
    \<and> (\<forall>j. fst (confirm bs k w) = Inr j \<longrightarrow> fst (route_invoice bs k account w) = Inl (InvoiceNotFoundError k))
    \<and> route_invoice bs k account w2 = (Inl (InvoiceNotFoundError k), w2)
    \<and> (\<forall>e. inv_status i \<noteq> INV_PAID \<and> net_payment_for (bs_network bs) (w_tick w) i = Inl e \<longrightarrow> fst (route_invoice bs k account w) = Inl e)"
proof -
  have same: "inv_account j \<noteq> account" if "fst (confirm bs k w) = Inr j" for j
    using confirm_keeps_account [OF assms(1) that] assms(2) by simp
  have shape: "fst (route_invoice bs k account w) =
      (case fst (confirm bs k w) of Inl e \<Rightarrow> Inl e | Inr j \<Rightarrow> if inv_account j \<noteq> account then Inl (InvoiceNotFoundError k) else Inr (invoice_json j))"
    by (simp add: route_invoice_def bind_gw_def raise_gw_def return_gw_def split: prod.split sum.split)
  have down: "fst (confirm bs k w) = Inl e" if "inv_status i \<noteq> INV_PAID" "net_payment_for (bs_network bs) (w_tick w) i = Inl e" for e
    using that assms(1) by (simp add: confirm_def bind_gw_def tick_def lift_gw_def)
  have "route_invoice bs k account w2 = (Inl (InvoiceNotFoundError k), w2)"
    using assms(3) by (simp add: route_invoice_def confirm_def bind_gw_def raise_gw_def)
  with same down show ?thesis unfolding shape by (auto split: sum.split)
qed

section \<open>Examples\<close>

definition selling_settings :: settings where
  "selling_settings = sample_settings\<lparr>se_billing := sample_billing_settings\<lparr>bg_x402 := True\<rparr>\<rparr>"

theorem every_route_reaches_its_handler_witness:
  "\<not> bg_facilitator (se_billing selling_settings)
   \<and> dispatch selling_settings ''GET'' ''/runs/ab/events'' = Some RunEvents
   \<and> dispatch (selling_settings\<lparr>se_billing := (se_billing selling_settings)\<lparr>bg_facilitator := False\<rparr>\<rparr>) ''POST'' ''/x402/settle'' = Some X402Settle"
proof -
  have r: "RunsRouter \<in> set (routers selling_settings)" "X402Router \<in> set (routers selling_settings)" "\<not> bg_facilitator (se_billing selling_settings)"
    by (simp_all add: routers_def selling_settings_def sample_settings_def sample_billing_settings_def)
  have e: "(''GET'', [Lit ''runs'', Param, Lit ''events''], RunEvents) \<in> set (routes RunsRouter)" by simp
  have m: "matches [Lit ''runs'', Param, Lit ''events''] (segments ''/runs/ab/events'')" by code_simp
  from every_route_reaches_its_handler [OF r(1) e m] r show ?thesis by blast
qed

definition free_container :: container where
  "free_container = \<lparr>cn_billing = None, cn_identity = None, cn_x402 = None\<rparr>"

definition empty_system :: system where
  "empty_system = sample_system\<lparr>sy_runs := sample_store\<lparr>rs_runs := []\<rparr>\<rparr>"

definition sample_reply :: json where
  "sample_reply = JObj [(''questionnaire'', JObj [(''questions'', JList [JObj [(''text'', JStr ''who?'')]])])]"

lemma sample_questionnaire_loads: "json_loads scan_codecs sample_questionnaire = Some sample_reply"
  by code_simp

lemma sample_ask: "ask_pm sample_orchestrator operation payload s = (Inr sample_reply, s)"
proof -
  have mirag: "registry_get sample_registry ''mirag'' = Inr two_instances" by (rule sample_registered)
  have body: "sample_questionnaire \<noteq> []" by (simp add: sample_questionnaire_def)
  have "is_mapping sample_reply" by (simp add: sample_reply_def)
  with body sample_questionnaire_loads show ?thesis
    by (simp add: ask_pm_def sample_orchestrator_def on_client_def zoom_def proxied_def outbound_def mirag bind_gw_def lift_gw_def
        return_gw_def agent_answer_def sample_stream_def)
qed

lemma sample_questions: "questions_of (obj_get ''questionnaire'' sample_reply) \<noteq> []"
  by code_simp

lemma sample_starts: "\<exists>r s'. start sample_orchestrator ''shop'' [] empty_system = (Inr r, s')"
proof -
  have "\<exists>r. run_start ''shop'' [] token 2 2 = Inr r \<and> run_st r = IDEA" for token
  proof -
    have "strip ''shop'' = ''shop''" "py_len ''shop'' \<le> MAX_IDEA_CHARS" by code_simp+
    then show ?thesis by (simp add: run_start_def)
  qed
  then obtain fresh where fresh: "run_start ''shop'' [] (show_nat 0) 2 2 = Inr fresh" "run_st fresh = IDEA" by blast
  then obtain r where r: "describing 2 fresh = Inr r" "run_st r = PM_ANALYSIS" by (simp add: describing_def moved_def may_def)
  then obtain q where q: "asked (str_or_empty (obj_get ''summary'' sample_reply)) (questionnaire_json
      (str_or_empty (obj_get ''reason'' (obj_get ''questionnaire'' sample_reply))) (questions_of (obj_get ''questionnaire'' sample_reply))) 2 r = Inr q"
    by (simp add: asked_def moved_def may_def)
  have sys: "sy_mono empty_system = (\<lambda>_. 2)" "sy_token empty_system = show_nat" "sy_tick empty_system = 0"
    by (simp_all add: empty_system_def sample_system_def)
  have stored: "\<exists>s2. put q s1 = (Inr q, s2)" if "sy_runs s1 = sy_runs empty_system" for s1
  proof -
    have "run_store_ok (sy_runs s1)" "1 \<le> rs_max (sy_runs s1)"
      using that by (simp_all add: empty_system_def sample_store_def run_store_ok_def)
    from put_runs [OF this] show ?thesis by (simp add: put_def on_runs_def zoom_def)
  qed
  obtain s2 where "put q (empty_system\<lparr>sy_tick := Suc (Suc (Suc (Suc (Suc 0))))\<rparr>) = (Inr q, s2)"
    using stored [of "empty_system\<lparr>sy_tick := Suc (Suc (Suc (Suc (Suc 0))))\<rparr>"] by auto
  then show ?thesis
    using fresh r q sys sample_questions
    by (simp add: start_def then_gw_def bind_gw_def new_run_id_def monotonic_now_def move_def lift_gw_def sample_ask Let_def
        sample_orchestrator_def [THEN arg_cong [where f = or_meter]] return_gw_def)
qed

theorem started_run_belongs_to_its_payer_witness:
  "\<exists>doc s'. route_start free_container sample_orchestrator [] [] ''shop'' 0 empty_system = (Inr (Some doc), s') \<and> obj_get ''account'' doc = JStr []"
proof -
  obtain r s' where r: "start sample_orchestrator ''shop'' [] empty_system = (Inr r, s')" using sample_starts by blast
  have len: "within 1 MAX_IDEA_CHARS ''shop''" by code_simp
  have c: "cn_billing free_container = None" by (simp add: free_container_def)
  have "sy_world_update (\<lambda>_. sy_world empty_system) empty_system = empty_system" by simp
  with r len c have run: "route_start free_container sample_orchestrator [] [] ''shop'' 0 empty_system = (Inr (Some (run_json r)), s')"
    by (simp add: route_start_def payer_of_def on_world_def zoom_def bind_gw_def return_gw_def checked_def)
  from started_run_belongs_to_its_payer [OF run] c run show ?thesis by auto
qed

definition unreachable_service :: billing_service where
  "unreachable_service = sample_service\<lparr>bs_network := (bs_network sample_service)\<lparr>net_payment_for := \<lambda>_ _. Inl (PaymentNetworkError ''Horizon could not be reached'')\<rparr>\<rparr>"

theorem invoice_is_shown_to_its_account_only_witness:
  "fst (route_invoice unreachable_service ''cz01'' ''stranger'' (invoice_world sample_invoice)) = Inl (PaymentNetworkError ''Horizon could not be reached'')
   \<and> fst (route_invoice unreachable_service ''cz01'' ''stranger'' sample_world) = Inl (InvoiceNotFoundError ''cz01'')"
proof -
  have row: "invoice_of_row (row_of_invoice sample_invoice) = Inr sample_invoice"
    using sample_invoice_storable by (simp add: storable_invoice_def invoice_row_roundtrip)
  have id: "inv_id sample_invoice = ''cz01''" "inv_account sample_invoice \<noteq> ''stranger''" by (simp_all add: sample_invoice_def)
  have "ir_id (row_of_invoice sample_invoice) = ''cz01''" using id by (simp add: row_of_invoice_def)
  then have found: "store_invoice ''cz01'' (invoice_world sample_invoice) = (Inr (Some sample_invoice), invoice_world sample_invoice)"
    using row by (simp add: store_invoice_def invoice_world_def bind_gw_def gets_gw_def lift_gw_def bind_sum_def)
  have none: "store_invoice ''cz01'' sample_world = (Inr None, sample_world)"
    by (simp add: store_invoice_def sample_world_def bind_gw_def gets_gw_def return_gw_def)
  have "net_payment_for (bs_network unreachable_service) t i = Inl (PaymentNetworkError ''Horizon could not be reached'')" for t i
    by (simp add: unreachable_service_def)
  with invoice_is_shown_to_its_account_only [OF found id(2) none, of unreachable_service] sample_invoice_pending(1) show ?thesis by simp
qed

end
