(* ===== verification/Spec2Isabelle.thy ===== *)
theory Spec2Isabelle
  imports Billing_Guarantees Billing_Periods Run_Store Run_Log Circuit_Breaker Header_Policy Runs
    Resilience Api_Errors Proxy_Service Identity X402 Stellar Payment_Gate Orchestration
    Proxy_Api Subscription_Contract Settings Presentation Api_Routes
begin

text \<open>
  A verification development for the CodeZard gateway (\<^verbatim>\<open>src/src/gateway\<close>), an API gateway that forwards
  requests to agents, carries a run from an idea to a generated project, and charges for it.

  \<^bold>\<open>How the code is modelled.\<close> A coroutine that raises and changes state is a function from a state to a result and
  a state (\<open>gw\<close> of \<open>Gateway_Prelude\<close>): \<open>Inl\<close> is the exception, and the state is the one reached when it was raised,
  so what a failed call leaves behind is visible. Exceptions are the datatype \<open>exn\<close> of \<open>Exceptions\<close>, and an \<^verbatim>\<open>except\<close>
  clause is a predicate on it. Text and bytes are lists of bytes, in UTF-8. Python integers are \<open>int\<close>. A dictionary is
  an association list in insertion order. Decimals are a coefficient and an exponent with the precision of 28 digits
  and the exponent limits of the default context (\<open>Decimals\<close>); instants are microseconds since the first day of the
  calendar (\<open>Datetimes\<close>). Readings of clocks, random ids, answers of the network, the SDK of Stellar, keyed hashes and
  signatures are arguments, functions of a tick or of what happened before, so a theorem holds for all of them.

  \<^bold>\<open>The parts\<close>, each with the files it models:

  \<^item> \<open>Gateway_Prelude\<close>, \<open>Json_Values\<close>, \<open>Json_Text\<close>, \<open>Base64\<close>, \<open>Decimals\<close>, \<open>Datetimes\<close>: what the code uses of Python and its
    library: text, dictionaries, the state-and-exception operations with their rules of preservation (\<open>keeps\<close>,
    \<open>yields\<close>), JSON values and their text, base 64, decimal arithmetic, ISO dates.
  \<^item> \<open>Run_States\<close>, \<open>Runs\<close>, \<open>Run_Store\<close>, \<open>Run_Log\<close> (\<^verbatim>\<open>domain/runs.py\<close>, \<^verbatim>\<open>infrastructure/runs.py\<close>,
    \<^verbatim>\<open>infrastructure/run_log.py\<close>): the state machine of a run with its histories by rule induction; the bounded,
    expiring store, which refines a list of live runs; the log of a run, whose readers interleave with the writer.
  \<^item> \<open>Billing_Money\<close>, \<open>Billing_Ledger\<close>, \<open>Billing_Invoices\<close> (\<^verbatim>\<open>domain/billing.py\<close>): amounts, catalog, pricing, usage; the
    ledger and the balance as its replay; invoices, subscriptions and what settles an invoice.
  \<^item> \<open>Sqlite_Store\<close> (\<^verbatim>\<open>infrastructure/billing/sqlite_store.py\<close>): the three tables and every statement, and the interface
    \<open>billing_store\<close>, a locale interpreted on them.
  \<^item> \<open>Billing_Service\<close>, \<open>Billing_Guarantees\<close>, \<open>Billing_Periods\<close> (\<^verbatim>\<open>application/billing_service.py\<close>): every operation of
    the service; the invariant of the books over every sequence of calls, idempotent credits and charges, delivery of
    what was paid, and the payment that no later call delivers (by the contract \<open>ledger_invariant\<close>, which says under which
    references the calls write); free weeks, renewals and on-chain periods.
  \<^item> \<open>Gateway_Models\<close>, \<open>Header_Policy\<close> (\<^verbatim>\<open>domain/models.py\<close>, \<^verbatim>\<open>infrastructure/registry.py\<close>,
    \<^verbatim>\<open>application/header_policy.py\<close>): services, requests, addresses, the registry, and which headers cross.
  \<^item> \<open>Http_Transport\<close>, \<open>Retry\<close>, \<open>Circuit_Breaker\<close>, \<open>Load_Balancer\<close>, \<open>Resilience\<close> (\<^verbatim>\<open>infrastructure/httpx_client.py\<close>,
    \<^verbatim>\<open>infrastructure/resilience\<close>, the client \<^verbatim>\<open>bootstrap.py\<close> stacks): clients over one wire, where any call may
    fail, closing a response included. The contracts of a client, the locales \<open>careful_client\<close> (what is put on the wire),
    \<open>tidy_client\<close> (what is left open), \<open>answering_client\<close> (where an answer comes from) and \<open>explaining_client\<close> (what an
    error means), are kept by every layer and so hold of the whole stack.
  \<^item> \<open>Proxy_Service\<close> (\<^verbatim>\<open>application/proxy_service.py\<close>, \<^verbatim>\<open>application/health_service.py\<close>) and \<open>Api_Errors\<close>
    (\<^verbatim>\<open>api/errors.py\<close>): what a request becomes on the wire and where its answer comes from, the health report and
    when there is none, what an exception is answered with.
  \<^item> \<open>Identity\<close> (\<^verbatim>\<open>application/identity_service.py\<close>): challenges and sessions in sealed tokens.
  \<^item> \<open>X402\<close>, \<open>Stellar\<close>, \<open>Payment_Gate\<close> (\<^verbatim>\<open>domain/x402.py\<close>, \<^verbatim>\<open>application/x402_service.py\<close>,
    \<^verbatim>\<open>infrastructure/billing/stellar.py\<close>, \<^verbatim>\<open>api/payment_gate.py\<close>): payment per call, the network it settles on, and who
    pays for a request.
  \<^item> \<open>Stream_Scan\<close>, \<open>Orchestration\<close> (\<^verbatim>\<open>application/orchestration.py\<close>): what is read out of the agent's stream, however it
    is cut; and the moves of a run over the store, the log, the proxy and the books, which are parts of one state.
    The lemmas say what each part leaves behind; the theorems follow a generation through every way it can end, the
    ways that leave its run open included. What every call keeps is proved once, under the contract
    \<open>orchestrator_invariant\<close>, and used for the round cap, for a run that was abandoned and for ids that are never drawn.
  \<^item> \<open>Proxy_Api\<close> (\<^verbatim>\<open>api/middleware.py\<close>, \<^verbatim>\<open>api/adapters.py\<close>, \<^verbatim>\<open>api/routes/proxy.py\<close>): a request of a client from the
    middleware through the proxy and the whole stack of clients to the response and the relay of its body: the id of
    the request, the instance that is named and can be asked for again, what is answered when the request fails, and the
    connection.
  \<^item> \<open>Subscription_Contract\<close> (\<^verbatim>\<open>infrastructure/billing/subscriptions.py\<close>): the client of the contract over the SDK, a
    record of functions: what is read of a stored subscription, and what is signed and sent.
  \<^item> \<open>Settings\<close> (\<^verbatim>\<open>config/settings.py\<close>, \<^verbatim>\<open>bootstrap.py\<close>): the settings with their validators, and everything
    \<^verbatim>\<open>build_container\<close> makes of them, the opening of the ledger included (the disk is an argument); what validation
    guarantees of the parts, and what can still fail at the start.
  \<^item> \<open>Presentation\<close> (the \<^verbatim>\<open>as_json\<close> of the domain): the documents the routes answer with.
  \<^item> \<open>Api_Routes\<close> (\<^verbatim>\<open>api/routes\<close>, \<^verbatim>\<open>api/app.py\<close>): every route over the services, in the order FastAPI works: dependencies,
    body, function; the tables of routes, and the first match that picks one, which is the documented rule of FastAPI;
    whose run and whose invoice it is.

  \<^bold>\<open>Bounds.\<close> The reader of JSON recurses with a fuel of twice the length of the text plus two, which covers one step for
  the value and one for the separator of every character; its round trip with the writer is proved. A reader of the
  log takes a number of steps; \<open>follow_replays_ended_run\<close> says how many are enough. Every other loop is a total
  function with a measure.

  \<^bold>\<open>Not modelled.\<close> The pages of OpenAPI and the contract of MIRAG (\<^verbatim>\<open>api/openapi.py\<close>, \<^verbatim>\<open>api/contracts\<close>: static
  documents), the making of the application, its lifespan and its logging (\<^verbatim>\<open>main.py\<close>, \<^verbatim>\<open>logging_config.py\<close>, the rest of
  \<^verbatim>\<open>api/app.py\<close>), the reading of environment variables by pydantic (settings start here as the values it read), the
  abstract classes of \<^verbatim>\<open>domain/ports.py\<close> (their contracts are the locales and the records of arguments), the SDK of
  Stellar and the servers behind it, scripts, tests, the contract in Rust and the front end. Log lines are left out
  everywhere.
\<close>

end
